(* ===== verification/Prelude.thy ===== *)
theory Prelude
  imports Main "HOL-Library.Word"
begin

text \<open>
  Shared vocabulary of the development.

  \<^item> Results: an action either aborts the transaction (\<open>Inl e\<close>) or continues with a value
    (\<open>Inr v\<close>). \<open>rbind\<close> sequences two such computations and \<open>rfold\<close> is a loop over
    a vector that stops at the first abort.
  \<^item> Machine integers: signed 64 and 128 bit arithmetic is arithmetic on \<open>int\<close> followed by
    the two's complement wrap-around \<open>i64\<close> and \<open>i128\<close> that the WebAssembly target performs.
  \<^item> Tables: an \<open>eosio::multi_index\<close> (and a \<open>std::map\<close>) is an association list in
    strictly increasing key order, so that iteration in key order, lookup, insertion and erasure
    are all executable. The locale \<open>row_store\<close> is the interface the contracts use, and the
    sums over all rows that the accounting invariants speak about are proved inside it.
\<close>

named_theorems res_simps \<open>inversion of a successful computation\<close>
named_theorems int_wrap \<open>wrap-around is the identity in range\<close>

section \<open>Results\<close>

definition rbind :: "'e + 'a \<Rightarrow> ('a \<Rightarrow> 'e + 'b) \<Rightarrow> 'e + 'b" where
  "rbind m f = (case m of Inl e \<Rightarrow> Inl e | Inr a \<Rightarrow> f a)"

lemma rbind_simps [simp]:
  "rbind (Inl e) f = Inl e"
  "rbind (Inr a) f = f a"
  by (simp_all add: rbind_def)

lemma rbind_eq_Inr [simp, res_simps]: "rbind m f = Inr b \<longleftrightarrow> (\<exists>a. m = Inr a \<and> f a = Inr b)"
  by (cases m) simp_all

lemma if_Inl_eq_Inr [simp, res_simps]: "(if c then Inl e else m) = Inr b \<longleftrightarrow> \<not> c \<and> m = Inr b"
  by simp

lemma if_Inr_eq_Inr [res_simps]:
  "(if c then Inr a else Inl e) = Inr b \<longleftrightarrow> c \<and> a = b"
  by simp

lemma rbind_cong [fundef_cong]:
  assumes "m = n" and "\<And>a. n = Inr a \<Longrightarrow> f a = g a"
  shows "rbind m f = rbind n g"
  using assms by (cases n) simp_all

fun rfold :: "('a \<Rightarrow> 's \<Rightarrow> 'e + 's) \<Rightarrow> 'a list \<Rightarrow> 's \<Rightarrow> 'e + 's" where
  "rfold f [] s = Inr s"
| "rfold f (x # xs) s = rbind (f x s) (rfold f xs)"

lemma rfold_append: "rfold f (xs @ ys) s = rbind (rfold f xs s) (rfold f ys)"
  by (induction xs arbitrary: s) (auto simp: rbind_def split: sum.splits)

lemma rfold_invariant:
  assumes "rfold f xs s = Inr t" and "P s"
    and "\<And>x u v. x \<in> set xs \<Longrightarrow> P u \<Longrightarrow> f x u = Inr v \<Longrightarrow> P v"
  shows "P t"
  using assms
proof (induction xs arbitrary: s)
  case Nil
  then show ?case by simp
next
  case (Cons x xs)
  from Cons.prems(1) obtain u where u: "f x s = Inr u" "rfold f xs u = Inr t" by auto
  from Cons.prems(3) [OF _ Cons.prems(2) u(1)] have "P u" by simp
  then show ?case using Cons.IH [OF u(2)] Cons.prems(3) by (meson list.set_intros(2))
qed

section \<open>Sorted vectors\<close>

text \<open>The loop that compares every element of a vector with its predecessor.\<close>

fun ascending :: "'a::linorder list \<Rightarrow> bool" where
  "ascending (a # b # xs) = (a < b \<and> ascending (b # xs))"
| "ascending _ = True"

lemma ascending_iff: "ascending xs \<longleftrightarrow> sorted_wrt (<) xs"
  by (induction xs rule: ascending.induct) (auto intro: less_trans)

lemma find_SomeD: "find f xs = Some x \<Longrightarrow> x \<in> set xs \<and> f x"
  by (auto simp: find_Some_iff)

section \<open>Machine integers\<close>

definition i64 :: "int \<Rightarrow> int" where
  "i64 x = (x + 2 ^ 63) mod 2 ^ 64 - 2 ^ 63"

definition i128 :: "int \<Rightarrow> int" where
  "i128 x = (x + 2 ^ 127) mod 2 ^ 128 - 2 ^ 127"

lemma i64_id [int_wrap]: "- (2 ^ 63) \<le> x \<Longrightarrow> x < 2 ^ 63 \<Longrightarrow> i64 x = x"
  by (simp add: i64_def)

lemma i128_id [int_wrap]: "- (2 ^ 127) \<le> x \<Longrightarrow> x < 2 ^ 127 \<Longrightarrow> i128 x = x"
  by (simp add: i128_def)

lemma i64_range: "- (2 ^ 63) \<le> i64 x \<and> i64 x < 2 ^ 63"
  using pos_mod_bound [of "2 ^ 64" "x + 2 ^ 63"] pos_mod_sign [of "2 ^ 64" "x + 2 ^ 63"]
  by (simp add: i64_def)

lemma i128_range: "- (2 ^ 127) \<le> i128 x \<and> i128 x < 2 ^ 127"
  using pos_mod_bound [of "2 ^ 128" "x + 2 ^ 127"] pos_mod_sign [of "2 ^ 128" "x + 2 ^ 127"]
  by (simp add: i128_def)

text \<open>Integer division of C++ truncates towards zero.\<close>

definition cdiv :: "int \<Rightarrow> int \<Rightarrow> int" where
  "cdiv a b = sgn a * sgn b * (\<bar>a\<bar> div \<bar>b\<bar>)"

lemma cdiv_nonneg: "0 \<le> a \<Longrightarrow> 0 < b \<Longrightarrow> cdiv a b = a div b"
  by (cases "a = 0") (simp_all add: cdiv_def)

lemma over_div: "0 < b \<Longrightarrow> m div b < a \<longleftrightarrow> m < a * b" for a b m :: int
proof -
  assume b: "0 < b"
  have "a * b \<le> m" if "a \<le> m div b"
  proof -
    have "a * b \<le> m div b * b" using that b by (intro mult_right_mono) auto
    also have "\<dots> \<le> m" using b pos_mod_sign [OF b, of m] div_mult_mod_eq [of m b] by linarith
    finally show ?thesis .
  qed
  moreover have "a \<le> m div b" if "a * b \<le> m" using zdiv_mono1 [OF that b] b by simp
  ultimately show "m div b < a \<longleftrightarrow> m < a * b" by (meson not_le)
qed

definition cmod :: "int \<Rightarrow> int \<Rightarrow> int" where
  "cmod a b = a - b * cdiv a b"

lemma cmod_nonneg: "0 \<le> a \<Longrightarrow> 0 < b \<Longrightarrow> cmod a b = a mod b"
  by (simp add: cmod_def cdiv_nonneg minus_mult_div_eq_mod)

text \<open>Unsigned counters away from their ends.\<close>

lemma uint_inc: "w \<noteq> - 1 \<Longrightarrow> uint (w + 1) = uint w + 1" for w :: "'a::len word"
proof -
  assume "w \<noteq> - 1"
  then have "1 + w \<noteq> 0" by (auto simp: add.commute [of 1] eq_neg_iff_add_eq_0)
  then have "int (unat (w + 1)) = int (Suc (unat w))" using unatSuc [of w] by (simp add: add.commute)
  then show "uint (w + 1) = uint w + 1" by simp
qed

lemma uint_dec: "w \<noteq> 0 \<Longrightarrow> uint (w - 1) = uint w - 1" for w :: "'a::len word"
  using uint_inc [of "w - 1"] by (auto simp: diff_eq_eq)

section \<open>Tables\<close>

type_synonym ('k, 'v) table = "('k \<times> 'v) list"

abbreviation tfind :: "('k, 'v) table \<Rightarrow> 'k \<Rightarrow> 'v option" where
  "tfind \<equiv> map_of"

fun tput :: "'k::linorder \<Rightarrow> 'v \<Rightarrow> ('k, 'v) table \<Rightarrow> ('k, 'v) table" where
  "tput k v [] = [(k, v)]"
| "tput k v ((a, b) # t) =
     (if k < a then (k, v) # (a, b) # t else if k = a then (k, v) # t else (a, b) # tput k v t)"

definition terase :: "'k \<Rightarrow> ('k, 'v) table \<Rightarrow> ('k, 'v) table" where
  "terase k t = filter (\<lambda>(a, _). a \<noteq> k) t"

definition twf :: "('k::linorder, 'v) table \<Rightarrow> bool" where
  "twf t = sorted_wrt (<) (map fst t)"

lemma twf_Nil [simp]: "twf []"
  by (simp add: twf_def)

lemma twf_Cons: "twf ((k, v) # t) \<longleftrightarrow> (\<forall>a \<in> fst ` set t. k < a) \<and> twf t"
  by (simp add: twf_def)

lemma twf_distinct: "twf t \<Longrightarrow> distinct (map fst t)"
  by (simp add: twf_def strict_sorted_iff)

lemma tfind_tput: "tfind (tput k v t) = (tfind t)(k \<mapsto> v)"
  by (induction k v t rule: tput.induct) auto

lemma keys_tput: "fst ` set (tput k v t) = insert k (fst ` set t)"
  by (induction k v t rule: tput.induct) auto

lemma twf_tput: "twf t \<Longrightarrow> twf (tput k v t)"
  by (induction k v t rule: tput.induct) (auto simp: twf_Cons keys_tput)

lemma tfind_terase: "tfind (terase k t) = (tfind t)(k := None)"
  by (induction t) (auto simp: terase_def)

lemma twf_terase: "twf t \<Longrightarrow> twf (terase k t)"
  by (induction t) (auto simp: terase_def twf_Cons)

lemma terase_absent: "tfind t k = None \<Longrightarrow> terase k t = t"
  by (induction t) (auto simp: terase_def split: if_splits)

lemma terase_tput: "twf t \<Longrightarrow> tfind t k = None \<Longrightarrow> terase k (tput k v t) = t"
  by (induction k v t rule: tput.induct)
    (auto simp: terase_def twf_Cons filter_id_conv map_of_eq_None_iff split: if_splits)

lemma tfind_in_set: "twf t \<Longrightarrow> tfind t k = Some v \<longleftrightarrow> (k, v) \<in> set t"
  by (simp add: twf_distinct)

lemma twf_Cons_find:
  "twf ((k, v) # t) \<Longrightarrow> a \<noteq> k \<Longrightarrow> tfind t a = Some w \<Longrightarrow> k < a"
  by (auto simp: twf_Cons dest!: map_of_SomeD)

lemma twf_Cons_None: "twf ((k, v) # t) \<Longrightarrow> tfind t k = None"
  by (auto simp: twf_Cons map_of_eq_None_iff)

text \<open>Two well-formed tables with the same rows are the same list.\<close>

lemma twf_ext: "twf t \<Longrightarrow> twf u \<Longrightarrow> tfind t = tfind u \<Longrightarrow> t = u"
proof (induction t arbitrary: u)
  case Nil
  then have "tfind u a = None" for a by (metis map_of.simps(1))
  then show ?case by (metis map_of_eq_None_iff image_is_empty list.set_map set_empty empty_iff
        list.set_intros(1) list.exhaust list.map_disc_iff)
next
  case (Cons r t)
  obtain k v where r: "r = (k, v)" by (cases r)
  obtain k' v' u' where u: "u = (k', v') # u'"
    using Cons.prems(3) by (cases u) (auto simp: r dest: fun_cong [where x = k])
  have eq: "tfind ((k, v) # t) a = tfind ((k', v') # u') a" for a
    using fun_cong [OF Cons.prems(3), of a] by (simp only: r u)
  have "k = k'"
  proof (rule ccontr)
    assume "k \<noteq> k'"
    then have "tfind t k' = Some v'" "tfind u' k = Some v"
      using eq [of k'] eq [of k] by simp_all
    then have "k < k'" "k' < k"
      using Cons.prems(1,2) \<open>k \<noteq> k'\<close> by (auto simp: r u dest: twf_Cons_find)
    then show False by simp
  qed
  moreover have "v = v'" using eq [of k] calculation by simp
  moreover have "tfind t = tfind u'"
  proof
    fix a
    show "tfind t a = tfind u' a"
      using eq [of a] twf_Cons_None [of k v t] twf_Cons_None [of k' v' u'] Cons.prems(1,2) calculation
      by (simp add: r u split: if_splits)
  qed
  ultimately show ?case using Cons.IH [of u'] Cons.prems(1,2) by (simp add: r u twf_Cons)
qed

lemma tput_tput: "twf t \<Longrightarrow> tput k v (tput k w t) = tput k v t"
  by (rule twf_ext) (auto simp: tfind_tput twf_tput)

lemma tput_same: "twf t \<Longrightarrow> tfind t k = Some v \<Longrightarrow> tput k v t = t"
  by (rule twf_ext) (auto simp: tfind_tput twf_tput)

text \<open>
  The interface the contracts use: lookup after an insertion or erasure, and well-formedness.
  What every accounting proof needs is how a sum over all rows changes.
\<close>

locale row_store =
  fixes find :: "'t \<Rightarrow> 'k \<Rightarrow> 'v option"
    and put :: "'k \<Rightarrow> 'v \<Rightarrow> 't \<Rightarrow> 't"
    and erase :: "'k \<Rightarrow> 't \<Rightarrow> 't"
    and keys :: "'t \<Rightarrow> 'k set"
    and wf :: "'t \<Rightarrow> bool"
  assumes find_put: "find (put k v t) = (find t)(k \<mapsto> v)"
    and find_erase: "find (erase k t) = (find t)(k := None)"
    and keys_dom: "keys t = dom (find t)"
    and finite_keys: "finite (keys t)"
    and wf_put: "wf t \<Longrightarrow> wf (put k v t)"
    and wf_erase: "wf t \<Longrightarrow> wf (erase k t)"
begin

definition total :: "('k \<Rightarrow> 'v \<Rightarrow> int) \<Rightarrow> 't \<Rightarrow> int" where
  "total f t = (\<Sum>k\<in>keys t. case find t k of None \<Rightarrow> 0 | Some v \<Rightarrow> f k v)"

definition old :: "('k \<Rightarrow> 'v \<Rightarrow> int) \<Rightarrow> 't \<Rightarrow> 'k \<Rightarrow> int" where
  "old f t k = (case find t k of None \<Rightarrow> 0 | Some v \<Rightarrow> f k v)"

lemma total_alt: "total f t = old f t k + (\<Sum>a\<in>keys t - {k}. old f t a)"
proof (cases "k \<in> keys t")
  case True
  then show ?thesis
    using sum.remove [OF finite_keys True, of "old f t"] by (simp add: total_def old_def)
next
  case False
  then have "old f t k = 0" by (auto simp: keys_dom old_def domIff)
  then show ?thesis using False by (simp add: total_def old_def)
qed

lemma total_put: "total f (put k v t) = total f t - old f t k + f k v"
proof -
  have "keys (put k v t) - {k} = keys t - {k}" by (auto simp: keys_dom find_put)
  then show ?thesis
    using total_alt [of f "put k v t" k] total_alt [of f t k]
    by (simp add: old_def find_put)
qed

lemma total_erase: "total f (erase k t) = total f t - old f t k"
proof -
  have "keys (erase k t) - {k} = keys t - {k}" by (auto simp: keys_dom find_erase)
  then show ?thesis
    using total_alt [of f "erase k t" k] total_alt [of f t k]
    by (simp add: old_def find_erase)
qed

lemma total_nonneg:
  assumes "\<And>k v. find t k = Some v \<Longrightarrow> 0 \<le> f k v"
  shows "0 \<le> total f t"
  unfolding total_def by (rule sum_nonneg) (auto split: option.splits intro: assms)

lemma total_row_le:
  assumes "\<And>k v. find t k = Some v \<Longrightarrow> 0 \<le> f k v" and "find t k = Some v"
  shows "f k v \<le> total f t"
proof -
  have "0 \<le> (\<Sum>a\<in>keys t - {k}. old f t a)"
    by (rule sum_nonneg) (auto simp: old_def split: option.splits intro: assms(1))
  then show ?thesis using total_alt [of f t k] assms(2) by (simp add: old_def)
qed

lemma total_cong:
  assumes "\<And>k v. find t k = Some v \<Longrightarrow> f k v = g k v"
  shows "total f t = total g t"
  unfolding total_def by (rule sum.cong) (auto split: option.splits intro: assms)

lemma total_mono:
  assumes "\<And>k v. find t k = Some v \<Longrightarrow> f k v \<le> g k v"
  shows "total f t \<le> total g t"
  unfolding total_def by (rule sum_mono) (auto split: option.splits intro: assms)

lemma total_add: "total (\<lambda>k v. f k v + g k v) t = total f t + total g t"
  unfolding total_def sum.distrib [symmetric]
  by (rule sum.cong) (auto split: option.splits)

lemma total_cmult: "total (\<lambda>k v. c * f k v) t = c * total f t"
  unfolding total_def sum_distrib_left
  by (rule sum.cong) (auto split: option.splits)

lemma total_zero: "total (\<lambda>k v. 0) t = 0"
  unfolding total_def by (rule sum.neutral) (auto split: option.splits)

lemma total_put_new: "find t k = None \<Longrightarrow> total f (put k v t) = total f t + f k v"
  by (simp add: total_put old_def)

lemma total_put_old: "find t k = Some w \<Longrightarrow> total f (put k v t) = total f t - f k w + f k v"
  by (simp add: total_put old_def)

lemma total_erase_old: "find t k = Some w \<Longrightarrow> total f (erase k t) = total f t - f k w"
  by (simp add: total_erase old_def)

end

definition tkeys :: "('k, 'v) table \<Rightarrow> 'k set" where
  "tkeys t = fst ` set t"

interpretation tbl: row_store tfind tput terase tkeys twf
  by unfold_locales
    (simp_all add: tfind_tput tfind_terase tkeys_def dom_map_of_conv_image_fst twf_tput twf_terase)

text \<open>The sum over all rows, in a form that evaluates.\<close>

definition tsum :: "('k \<Rightarrow> 'v \<Rightarrow> int) \<Rightarrow> ('k, 'v) table \<Rightarrow> int" where
  "tsum f t = sum_list (map (\<lambda>(k, v). f k v) t)"

lemma tsum_simps [simp]:
  "tsum f [] = 0"
  "tsum f ((k, v) # t) = f k v + tsum f t"
  by (simp_all add: tsum_def)

lemma tsum_zero [simp]: "tsum (\<lambda>_ _. 0) t = 0"
  by (induction t) auto

lemma tsum_add: "tsum (\<lambda>k v. f k v + g k v) t = tsum f t + tsum g t"
  by (induction t) auto

lemma tsum_total: "twf t \<Longrightarrow> tsum f t = tbl.total f t"
proof (induction t)
  case Nil
  have "tkeys [] = {}" by (simp add: tkeys_def)
  then show ?case by (simp add: tbl.total_def)
next
  case (Cons r t)
  obtain k v where r: "r = (k, v)" by (cases r)
  from Cons.prems have wf: "twf t" and gt: "\<forall>a \<in> fst ` set t. k < a"
    by (auto simp: r twf_Cons)
  have "tfind t k = None" using gt by (force simp: map_of_eq_None_iff)
  moreover have "tput k v t = (k, v) # t" using gt by (cases t) auto
  ultimately show ?case
    using tbl.total_put_new [of t k f v] Cons.IH [OF wf] by (simp add: r)
qed

lemma tsum_tput:
  "twf t \<Longrightarrow> tsum f (tput k v t) =
     tsum f t - (case tfind t k of None \<Rightarrow> 0 | Some w \<Rightarrow> f k w) + f k v"
  by (simp add: tsum_total twf_tput tbl.total_put tbl.old_def)

lemma tsum_tput_old:
  "twf t \<Longrightarrow> tfind t k = Some w \<Longrightarrow> tsum f (tput k v t) = tsum f t - f k w + f k v"
  by (simp add: tsum_tput)

lemma tsum_tput_new:
  "twf t \<Longrightarrow> tfind t k = None \<Longrightarrow> tsum f (tput k v t) = tsum f t + f k v"
  by (simp add: tsum_tput)

lemma tsum_terase:
  "twf t \<Longrightarrow> tfind t k = Some w \<Longrightarrow> tsum f (terase k t) = tsum f t - f k w"
  by (simp add: tsum_total twf_terase tbl.total_erase_old)

lemma tsum_nonneg:
  "twf t \<Longrightarrow> (\<And>k v. tfind t k = Some v \<Longrightarrow> 0 \<le> f k v) \<Longrightarrow> 0 \<le> tsum f t"
  by (simp add: tsum_total tbl.total_nonneg)

lemma tsum_row_le:
  "twf t \<Longrightarrow> (\<And>k v. tfind t k = Some v \<Longrightarrow> 0 \<le> f k v) \<Longrightarrow> tfind t k = Some v \<Longrightarrow>
     f k v \<le> tsum f t"
  by (simp add: tsum_total tbl.total_row_le)

lemma tsum_cong:
  "twf t \<Longrightarrow> (\<And>k v. tfind t k = Some v \<Longrightarrow> f k v = g k v) \<Longrightarrow> tsum f t = tsum g t"
  by (auto simp: tsum_total intro: tbl.total_cong)

lemma tsum_mono:
  "twf t \<Longrightarrow> (\<And>k v. tfind t k = Some v \<Longrightarrow> f k v \<le> g k v) \<Longrightarrow> tsum f t \<le> tsum g t"
  by (auto simp: tsum_total intro: tbl.total_mono)

lemmas table_simps = tfind_tput tfind_terase twf_tput twf_terase

text \<open>\<open>multi_index::emplace\<close> aborts when the primary key is taken.\<close>

definition templace :: "'e \<Rightarrow> 'k::linorder \<Rightarrow> 'v \<Rightarrow> ('k, 'v) table \<Rightarrow> 'e + ('k, 'v) table" where
  "templace e k v t = (case tfind t k of Some _ \<Rightarrow> Inl e | None \<Rightarrow> Inr (tput k v t))"

lemma templace_eq_Inr [simp, res_simps]:
  "templace e k v t = Inr u \<longleftrightarrow> tfind t k = None \<and> u = tput k v t"
  by (auto simp: templace_def split: option.splits)

end
