(* ===== verification/Platform.thy ===== *)
theory Platform
  imports Prelude
begin

text \<open>
  What the contracts see of the chain and of the contract development kit.

  \<^item> Basic data: account names and symbol codes are 64 bit values, an asset is a signed 64 bit
    amount and a symbol, times are microseconds since the epoch, a block timestamp is a slot.
  \<^item> \<open>ctx\<close> is the environment of one action: the account the contract runs on, the declared
    authorizations, which accounts exist, the block time and who was notified first.
  \<^item> \<open>cdt\<close> collects the library functions the sources call and do not define (asset arithmetic,
    symbol validity, name suffix, timestamp conversion). They are parameters of every definition
    that uses them; \<open>cdt_laws\<close> states the documented behaviour the proofs rely on, and
    \<open>cdt_ref\<close> is an instance that satisfies it.
  \<^item> \<open>inline_action\<close> are the actions a contract sends to another contract. They run after the
    sending action has finished, in the order they were sent.
\<close>

section \<open>Basic data\<close>

type_synonym name = "64 word"
type_synonym symbol_code = "64 word"
type_synonym bytes = "8 word list"
type_synonym public_key = bytes
type_synonym time_point = int
type_synonym block_timestamp = "32 word"
type_synonym permission_level = "name \<times> name"

text \<open>\<open>time_point_sec\<close> of a time point.\<close>

definition to_sec :: "time_point \<Rightarrow> 32 word" where
  "to_sec t = word_of_int (t div 1000000)"

record symbol =
  sym_code :: symbol_code
  sym_precision :: "8 word"

record asset =
  a_amount :: int
  a_symbol :: symbol

definition null_symbol :: symbol where
  "null_symbol = \<lparr>sym_code = 0, sym_precision = 0\<rparr>"

definition null_asset :: asset where
  "null_asset = \<lparr>a_amount = 0, a_symbol = null_symbol\<rparr>"

abbreviation mk_asset :: "int \<Rightarrow> symbol \<Rightarrow> asset" where
  "mk_asset n s \<equiv> \<lparr>a_amount = n, a_symbol = s\<rparr>"

lemma mk_asset_collapse [simp]: "mk_asset (a_amount v) (a_symbol v) = v"
  by (cases v) simp

text \<open>The bound of \<open>eosio::asset\<close>: an amount is at most \<open>2^62 - 1\<close> in absolute value.\<close>

definition max_amount :: int where
  "max_amount = 2 ^ 62 - 1"

definition amount_ok :: "int \<Rightarrow> bool" where
  "amount_ok n = (- max_amount \<le> n \<and> n \<le> max_amount)"

lemma max_amount_pos: "0 < max_amount"
  by (simp add: max_amount_def)

lemma amount_ok_zero [simp]: "amount_ok 0"
  by (simp add: amount_ok_def max_amount_def)

lemma amount_ok_bounds: "amount_ok n \<Longrightarrow> - (2 ^ 62) < n \<and> n < 2 ^ 62"
  by (simp add: amount_ok_def max_amount_def)

lemma amount_okI: "0 \<le> n \<Longrightarrow> n \<le> max_amount \<Longrightarrow> amount_ok n"
  using max_amount_pos by (simp add: amount_ok_def)

text \<open>A row of a scoped table is addressed by its scope and its primary key.\<close>

datatype scoped = Scoped (scope: "64 word") (pkey: "64 word")

instantiation scoped :: linorder
begin

definition less_eq_scoped :: "scoped \<Rightarrow> scoped \<Rightarrow> bool" where
  "less_eq_scoped a b = (scope a < scope b \<or> scope a = scope b \<and> pkey a \<le> pkey b)"

definition less_scoped :: "scoped \<Rightarrow> scoped \<Rightarrow> bool" where
  "less_scoped a b = (scope a < scope b \<or> scope a = scope b \<and> pkey a < pkey b)"

instance
  by standard (auto simp: less_eq_scoped_def less_scoped_def scoped.expand)

end

section \<open>Account names used by the contracts\<close>

text \<open>The values of the name literals, five bits per character.\<close>

definition system_account :: name where "system_account = 0x5c69300000000000" \<comment> \<open>flon\<close>
definition token_account :: name where "token_account = 0x5c6930669054c000" \<comment> \<open>flon.token\<close>
definition reward_account :: name where "reward_account = 0x5c69305d5c35d200" \<comment> \<open>flon.reward\<close>
definition gas_account :: name where "gas_account = 0x5c693030d8000000" \<comment> \<open>flon.gas\<close>
definition stake_account :: name where "stake_account = 0x5c69306326828000" \<comment> \<open>flon.stake\<close>
definition vote_account :: name where "vote_account = 0x5c69306e99500000" \<comment> \<open>flon.vote\<close>
definition names_account :: name where "names_account = 0x5c69304cd2560000" \<comment> \<open>flon.names\<close>
definition fees_account :: name where "fees_account = 0x5c69302d4ac00000" \<comment> \<open>flon.fees\<close>
definition null_account :: name where "null_account = 0x5c69304f51880000" \<comment> \<open>flon.null\<close>
definition active_permission :: name where "active_permission = 0x3232eda800000000" \<comment> \<open>active\<close>
definition owner_permission :: name where "owner_permission = 0xa726ab8000000000" \<comment> \<open>owner\<close>

lemmas account_defs = system_account_def token_account_def reward_account_def gas_account_def
  stake_account_def vote_account_def names_account_def fees_account_def null_account_def
  active_permission_def owner_permission_def

section \<open>Aborts\<close>

datatype error =
    Check string            \<comment> \<open>a failed \<open>check\<close>, with its message\<close>
  | CheckC nat string       \<comment> \<open>a failed \<open>CHECKC\<close>, with its code and message\<close>
  | MissingAuth name        \<comment> \<open>\<open>require_auth\<close>\<close>
  | MissingPerm name name   \<comment> \<open>\<open>require_auth\<close> of a permission level\<close>
  | KeyNotFound             \<comment> \<open>\<open>multi_index::get\<close> without a message\<close>
  | DuplicateKey            \<comment> \<open>\<open>multi_index::emplace\<close> of a taken key\<close>
  | Library string          \<comment> \<open>an abort inside a library function\<close>

type_synonym 'a res = "error + 'a"

section \<open>The environment of an action\<close>

record ctx =
  self :: name                          \<comment> \<open>\<open>get_self()\<close>\<close>
  first_receiver :: name                \<comment> \<open>\<open>get_first_receiver()\<close>\<close>
  auths :: "permission_level list"      \<comment> \<open>the authorizations the action declares\<close>
  is_account :: "name \<Rightarrow> bool"
  now :: time_point                     \<comment> \<open>\<open>current_time_point()\<close>\<close>
  indeterminate :: int                  \<comment> \<open>what an uninitialised \<open>int64_t\<close> member holds\<close>

definition has_auth :: "ctx \<Rightarrow> name \<Rightarrow> bool" where
  "has_auth x n = (n \<in> fst ` set (auths x))"

definition has_perm :: "ctx \<Rightarrow> name \<Rightarrow> name \<Rightarrow> bool" where
  "has_perm x a p = ((a, p) \<in> set (auths x))"

section \<open>Inline actions\<close>

datatype inline_action =
    Token_transfer "permission_level list" name name asset string
  | Token_open "permission_level list" name symbol name
  | Reward_init "permission_level list" symbol
  | Reward_regproducer "permission_level list" name
  | Reward_addvote "permission_level list" name int
  | Reward_subvote "permission_level list" name int
  | Reward_voteproducer "permission_level list" name "name list"
  | System_logsystemfee "permission_level list" name asset string

section \<open>Library functions\<close>

record cdt =
  symbol_is_valid :: "symbol \<Rightarrow> bool"
  asset_is_valid :: "asset \<Rightarrow> bool"
  asset_make :: "int \<Rightarrow> symbol \<Rightarrow> asset res"      \<comment> \<open>the constructor \<open>asset(amount, symbol)\<close>\<close>
  asset_add :: "asset \<Rightarrow> asset \<Rightarrow> asset res"      \<comment> \<open>\<open>+\<close> and \<open>+=\<close>\<close>
  asset_sub :: "asset \<Rightarrow> asset \<Rightarrow> asset res"      \<comment> \<open>\<open>-\<close> and \<open>-=\<close>\<close>
  asset_ge :: "asset \<Rightarrow> asset \<Rightarrow> bool res"        \<comment> \<open>\<open>>=\<close>\<close>
  asset_eq :: "asset \<Rightarrow> asset \<Rightarrow> bool res"        \<comment> \<open>\<open>==\<close>\<close>
  name_suffix :: "name \<Rightarrow> name"
  to_slot :: "time_point \<Rightarrow> block_timestamp"
  slot_time :: "block_timestamp \<Rightarrow> time_point"

definition cdt_laws :: "cdt \<Rightarrow> bool" where
  "cdt_laws C \<longleftrightarrow>
     \<not> symbol_is_valid C null_symbol
   \<and> (\<forall>a. asset_is_valid C a \<longleftrightarrow> amount_ok (a_amount a) \<and> symbol_is_valid C (a_symbol a))
   \<and> (\<forall>n s a. asset_make C n s = Inr a \<longleftrightarrow>
        amount_ok n \<and> symbol_is_valid C s \<and> a = mk_asset n s)
   \<and> (\<forall>a b c. asset_add C a b = Inr c \<longleftrightarrow>
        a_symbol a = a_symbol b \<and> amount_ok (a_amount a + a_amount b)
        \<and> c = mk_asset (a_amount a + a_amount b) (a_symbol a))
   \<and> (\<forall>a b c. asset_sub C a b = Inr c \<longleftrightarrow>
        a_symbol a = a_symbol b \<and> amount_ok (a_amount a - a_amount b)
        \<and> c = mk_asset (a_amount a - a_amount b) (a_symbol a))
   \<and> (\<forall>a b c. asset_ge C a b = Inr c \<longleftrightarrow>
        a_symbol a = a_symbol b \<and> c = (a_amount b \<le> a_amount a))
   \<and> (\<forall>a b c. asset_eq C a b = Inr c \<longleftrightarrow>
        a_symbol a = a_symbol b \<and> c = (a_amount a = a_amount b))"

text \<open>The laws, one per function, as the component proofs use them.\<close>

locale cdt_platform =
  fixes C :: cdt
  assumes laws: "cdt_laws C"
begin

lemma null_symbol_invalid: "\<not> symbol_is_valid C null_symbol"
  using laws by (simp add: cdt_laws_def)

lemma asset_is_valid_iff:
  "asset_is_valid C a \<longleftrightarrow> amount_ok (a_amount a) \<and> symbol_is_valid C (a_symbol a)"
  using laws by (simp add: cdt_laws_def)

lemma asset_make_iff:
  "asset_make C n s = Inr a \<longleftrightarrow> amount_ok n \<and> symbol_is_valid C s \<and> a = mk_asset n s"
  using laws by (simp add: cdt_laws_def)

lemma asset_add_iff:
  "asset_add C a b = Inr c \<longleftrightarrow> a_symbol a = a_symbol b \<and> amount_ok (a_amount a + a_amount b)
     \<and> c = mk_asset (a_amount a + a_amount b) (a_symbol a)"
  using laws by (simp add: cdt_laws_def)

lemma asset_sub_iff:
  "asset_sub C a b = Inr c \<longleftrightarrow> a_symbol a = a_symbol b \<and> amount_ok (a_amount a - a_amount b)
     \<and> c = mk_asset (a_amount a - a_amount b) (a_symbol a)"
  using laws by (simp add: cdt_laws_def)

lemma asset_ge_iff:
  "asset_ge C a b = Inr c \<longleftrightarrow> a_symbol a = a_symbol b \<and> c = (a_amount b \<le> a_amount a)"
  using laws by (simp add: cdt_laws_def)

lemma asset_eq_iff:
  "asset_eq C a b = Inr c \<longleftrightarrow> a_symbol a = a_symbol b \<and> c = (a_amount a = a_amount b)"
  using laws by (simp add: cdt_laws_def)

lemma asset_make_ok: "amount_ok n \<Longrightarrow> symbol_is_valid C s \<Longrightarrow> asset_make C n s = Inr (mk_asset n s)"
  by (simp add: asset_make_iff)

lemma asset_add_ok:
  "a_symbol a = a_symbol b \<Longrightarrow> amount_ok (a_amount a + a_amount b) \<Longrightarrow>
     asset_add C a b = Inr (mk_asset (a_amount a + a_amount b) (a_symbol a))"
  by (simp add: asset_add_iff)

lemma asset_sub_ok:
  "a_symbol a = a_symbol b \<Longrightarrow> amount_ok (a_amount a - a_amount b) \<Longrightarrow>
     asset_sub C a b = Inr (mk_asset (a_amount a - a_amount b) (a_symbol a))"
  by (simp add: asset_sub_iff)

lemma asset_ge_ok: "a_symbol a = a_symbol b \<Longrightarrow> asset_ge C a b = Inr (a_amount b \<le> a_amount a)"
  by (simp add: asset_ge_iff)

lemma asset_eq_ok: "a_symbol a = a_symbol b \<Longrightarrow> asset_eq C a b = Inr (a_amount a = a_amount b)"
  by (simp add: asset_eq_iff)

end

text \<open>
  The same facts under the premise \<open>cdt_laws C\<close>: as inversions of a successful library call,
  and as evaluations where the documented precondition holds.
\<close>

lemmas cdt_inv [res_simps] =
  cdt_platform.asset_is_valid_iff [OF cdt_platform.intro]
  cdt_platform.asset_make_iff [OF cdt_platform.intro]
  cdt_platform.asset_add_iff [OF cdt_platform.intro]
  cdt_platform.asset_sub_iff [OF cdt_platform.intro]
  cdt_platform.asset_ge_iff [OF cdt_platform.intro]
  cdt_platform.asset_eq_iff [OF cdt_platform.intro]

lemmas cdt_ok =
  cdt_platform.asset_make_ok [OF cdt_platform.intro]
  cdt_platform.asset_add_ok [OF cdt_platform.intro]
  cdt_platform.asset_sub_ok [OF cdt_platform.intro]
  cdt_platform.asset_ge_ok [OF cdt_platform.intro]
  cdt_platform.asset_eq_ok [OF cdt_platform.intro]

lemmas null_symbol_invalid = cdt_platform.null_symbol_invalid [OF cdt_platform.intro]

section \<open>An instance of the library\<close>

text \<open>
  The documented behaviour as executable functions. Only the validity of a symbol is kept simple
  (a non-zero code); \<open>name_suffix\<close> is the part of a name after its last dot.
\<close>

fun suffix_scan :: "nat \<Rightarrow> nat \<Rightarrow> name \<Rightarrow> nat option \<Rightarrow> nat option" where
  "suffix_scan 0 i n r = r"
| "suffix_scan (Suc k) i n r =
     suffix_scan k (Suc i) n
       (if i < 12 \<and> take_bit 5 (drop_bit (59 - 5 * i) n) = 0
           \<and> take_bit (59 - 5 * i) n \<noteq> 0 then Some i else r)"

definition ref_suffix :: "name \<Rightarrow> name" where
  "ref_suffix n = (case suffix_scan 12 0 n None of None \<Rightarrow> n | Some i \<Rightarrow> push_bit (5 * (i + 1)) n)"

definition cdt_ref :: cdt where
  "cdt_ref = \<lparr>
     symbol_is_valid = (\<lambda>s. sym_code s \<noteq> 0),
     asset_is_valid = (\<lambda>a. amount_ok (a_amount a) \<and> sym_code (a_symbol a) \<noteq> 0),
     asset_make = (\<lambda>n s. if amount_ok n \<and> sym_code s \<noteq> 0 then Inr (mk_asset n s)
                        else Inl (Library ''asset'')),
     asset_add = (\<lambda>a b. if a_symbol a = a_symbol b \<and> amount_ok (a_amount a + a_amount b)
                        then Inr (mk_asset (a_amount a + a_amount b) (a_symbol a))
                        else Inl (Library ''asset +'')),
     asset_sub = (\<lambda>a b. if a_symbol a = a_symbol b \<and> amount_ok (a_amount a - a_amount b)
                        then Inr (mk_asset (a_amount a - a_amount b) (a_symbol a))
                        else Inl (Library ''asset -'')),
     asset_ge = (\<lambda>a b. if a_symbol a = a_symbol b then Inr (a_amount b \<le> a_amount a)
                       else Inl (Library ''asset >='')),
     asset_eq = (\<lambda>a b. if a_symbol a = a_symbol b then Inr (a_amount a = a_amount b)
                       else Inl (Library ''asset =='')),
     name_suffix = ref_suffix,
     to_slot = (\<lambda>t. word_of_int ((t - 946684800000000) div 500000)),
     slot_time = (\<lambda>s. uint s * 500000 + 946684800000000)\<rparr>"

interpretation ref: cdt_platform cdt_ref
  by unfold_locales (auto simp: cdt_laws_def cdt_ref_def null_symbol_def)


section \<open>Sample environments\<close>

text \<open>Concrete values the witnesses of the properties are evaluated on.\<close>

definition demo_symbol :: symbol where
  "demo_symbol = \<lparr>sym_code = 0x4e4f4c46, sym_precision = 4\<rparr>"

definition demo_ctx :: "name \<Rightarrow> name list \<Rightarrow> ctx" where
  "demo_ctx n ns = \<lparr>self = n, first_receiver = n, auths = map (\<lambda>a. (a, active_permission)) ns,
     is_account = (\<lambda>_. True), now = 1700000000000000, indeterminate = 0\<rparr>"

definition alice :: name where "alice = 0x345c850000000000"
definition bob :: name where "bob = 0x3d0e000000000000"
definition carol :: name where "carol = 0x41af488000000000"

lemma demo_symbol_neq [simp]: "sym_code demo_symbol \<noteq> 0"
  by (simp add: demo_symbol_def)

lemma demo_symbol_valid [simp]: "symbol_is_valid cdt_ref demo_symbol"
  by (simp add: cdt_ref_def)

lemma demo_auth [simp]: "has_auth (demo_ctx n ns) a \<longleftrightarrow> a \<in> set ns"
  by (force simp: has_auth_def demo_ctx_def)

lemma demo_ctx_simps [simp]:
  "self (demo_ctx n ns) = n" "is_account (demo_ctx n ns) a" "now (demo_ctx n ns) = 1700000000000000"
  "first_receiver (demo_ctx n ns) = n" "indeterminate (demo_ctx n ns) = 0"
  by (simp_all add: demo_ctx_def)

lemma demo_names_distinct [simp]:
  "alice \<noteq> bob" "bob \<noteq> alice" "alice \<noteq> carol" "carol \<noteq> alice" "bob \<noteq> carol" "carol \<noteq> bob"
  by (simp_all add: alice_def bob_def carol_def)

end
