(* ===== verification/Token.thy ===== *)
theory Token
  imports Platform
begin

text \<open>
  The contract \<open>flon.token\<close>: the tables \<open>accounts\<close> (scope: owner, key: symbol code) and
  \<open>stat\<close> (key: symbol code) and the actions create, issue, retire, transfer, open and close.
  The invariant \<open>token_wf\<close> says that the supply of every token is the sum of all its balances
  and stays between zero and the maximum supply. Under it no balance can overflow, so a transfer
  succeeds exactly when its documented checks pass.
\<close>

section \<open>State\<close>

record account =
  acc_balance :: asset

record currency_stats =
  st_supply :: asset
  st_max_supply :: asset
  st_issuer :: name

record token_state =
  ts_accounts :: "(scoped, account) table"
  ts_stats :: "(symbol_code, currency_stats) table"

definition token_empty :: token_state where
  "token_empty = \<lparr>ts_accounts = [], ts_stats = []\<rparr>"

abbreviation asset_code :: "asset \<Rightarrow> symbol_code" where
  "asset_code a \<equiv> sym_code (a_symbol a)"

section \<open>Balances\<close>

definition sub_balance :: "cdt \<Rightarrow> name \<Rightarrow> asset \<Rightarrow> token_state \<Rightarrow> token_state res" where
  "sub_balance C owner value s =
     (case tfind (ts_accounts s) (Scoped owner (asset_code value)) of
        None \<Rightarrow> Inl (Check ''no balance object found'')
      | Some from \<Rightarrow>
          if \<not> a_amount value \<le> a_amount (acc_balance from) then Inl (Check ''overdrawn balance'')
          else rbind (asset_sub C (acc_balance from) value) (\<lambda>b.
            Inr (s\<lparr>ts_accounts := tput (Scoped owner (asset_code value))
                                     (from\<lparr>acc_balance := b\<rparr>) (ts_accounts s)\<rparr>)))"

definition add_balance :: "cdt \<Rightarrow> name \<Rightarrow> asset \<Rightarrow> name \<Rightarrow> token_state \<Rightarrow> token_state res" where
  "add_balance C owner value ram_payer s =
     (case tfind (ts_accounts s) (Scoped owner (asset_code value)) of
        None \<Rightarrow>
          Inr (s\<lparr>ts_accounts := tput (Scoped owner (asset_code value))
                                   \<lparr>acc_balance = value\<rparr> (ts_accounts s)\<rparr>)
      | Some to \<Rightarrow>
          rbind (asset_add C (acc_balance to) value) (\<lambda>b.
            Inr (s\<lparr>ts_accounts := tput (Scoped owner (asset_code value))
                                     (to\<lparr>acc_balance := b\<rparr>) (ts_accounts s)\<rparr>)))"

section \<open>Actions\<close>

definition create :: "cdt \<Rightarrow> ctx \<Rightarrow> name \<Rightarrow> asset \<Rightarrow> token_state \<Rightarrow> token_state res" where
  "create C x issuer maximum_supply s =
     (let sym = a_symbol maximum_supply in
      if \<not> has_auth x (self x) then Inl (MissingAuth (self x))
      else if \<not> asset_is_valid C maximum_supply then Inl (Check ''invalid supply'')
      else if \<not> 0 < a_amount maximum_supply then Inl (Check ''max-supply must be positive'')
      else if tfind (ts_stats s) (sym_code sym) \<noteq> None
        then Inl (Check ''token with symbol already exists'')
      else rbind (templace DuplicateKey (sym_code sym)
                    \<lparr>st_supply = mk_asset 0 sym, st_max_supply = maximum_supply,
                     st_issuer = issuer\<rparr> (ts_stats s)) (\<lambda>t.
             Inr (s\<lparr>ts_stats := t\<rparr>)))"

definition issue :: "cdt \<Rightarrow> ctx \<Rightarrow> name \<Rightarrow> asset \<Rightarrow> string \<Rightarrow> token_state \<Rightarrow> token_state res" where
  "issue C x to quantity memo s =
     (let sym = a_symbol quantity in
      if \<not> symbol_is_valid C sym then Inl (Check ''invalid symbol name'')
      else if \<not> length memo \<le> 256 then Inl (Check ''memo has more than 256 bytes'')
      else case tfind (ts_stats s) (sym_code sym) of
        None \<Rightarrow> Inl (Check ''token with symbol does not exist, create token before issue'')
      | Some st \<Rightarrow>
          if to \<noteq> st_issuer st then Inl (Check ''tokens can only be issued to issuer account'')
          else if \<not> has_auth x (st_issuer st) then Inl (MissingAuth (st_issuer st))
          else if \<not> asset_is_valid C quantity then Inl (Check ''invalid quantity'')
          else if \<not> 0 < a_amount quantity then Inl (Check ''must issue positive quantity'')
          else if a_symbol quantity \<noteq> a_symbol (st_supply st)
            then Inl (Check ''symbol precision mismatch'')
          else if \<not> a_amount quantity
                     \<le> i64 (a_amount (st_max_supply st) - a_amount (st_supply st))
            then Inl (Check ''quantity exceeds available supply'')
          else rbind (asset_add C (st_supply st) quantity) (\<lambda>supply.
            add_balance C (st_issuer st) quantity (st_issuer st)
              (s\<lparr>ts_stats := tput (sym_code sym) (st\<lparr>st_supply := supply\<rparr>) (ts_stats s)\<rparr>)))"

definition retire :: "cdt \<Rightarrow> ctx \<Rightarrow> asset \<Rightarrow> string \<Rightarrow> token_state \<Rightarrow> token_state res" where
  "retire C x quantity memo s =
     (let sym = a_symbol quantity in
      if \<not> symbol_is_valid C sym then Inl (Check ''invalid symbol name'')
      else if \<not> length memo \<le> 256 then Inl (Check ''memo has more than 256 bytes'')
      else case tfind (ts_stats s) (sym_code sym) of
        None \<Rightarrow> Inl (Check ''token with symbol does not exist'')
      | Some st \<Rightarrow>
          if \<not> has_auth x (st_issuer st) then Inl (MissingAuth (st_issuer st))
          else if \<not> asset_is_valid C quantity then Inl (Check ''invalid quantity'')
          else if \<not> 0 < a_amount quantity then Inl (Check ''must retire positive quantity'')
          else if a_symbol quantity \<noteq> a_symbol (st_supply st)
            then Inl (Check ''symbol precision mismatch'')
          else rbind (asset_sub C (st_supply st) quantity) (\<lambda>supply.
            sub_balance C (st_issuer st) quantity
              (s\<lparr>ts_stats := tput (sym_code sym) (st\<lparr>st_supply := supply\<rparr>) (ts_stats s)\<rparr>)))"

text \<open>A transfer returns the accounts it notifies, in order, beside the new state.\<close>

definition transfer ::
  "cdt \<Rightarrow> ctx \<Rightarrow> name \<Rightarrow> name \<Rightarrow> asset \<Rightarrow> string \<Rightarrow> token_state \<Rightarrow> (token_state \<times> name list) res" where
  "transfer C x from to quantity memo s =
     (if from = to then Inl (Check ''cannot transfer to self'')
      else if \<not> has_auth x from then Inl (MissingAuth from)
      else if \<not> is_account x to then Inl (Check ''to account does not exist'')
      else case tfind (ts_stats s) (asset_code quantity) of
        None \<Rightarrow> Inl KeyNotFound
      | Some st \<Rightarrow>
          if \<not> asset_is_valid C quantity then Inl (Check ''invalid quantity'')
          else if \<not> 0 < a_amount quantity then Inl (Check ''must transfer positive quantity'')
          else if a_symbol quantity \<noteq> a_symbol (st_supply st)
            then Inl (Check ''symbol precision mismatch'')
          else if \<not> length memo \<le> 256 then Inl (Check ''memo has more than 256 bytes'')
          else let payer = (if has_auth x to then to else from) in
            rbind (sub_balance C from quantity s) (\<lambda>s1.
            rbind (add_balance C to quantity payer s1) (\<lambda>s2.
              Inr (s2, [from, to]))))"

definition open_row :: "cdt \<Rightarrow> ctx \<Rightarrow> name \<Rightarrow> symbol \<Rightarrow> name \<Rightarrow> token_state \<Rightarrow> token_state res" where
  "open_row C x owner symb ram_payer s =
     (if \<not> has_auth x ram_payer then Inl (MissingAuth ram_payer)
      else if \<not> is_account x owner then Inl (Check ''owner account does not exist'')
      else case tfind (ts_stats s) (sym_code symb) of
        None \<Rightarrow> Inl (Check ''symbol does not exist'')
      | Some st \<Rightarrow>
          if a_symbol (st_supply st) \<noteq> symb then Inl (Check ''symbol precision mismatch'')
          else if tfind (ts_accounts s) (Scoped owner (sym_code symb)) = None
            then rbind (asset_make C 0 symb) (\<lambda>b.
              Inr (s\<lparr>ts_accounts := tput (Scoped owner (sym_code symb))
                                       \<lparr>acc_balance = b\<rparr> (ts_accounts s)\<rparr>))
            else Inr s)"

definition close_row :: "ctx \<Rightarrow> name \<Rightarrow> symbol \<Rightarrow> token_state \<Rightarrow> token_state res" where
  "close_row x owner symb s =
     (if \<not> has_auth x owner then Inl (MissingAuth owner)
      else case tfind (ts_accounts s) (Scoped owner (sym_code symb)) of
        None \<Rightarrow> Inl (Check ''Balance row already deleted or never existed. Action won't have any effect.'')
      | Some it \<Rightarrow>
          if a_amount (acc_balance it) \<noteq> 0
            then Inl (Check ''Cannot close because the balance is not zero.'')
          else Inr (s\<lparr>ts_accounts := terase (Scoped owner (sym_code symb)) (ts_accounts s)\<rparr>))"

section \<open>Static queries\<close>

definition get_supply :: "token_state \<Rightarrow> symbol_code \<Rightarrow> asset res" where
  "get_supply s code = (case tfind (ts_stats s) code of
      None \<Rightarrow> Inl (Check ''invalid supply symbol code'') | Some st \<Rightarrow> Inr (st_supply st))"

definition get_max_supply :: "token_state \<Rightarrow> symbol_code \<Rightarrow> asset res" where
  "get_max_supply s code = (case tfind (ts_stats s) code of
      None \<Rightarrow> Inl (Check ''invalid supply symbol code'') | Some st \<Rightarrow> Inr (st_max_supply st))"

definition get_issuer :: "token_state \<Rightarrow> symbol_code \<Rightarrow> name res" where
  "get_issuer s code = (case tfind (ts_stats s) code of
      None \<Rightarrow> Inl (Check ''invalid supply symbol code'') | Some st \<Rightarrow> Inr (st_issuer st))"

definition get_balance :: "token_state \<Rightarrow> name \<Rightarrow> symbol_code \<Rightarrow> asset res" where
  "get_balance s owner code = (case tfind (ts_accounts s) (Scoped owner code) of
      None \<Rightarrow> Inl (Check ''no balance with specified symbol'') | Some a \<Rightarrow> Inr (acc_balance a))"

section \<open>The actions as steps\<close>

datatype token_action =
    Create name asset
  | Issue name asset string
  | Retire asset string
  | Transfer name name asset string
  | Open name symbol name
  | Close name symbol

fun token_exec :: "cdt \<Rightarrow> ctx \<Rightarrow> token_action \<Rightarrow> token_state \<Rightarrow> token_state res" where
  "token_exec C x (Create i m) s = create C x i m s"
| "token_exec C x (Issue t q m) s = issue C x t q m s"
| "token_exec C x (Retire q m) s = retire C x q m s"
| "token_exec C x (Transfer f t q m) s = rbind (transfer C x f t q m s) (\<lambda>(s', _). Inr s')"
| "token_exec C x (Open ow sy p) s = open_row C x ow sy p s"
| "token_exec C x (Close ow sy) s = close_row x ow sy s"

inductive token_reachable :: "cdt \<Rightarrow> token_state \<Rightarrow> bool" for C where
  token_start: "token_reachable C token_empty"
| token_step: "token_reachable C s \<Longrightarrow> token_exec C x a s = Inr s' \<Longrightarrow> token_reachable C s'"

section \<open>Invariant\<close>

definition balance_of :: "token_state \<Rightarrow> name \<Rightarrow> symbol_code \<Rightarrow> int" where
  "balance_of s owner code = (case tfind (ts_accounts s) (Scoped owner code) of
      None \<Rightarrow> 0 | Some a \<Rightarrow> a_amount (acc_balance a))"

definition holding :: "symbol_code \<Rightarrow> scoped \<Rightarrow> account \<Rightarrow> int" where
  "holding code k a = (if pkey k = code then a_amount (acc_balance a) else 0)"

abbreviation circulating :: "token_state \<Rightarrow> symbol_code \<Rightarrow> int" where
  "circulating s code \<equiv> tsum (holding code) (ts_accounts s)"

definition stat_ok :: "cdt \<Rightarrow> symbol_code \<Rightarrow> currency_stats \<Rightarrow> bool" where
  "stat_ok C code st \<longleftrightarrow>
     asset_code (st_supply st) = code \<and> symbol_is_valid C (a_symbol (st_supply st))
   \<and> a_symbol (st_max_supply st) = a_symbol (st_supply st)
   \<and> 0 \<le> a_amount (st_supply st) \<and> a_amount (st_supply st) \<le> a_amount (st_max_supply st)
   \<and> a_amount (st_max_supply st) \<le> max_amount"

definition account_ok :: "token_state \<Rightarrow> scoped \<Rightarrow> account \<Rightarrow> bool" where
  "account_ok s k a \<longleftrightarrow> 0 \<le> a_amount (acc_balance a)
   \<and> (\<exists>st. tfind (ts_stats s) (pkey k) = Some st \<and> a_symbol (acc_balance a) = a_symbol (st_supply st))"

definition token_wf :: "cdt \<Rightarrow> token_state \<Rightarrow> bool" where
  "token_wf C s \<longleftrightarrow> twf (ts_accounts s) \<and> twf (ts_stats s)
   \<and> (\<forall>code st. tfind (ts_stats s) code = Some st \<longrightarrow>
        stat_ok C code st \<and> a_amount (st_supply st) = circulating s code)
   \<and> (\<forall>k a. tfind (ts_accounts s) k = Some a \<longrightarrow> account_ok s k a)"


text \<open>
  Inside an action the supply and the balances are updated one after the other. Between the two
  updates the supply of a token is off by a known gap.
\<close>

definition token_gap :: "cdt \<Rightarrow> (symbol_code \<Rightarrow> int) \<Rightarrow> token_state \<Rightarrow> bool" where
  "token_gap C g s \<longleftrightarrow> twf (ts_accounts s) \<and> twf (ts_stats s)
   \<and> (\<forall>code st. tfind (ts_stats s) code = Some st \<longrightarrow>
        stat_ok C code st \<and> a_amount (st_supply st) = circulating s code + g code)
   \<and> (\<forall>k a. tfind (ts_accounts s) k = Some a \<longrightarrow> account_ok s k a)"

lemma token_wf_gap: "token_wf C s \<longleftrightarrow> token_gap C (\<lambda>_. 0) s"
  by (simp add: token_wf_def token_gap_def)

lemma account_update_collapse [simp]: "(a::account)\<lparr>acc_balance := b\<rparr> = \<lparr>acc_balance = b\<rparr>"
  by (cases a) simp

definition put_balance :: "name \<Rightarrow> asset \<Rightarrow> token_state \<Rightarrow> token_state" where
  "put_balance owner b s =
     s\<lparr>ts_accounts := tput (Scoped owner (asset_code b)) \<lparr>acc_balance = b\<rparr> (ts_accounts s)\<rparr>"

lemma put_balance_stats [simp]: "ts_stats (put_balance o' b s) = ts_stats s"
  by (simp add: put_balance_def)

lemma put_balance_wf [simp]: "twf (ts_accounts s) \<Longrightarrow> twf (ts_accounts (put_balance o' b s))"
  by (simp add: put_balance_def twf_tput)

lemma put_balance_find:
  "tfind (ts_accounts (put_balance o' b s)) =
     (tfind (ts_accounts s))(Scoped o' (asset_code b) \<mapsto> \<lparr>acc_balance = b\<rparr>)"
  by (simp add: put_balance_def tfind_tput)

lemma balance_of_put:
  "balance_of (put_balance o' b s) n c =
     (if n = o' \<and> c = asset_code b then a_amount b else balance_of s n c)"
  by (auto simp: balance_of_def put_balance_def tfind_tput)

lemma sub_balance_iff:
  assumes "cdt_laws C"
  shows "sub_balance C owner v s = Inr s' \<longleftrightarrow>
     (\<exists>a. tfind (ts_accounts s) (Scoped owner (asset_code v)) = Some a
        \<and> a_symbol (acc_balance a) = a_symbol v \<and> a_amount v \<le> a_amount (acc_balance a)
        \<and> amount_ok (a_amount (acc_balance a) - a_amount v)
        \<and> s' = put_balance owner (mk_asset (a_amount (acc_balance a) - a_amount v) (a_symbol v)) s)"
  using assms
  by (auto simp: sub_balance_def put_balance_def res_simps split: option.splits)

lemma add_balance_iff:
  assumes "cdt_laws C" and "\<And>a. tfind (ts_accounts s) (Scoped owner (asset_code v)) = Some a \<Longrightarrow>
      a_symbol (acc_balance a) = a_symbol v"
    and "amount_ok (a_amount v)"
  shows "add_balance C owner v p s = Inr s' \<longleftrightarrow>
       amount_ok (balance_of s owner (asset_code v) + a_amount v)
     \<and> s' = put_balance owner (mk_asset (balance_of s owner (asset_code v) + a_amount v) (a_symbol v)) s"
  using assms
  by (auto simp: add_balance_def put_balance_def balance_of_def res_simps split: option.splits)

lemma circulating_put:
  assumes "twf (ts_accounts s)"
  shows "circulating (put_balance o' b s) c =
     circulating s c + (if c = asset_code b then a_amount b - balance_of s o' c else 0)"
  using assms
  by (auto simp: put_balance_def tsum_tput holding_def balance_of_def split: option.splits)

lemma token_gap_put:
  assumes "token_gap C g s" and "tfind (ts_stats s) (asset_code b) = Some st"
    and "a_symbol b = a_symbol (st_supply st)" and "0 \<le> a_amount b"
  shows "token_gap C (g(asset_code b := g (asset_code b) + balance_of s o' (asset_code b) - a_amount b))
           (put_balance o' b s)"
  using assms
  by (auto simp: token_gap_def circulating_put account_ok_def put_balance_find
           split: if_splits option.splits)

lemma token_gap_stat:
  "token_gap C g s \<Longrightarrow> tfind (ts_stats s) c = Some st \<Longrightarrow>
     stat_ok C c st \<and> a_amount (st_supply st) = circulating s c + g c"
  by (simp add: token_gap_def)

lemma balance_nonneg:
  "token_gap C g s \<Longrightarrow> 0 \<le> balance_of s n c"
  by (auto simp: balance_of_def token_gap_def account_ok_def split: option.splits)

lemma token_gap_account:
  assumes "token_gap C g s" "tfind (ts_accounts s) (Scoped n c) = Some a"
  obtains st where "tfind (ts_stats s) c = Some st" "a_symbol (acc_balance a) = a_symbol (st_supply st)"
    "asset_code (acc_balance a) = c"
  using assms by (fastforce simp: token_gap_def account_ok_def stat_ok_def split: option.splits)

lemma balance_le_circulating:
  assumes "token_gap C g s"
  shows "balance_of s n c \<le> circulating s c"
proof (cases "tfind (ts_accounts s) (Scoped n c)")
  case None
  have "0 \<le> circulating s c"
    using assms by (intro tsum_nonneg) (auto simp: token_gap_def holding_def account_ok_def)
  with None show ?thesis by (simp add: balance_of_def)
next
  case (Some a)
  have "holding c (Scoped n c) a \<le> circulating s c"
    using assms Some
    by (intro tsum_row_le) (auto simp: token_gap_def holding_def account_ok_def)
  with Some show ?thesis by (simp add: balance_of_def holding_def)
qed

lemma two_balances_le_circulating:
  assumes "token_gap C g s" "n \<noteq> m"
  shows "balance_of s n c + balance_of s m c \<le> circulating s c"
proof (cases "tfind (ts_accounts s) (Scoped m c)")
  case None
  then show ?thesis using balance_le_circulating [OF assms(1), of n c] by (simp add: balance_of_def)
next
  case (Some a)
  then obtain st where st: "tfind (ts_stats s) c = Some st"
    "a_symbol (acc_balance a) = a_symbol (st_supply st)" "asset_code (acc_balance a) = c"
    using token_gap_account [OF assms(1)] by metis
  let ?b = "mk_asset 0 (a_symbol (acc_balance a))"
  have gap: "token_gap C (g(c := g c + balance_of s m c - 0)) (put_balance m ?b s)"
    using token_gap_put [of C g s ?b st m] assms(1) st by simp
  have "balance_of (put_balance m ?b s) n c \<le> circulating (put_balance m ?b s) c"
    by (rule balance_le_circulating [OF gap])
  moreover have "twf (ts_accounts s)" using assms(1) by (simp add: token_gap_def)
  ultimately show ?thesis
    using assms(2) st(3) by (simp add: balance_of_put circulating_put)
qed

lemma sub_balance_gap:
  assumes "cdt_laws C" "token_gap C g s" "sub_balance C o' v s = Inr s'"
  shows "token_gap C (g(asset_code v := g (asset_code v) + a_amount v)) s'"
    and "balance_of s' = (balance_of s)(o' := (balance_of s o')
           (asset_code v := balance_of s o' (asset_code v) - a_amount v))"
    and "ts_stats s' = ts_stats s" and "a_amount v \<le> balance_of s o' (asset_code v)"
proof -
  obtain a where a: "tfind (ts_accounts s) (Scoped o' (asset_code v)) = Some a"
      "a_symbol (acc_balance a) = a_symbol v" "a_amount v \<le> a_amount (acc_balance a)"
      "s' = put_balance o' (mk_asset (a_amount (acc_balance a) - a_amount v) (a_symbol v)) s"
    using assms by (auto simp: sub_balance_iff)
  obtain st where st: "tfind (ts_stats s) (asset_code v) = Some st"
    "a_symbol (acc_balance a) = a_symbol (st_supply st)"
    using token_gap_account [OF assms(2) a(1)] by metis
  have bal: "balance_of s o' (asset_code v) = a_amount (acc_balance a)"
    by (simp add: balance_of_def a(1))
  show "token_gap C (g(asset_code v := g (asset_code v) + a_amount v)) s'"
    using token_gap_put [OF assms(2), of "mk_asset (a_amount (acc_balance a) - a_amount v) (a_symbol v)" st o']
      a st bal by simp
  show "balance_of s' = (balance_of s)(o' := (balance_of s o')
           (asset_code v := balance_of s o' (asset_code v) - a_amount v))"
    using a bal by (auto simp: fun_eq_iff balance_of_put)
  show "ts_stats s' = ts_stats s" by (simp add: a(4))
  show "a_amount v \<le> balance_of s o' (asset_code v)" using a bal by simp
qed

lemma add_balance_gap:
  assumes "cdt_laws C" "token_gap C g s" "tfind (ts_stats s) (asset_code v) = Some st"
    "a_symbol v = a_symbol (st_supply st)" "0 \<le> a_amount v" "a_amount v \<le> g (asset_code v)"
  shows "\<exists>s'. add_balance C o' v p s = Inr s'
     \<and> token_gap C (g(asset_code v := g (asset_code v) - a_amount v)) s'
     \<and> balance_of s' = (balance_of s)(o' := (balance_of s o')
           (asset_code v := balance_of s o' (asset_code v) + a_amount v))
     \<and> ts_stats s' = ts_stats s"
proof -
  let ?b = "mk_asset (balance_of s o' (asset_code v) + a_amount v) (a_symbol v)"
  have sup: "a_amount (st_supply st) = circulating s (asset_code v) + g (asset_code v)"
    "a_amount (st_supply st) \<le> max_amount"
    using token_gap_stat [OF assms(2,3)] by (auto simp: stat_ok_def)
  have le: "balance_of s o' (asset_code v) + a_amount v \<le> max_amount"
    using balance_le_circulating [OF assms(2), of o' "asset_code v"] sup assms(6) by linarith
  have nn: "0 \<le> balance_of s o' (asset_code v)" by (rule balance_nonneg [OF assms(2)])
  have ok: "amount_ok (balance_of s o' (asset_code v) + a_amount v)" "amount_ok (a_amount v)"
    using le nn assms(5) max_amount_pos by (auto simp: amount_ok_def)
  have sy: "a_symbol (acc_balance a) = a_symbol v"
    if "tfind (ts_accounts s) (Scoped o' (asset_code v)) = Some a" for a
    using token_gap_account [OF assms(2) that] assms(3,4) by (metis option.inject)
  have eq: "add_balance C o' v p s = Inr (put_balance o' ?b s)"
    using add_balance_iff [OF assms(1) sy ok(2)] ok by simp
  have "token_gap C (g(asset_code v := g (asset_code v) - a_amount v)) (put_balance o' ?b s)"
    using token_gap_put [OF assms(2), of ?b st o'] assms nn by simp
  moreover have "balance_of (put_balance o' ?b s) = (balance_of s)(o' := (balance_of s o')
           (asset_code v := balance_of s o' (asset_code v) + a_amount v))"
    by (auto simp: fun_eq_iff balance_of_put)
  ultimately show ?thesis using eq by simp
qed


section \<open>Every action keeps the invariant\<close>

lemma put_stat_gap:
  assumes "token_gap C g s" "tfind (ts_stats s) c = Some st" "stat_ok C c st'"
    "a_symbol (st_supply st') = a_symbol (st_supply st)"
  shows "token_gap C (g(c := g c + a_amount (st_supply st') - a_amount (st_supply st)))
           (s\<lparr>ts_stats := tput c st' (ts_stats s)\<rparr>)"
  using assms
  by (fastforce simp: token_gap_def table_simps account_ok_def split: if_splits)

lemma balance_of_stats [simp]: "balance_of (s\<lparr>ts_stats := t\<rparr>) = balance_of s"
  by (simp add: balance_of_def fun_eq_iff)

lemma create_wf:
  assumes "cdt_laws C" "token_wf C s" "create C x i m s = Inr s'"
  shows "token_wf C s'" and "balance_of s' = balance_of s"
proof -
  let ?c = "asset_code m"
  from assms have m: "amount_ok (a_amount m)" "symbol_is_valid C (a_symbol m)" "0 < a_amount m"
    and new: "tfind (ts_stats s) ?c = None"
    and s': "s' = s\<lparr>ts_stats := tput ?c \<lparr>st_supply = mk_asset 0 (a_symbol m), st_max_supply = m,
                     st_issuer = i\<rparr> (ts_stats s)\<rparr>"
    by (auto simp: create_def Let_def cdt_inv)
  have none: "pkey k \<noteq> ?c" if "tfind (ts_accounts s) k = Some a" for k a
    using assms(2) that new by (fastforce simp: token_wf_def account_ok_def)
  have "circulating s ?c = tsum (\<lambda>_ _. 0) (ts_accounts s)"
    using assms(2) none by (intro tsum_cong) (auto simp: token_wf_def holding_def)
  then have "circulating s ?c = 0" by simp
  moreover have "stat_ok C ?c \<lparr>st_supply = mk_asset 0 (a_symbol m), st_max_supply = m, st_issuer = i\<rparr>"
    using m by (simp add: stat_ok_def amount_ok_def)
  ultimately show "token_wf C s'"
    using assms(2) new none unfolding s' by (auto simp: token_wf_def table_simps account_ok_def)
  show "balance_of s' = balance_of s" by (simp add: s')
qed

lemma gap_zero [simp]: "(\<lambda>_. 0::int)(c := 0) = (\<lambda>_. 0)"
  by auto

text \<open>When an issue is accepted, and that its checks are all that is needed.\<close>

definition issue_guard :: "ctx \<Rightarrow> name \<Rightarrow> asset \<Rightarrow> string \<Rightarrow> token_state \<Rightarrow> currency_stats \<Rightarrow> bool" where
  "issue_guard x to q memo s st \<longleftrightarrow>
     tfind (ts_stats s) (asset_code q) = Some st \<and> to = st_issuer st \<and> has_auth x to
   \<and> a_symbol q = a_symbol (st_supply st) \<and> 0 < a_amount q
   \<and> a_amount (st_supply st) + a_amount q \<le> a_amount (st_max_supply st) \<and> length memo \<le> 256"

lemma stat_ok_headroom:
  "stat_ok C c st \<Longrightarrow> i64 (a_amount (st_max_supply st) - a_amount (st_supply st))
     = a_amount (st_max_supply st) - a_amount (st_supply st)"
  by (intro i64_id) (auto simp: stat_ok_def max_amount_def)

lemma token_wf_stat: "token_wf C s \<Longrightarrow> tfind (ts_stats s) c = Some st \<Longrightarrow> stat_ok C c st"
  by (auto simp: token_wf_def)

lemma issue_guarded:
  assumes "cdt_laws C" "token_wf C s" "issue C x to q memo s = Inr s'"
  shows "\<exists>st. issue_guard x to q memo s st"
proof -
  obtain st where st: "tfind (ts_stats s) (asset_code q) = Some st"
    using assms(3) by (auto simp: issue_def Let_def split: option.splits)
  then show ?thesis
    using assms stat_ok_headroom [OF token_wf_stat [OF assms(2) st]]
    by (auto simp: issue_def Let_def issue_guard_def)
qed

lemma issue_succeeds:
  assumes "cdt_laws C" "token_wf C s" "issue_guard x to q memo s st"
  obtains s' where "issue C x to q memo s = Inr s'" "token_wf C s'"
    "balance_of s' = (balance_of s)(to := (balance_of s to)
        (asset_code q := balance_of s to (asset_code q) + a_amount q))"
proof -
  have g: "tfind (ts_stats s) (asset_code q) = Some st" "to = st_issuer st" "has_auth x to"
    "a_symbol q = a_symbol (st_supply st)" "0 < a_amount q"
    "a_amount (st_supply st) + a_amount q \<le> a_amount (st_max_supply st)" "length memo \<le> 256"
    using assms(3) unfolding issue_guard_def by blast+
  have ok: "stat_ok C (asset_code q) st" using assms(2) g by (auto simp: token_wf_def)
  then have b: "0 \<le> a_amount (st_supply st)" "a_amount (st_max_supply st) \<le> max_amount"
    "symbol_is_valid C (a_symbol q)" using g by (auto simp: stat_ok_def)
  have am: "amount_ok (a_amount q)" "amount_ok (a_amount (st_supply st) + a_amount q)"
    using b g max_amount_pos by (auto simp: amount_ok_def)
  let ?st = "st\<lparr>st_supply := mk_asset (a_amount (st_supply st) + a_amount q) (a_symbol q)\<rparr>"
  let ?s = "s\<lparr>ts_stats := tput (asset_code q) ?st (ts_stats s)\<rparr>"
  have e: "issue C x to q memo s = add_balance C to q to ?s"
    using assms(1) g b am stat_ok_headroom [OF ok] by (simp add: issue_def Let_def cdt_inv cdt_ok)
  have "stat_ok C (asset_code q) ?st" using ok g b by (auto simp: stat_ok_def)
  then have gap: "token_gap C ((\<lambda>_. 0)(asset_code q := a_amount q)) ?s"
    using put_stat_gap [of C "\<lambda>_. 0" s "asset_code q" st ?st] assms(2) g by (simp add: token_wf_gap)
  show thesis
    using add_balance_gap [OF assms(1) gap, of q ?st to to] g e that
    by (auto simp: tfind_tput token_wf_gap)
qed

lemma issue_result:
  assumes "cdt_laws C" "token_wf C s" "issue C x to q memo s = Inr s'"
  shows "token_wf C s'" and "0 < a_amount q"
    and "balance_of s' = (balance_of s)(to := (balance_of s to)
        (asset_code q := balance_of s to (asset_code q) + a_amount q))"
proof -
  obtain st where g: "issue_guard x to q memo s st" using issue_guarded [OF assms] by blast
  then show "0 < a_amount q" by (simp add: issue_guard_def)
  show "token_wf C s'" "balance_of s' = (balance_of s)(to := (balance_of s to)
        (asset_code q := balance_of s to (asset_code q) + a_amount q))"
    using issue_succeeds [OF assms(1,2) g] assms(3) by (metis sum.inject(2))+
qed

text \<open>Retiring tokens takes them from the issuer and from the supply.\<close>

lemma retire_wf:
  assumes "cdt_laws C" "token_wf C s" "retire C x q memo s = Inr s'"
  shows "\<exists>st. tfind (ts_stats s) (asset_code q) = Some st \<and> has_auth x (st_issuer st)
    \<and> 0 < a_amount q \<and> token_wf C s'
    \<and> balance_of s' = (balance_of s)(st_issuer st := (balance_of s (st_issuer st))
        (asset_code q := balance_of s (st_issuer st) (asset_code q) - a_amount q))"
proof -
  obtain st where st: "tfind (ts_stats s) (asset_code q) = Some st"
    using assms(3) by (auto simp: retire_def Let_def split: option.splits)
  let ?st = "st\<lparr>st_supply := mk_asset (a_amount (st_supply st) - a_amount q) (a_symbol (st_supply st))\<rparr>"
  let ?s = "s\<lparr>ts_stats := tput (asset_code q) ?st (ts_stats s)\<rparr>"
  have c: "has_auth x (st_issuer st)" "0 < a_amount q" "a_symbol q = a_symbol (st_supply st)"
    using assms(3) st by (simp_all add: retire_def Let_def)
  obtain sp where "asset_sub C (st_supply st) q = Inr sp"
    and "sub_balance C (st_issuer st) q
           (s\<lparr>ts_stats := tput (asset_code q) (st\<lparr>st_supply := sp\<rparr>) (ts_stats s)\<rparr>) = Inr s'"
    using assms(3) st by (auto simp: retire_def Let_def)
  then have r: "sub_balance C (st_issuer st) q ?s = Inr s'"
    using cdt_platform.asset_sub_iff [OF cdt_platform.intro, OF assms(1)] by metis
  have bal: "a_amount q \<le> balance_of s (st_issuer st) (asset_code q)"
    using r assms(1) by (auto simp: sub_balance_iff balance_of_def)
  also have "\<dots> \<le> circulating s (asset_code q)"
    using balance_le_circulating assms(2) by (simp add: token_wf_gap)
  finally have "a_amount q \<le> a_amount (st_supply st)"
    using assms(2) st by (auto simp: token_wf_def)
  then have "stat_ok C (asset_code q) ?st"
    using token_wf_stat [OF assms(2) st] c by (auto simp: stat_ok_def)
  then have gap: "token_gap C ((\<lambda>_. 0)(asset_code q := - a_amount q)) ?s"
    using put_stat_gap [of C "\<lambda>_. 0" s "asset_code q" st ?st] assms(2) st by (simp add: token_wf_gap)
  show ?thesis
    using sub_balance_gap [OF assms(1) gap r] st c by (simp add: token_wf_gap)
qed


definition moved :: "name \<Rightarrow> name \<Rightarrow> asset \<Rightarrow> name \<Rightarrow> symbol_code \<Rightarrow> int" where
  "moved from to q n c =
     (if c \<noteq> asset_code q then 0 else if n = from then - a_amount q else if n = to then a_amount q else 0)"

definition transfer_guard :: "ctx \<Rightarrow> name \<Rightarrow> name \<Rightarrow> asset \<Rightarrow> string \<Rightarrow> token_state \<Rightarrow> bool" where
  "transfer_guard x from to q memo s \<longleftrightarrow>
     from \<noteq> to \<and> has_auth x from \<and> is_account x to
   \<and> (\<exists>st. tfind (ts_stats s) (asset_code q) = Some st \<and> a_symbol q = a_symbol (st_supply st))
   \<and> 0 < a_amount q \<and> a_amount q \<le> balance_of s from (asset_code q) \<and> length memo \<le> 256"

lemma transfer_guarded:
  assumes "cdt_laws C" "token_wf C s" "transfer C x from to q memo s = Inr r"
  shows "transfer_guard x from to q memo s"
proof -
  obtain st where st: "tfind (ts_stats s) (asset_code q) = Some st"
    using assms(3) by (auto simp: transfer_def split: option.splits if_splits)
  obtain s1 where s1: "sub_balance C from q s = Inr s1"
    using assms(3) st by (auto simp: transfer_def Let_def split: if_splits)
  have "a_amount q \<le> balance_of s from (asset_code q)"
    using sub_balance_gap(4) [OF assms(1) _ s1] assms(2) by (simp add: token_wf_gap)
  then show ?thesis
    using assms(3) st by (auto simp: transfer_def transfer_guard_def split: if_splits)
qed

lemma transfer_succeeds:
  assumes "cdt_laws C" "token_wf C s" "transfer_guard x from to q memo s"
  obtains s' where "transfer C x from to q memo s = Inr (s', [from, to])" "token_wf C s'"
    "\<And>n c. balance_of s' n c = balance_of s n c + moved from to q n c" "ts_stats s' = ts_stats s"
proof -
  obtain st where g: "from \<noteq> to" "has_auth x from" "is_account x to" "length memo \<le> 256"
      "tfind (ts_stats s) (asset_code q) = Some st" "a_symbol q = a_symbol (st_supply st)"
      "0 < a_amount q" "a_amount q \<le> balance_of s from (asset_code q)"
    using assms(3) unfolding transfer_guard_def by blast
  have gap: "token_gap C (\<lambda>_. 0) s" using assms(2) by (simp add: token_wf_gap)
  have ok: "stat_ok C (asset_code q) st" "a_amount (st_supply st) = circulating s (asset_code q)"
    using token_gap_stat [OF gap g(5)] by simp_all
  have le: "balance_of s from (asset_code q) \<le> max_amount"
    using balance_le_circulating [OF gap, of "from" "asset_code q"] ok by (simp add: stat_ok_def)
  have v: "asset_is_valid C q"
    using g(6-8) le ok(1) assms(1) max_amount_pos by (auto simp: cdt_inv amount_ok_def stat_ok_def)
  obtain a where a: "tfind (ts_accounts s) (Scoped from (asset_code q)) = Some a"
    using g(7,8) by (cases "tfind (ts_accounts s) (Scoped from (asset_code q))") (auto simp: balance_of_def)
  have sy: "a_symbol (acc_balance a) = a_symbol q"
    using token_gap_account [OF gap a] g(5,6) by (metis option.inject)
  have bal: "balance_of s from (asset_code q) = a_amount (acc_balance a)"
    using a by (simp add: balance_of_def)
  have "amount_ok (a_amount (acc_balance a) - a_amount q)"
    using g(7,8) le bal max_amount_pos by (auto simp: amount_ok_def)
  then obtain s1 where s1: "sub_balance C from q s = Inr s1"
    using a sy bal g(8) sub_balance_iff [OF assms(1), of "from" q s] by auto
  note sub = sub_balance_gap [OF assms(1) gap s1]
  obtain s2 where s2: "add_balance C to q (if has_auth x to then to else from) s1 = Inr s2"
      "token_wf C s2" "ts_stats s2 = ts_stats s"
      "balance_of s2 = (balance_of s1)(to := (balance_of s1 to)
           (asset_code q := balance_of s1 to (asset_code q) + a_amount q))"
    using add_balance_gap [OF assms(1) sub(1), of q st to] g sub(3)
    by (auto simp: token_wf_gap)
  have "transfer C x from to q memo s = Inr (s2, [from, to])"
    using g v s1 s2(1) by (simp add: transfer_def Let_def)
  moreover have "balance_of s2 n c = balance_of s n c + moved from to q n c" for n c
    using s2(4) sub(2) g(1) by (simp add: moved_def)
  ultimately show thesis using that s2 by blast
qed

lemma transfer_result:
  assumes "cdt_laws C" "token_wf C s" "transfer C x from to q memo s = Inr (s', rs)"
  shows "token_wf C s'" and "balance_of s' n c = balance_of s n c + moved from to q n c"
    and "ts_stats s' = ts_stats s" and "rs = [from, to]"
  using transfer_succeeds [OF assms(1,2) transfer_guarded [OF assms]] assms(3)
  by (metis prod.inject sum.inject(2))+

lemma open_row_wf:
  assumes "cdt_laws C" "token_wf C s" "open_row C x n y p s = Inr s'"
  shows "token_wf C s'" and "balance_of s' = balance_of s"
proof -
  obtain st where st: "tfind (ts_stats s) (sym_code y) = Some st" "a_symbol (st_supply st) = y"
    using assms(3) by (auto simp: open_row_def split: option.splits if_splits)
  have "s' = s \<or> tfind (ts_accounts s) (Scoped n (sym_code y)) = None \<and> s' = put_balance n (mk_asset 0 y) s"
    using assms(1,3) st by (auto simp: open_row_def put_balance_def cdt_inv split: if_splits)
  then show "token_wf C s'" "balance_of s' = balance_of s"
    using token_gap_put [of C "\<lambda>_. 0" s "mk_asset 0 y" st n] assms(2) st
    by (auto simp: token_wf_gap balance_of_def put_balance_find fun_eq_iff)
qed

lemma close_row_wf:
  assumes "token_wf C s" "close_row x n y s = Inr s'"
  shows "token_wf C s'" and "balance_of s' = balance_of s"
proof -
  obtain a where a: "tfind (ts_accounts s) (Scoped n (sym_code y)) = Some a" "a_amount (acc_balance a) = 0"
    "s' = s\<lparr>ts_accounts := terase (Scoped n (sym_code y)) (ts_accounts s)\<rparr>"
    using assms(2) by (auto simp: close_row_def split: option.splits if_splits)
  have "circulating s' c = circulating s c" for c
    using assms(1) a tsum_terase [of "ts_accounts s" "Scoped n (sym_code y)" a "holding c"]
    by (simp add: token_wf_def holding_def)
  then show "token_wf C s'"
    using assms(1) a(3)
    by (auto simp: token_wf_def table_simps account_ok_def split: if_splits)
  show "balance_of s' = balance_of s"
    using a by (auto simp: balance_of_def fun_eq_iff tfind_terase)
qed

text \<open>Who gains and who loses by an action.\<close>

lemma token_exec_effect:
  assumes "cdt_laws C" "token_wf C s" "token_exec C x a s = Inr s'"
  shows "token_wf C s'" and "balance_of s' n c < balance_of s n c \<Longrightarrow> has_auth x n"
proof -
  have "token_wf C s' \<and> (balance_of s' n c < balance_of s n c \<longrightarrow> has_auth x n)"
  proof (cases a)
    case (Create i m)
    then show ?thesis using create_wf [OF assms(1,2)] assms(3) by fastforce
  next
    case (Issue t q m)
    then have i: "issue C x t q m s = Inr s'" using assms(3) by simp
    show ?thesis
      using issue_result [OF assms(1,2) i] by (auto split: if_splits)
  next
    case (Retire q m)
    then show ?thesis using retire_wf [OF assms(1,2), of x q m s'] assms(3) by (auto split: if_splits)
  next
    case (Transfer f t q m)
    then obtain rs where t: "transfer C x f t q m s = Inr (s', rs)" using assms(3) by auto
    show ?thesis
      using transfer_result [OF assms(1,2) t] transfer_guarded [OF assms(1,2) t]
      by (auto simp: moved_def transfer_guard_def split: if_splits)
  next
    case (Open n y p)
    then show ?thesis using open_row_wf [OF assms(1,2)] assms(3) by fastforce
  next
    case (Close n y)
    then show ?thesis using close_row_wf [OF assms(2)] assms(3) by fastforce
  qed
  then show "token_wf C s'" and "balance_of s' n c < balance_of s n c \<Longrightarrow> has_auth x n" by blast+
qed

lemma token_empty_wf: "token_wf C token_empty"
  by (simp add: token_wf_def token_empty_def)

lemma token_reachable_wf: "cdt_laws C \<Longrightarrow> token_reachable C s \<Longrightarrow> token_wf C s"
  by (rotate_tac, induction rule: token_reachable.induct) (auto intro: token_empty_wf token_exec_effect)


section \<open>A sample token\<close>

definition demo_token :: token_state where
  "demo_token = \<lparr>
     ts_accounts = [(Scoped alice (sym_code demo_symbol), \<lparr>acc_balance = mk_asset 70 demo_symbol\<rparr>),
                    (Scoped bob (sym_code demo_symbol), \<lparr>acc_balance = mk_asset 30 demo_symbol\<rparr>)],
     ts_stats = [(sym_code demo_symbol, \<lparr>st_supply = mk_asset 100 demo_symbol,
                    st_max_supply = mk_asset 1000 demo_symbol, st_issuer = alice\<rparr>)]\<rparr>"

lemma demo_token_wf: "token_wf cdt_ref demo_token"
  by (auto simp: token_wf_def demo_token_def twf_def stat_ok_def account_ok_def holding_def
      less_scoped_def alice_def bob_def max_amount_def split: if_splits)

lemma demo_token_simps:
  "balance_of demo_token alice (sym_code demo_symbol) = 70"
  "balance_of demo_token bob (sym_code demo_symbol) = 30"
  "balance_of demo_token carol (sym_code demo_symbol) = 0"
  "tfind (ts_stats demo_token) (sym_code demo_symbol) = Some \<lparr>st_supply = mk_asset 100 demo_symbol,
     st_max_supply = mk_asset 1000 demo_symbol, st_issuer = alice\<rparr>"
  by (simp_all add: balance_of_def demo_token_def)

section \<open>Properties\<close>

text \<open>A transfer succeeds exactly when its documented checks pass: different parties, the
  sender's authorization, an existing receiver, a known token with the right precision, a positive
  amount the sender holds and a memo of at most 256 bytes. In particular no addition overflows.\<close>

lemma transfer_succeeds_iff:
  assumes "cdt_laws C" and "token_wf C s"
  shows "(\<exists>r. transfer C x from to q memo s = Inr r) \<longleftrightarrow>
     from \<noteq> to \<and> has_auth x from \<and> is_account x to
   \<and> (\<exists>st. tfind (ts_stats s) (asset_code q) = Some st \<and> a_symbol q = a_symbol (st_supply st))
   \<and> 0 < a_amount q \<and> a_amount q \<le> balance_of s from (asset_code q) \<and> length memo \<le> 256"
  unfolding transfer_guard_def [symmetric]
  using transfer_guarded [OF assms] transfer_succeeds [OF assms] by metis

lemma transfer_succeeds_iff_example:
  "(\<exists>r. transfer cdt_ref (demo_ctx token_account [alice]) alice bob (mk_asset 70 demo_symbol) [] demo_token = Inr r)
   \<and> \<not> (\<exists>r. transfer cdt_ref (demo_ctx token_account [alice]) alice bob (mk_asset 71 demo_symbol) [] demo_token = Inr r)"
  unfolding transfer_succeeds_iff [OF ref.laws demo_token_wf] by (simp add: demo_token_simps)

text \<open>A transfer moves exactly the quantity from the sender to the receiver, touches no other
  balance and no supply, keeps the invariant and notifies the sender and then the receiver.\<close>

lemma transfer_effect:
  assumes "cdt_laws C" and "token_wf C s" and "transfer C x from to q memo s = Inr (s', rs)"
  shows "balance_of s' from (asset_code q) = balance_of s from (asset_code q) - a_amount q
   \<and> balance_of s' to (asset_code q) = balance_of s to (asset_code q) + a_amount q
   \<and> (\<forall>n c. n \<noteq> from \<and> n \<noteq> to \<or> c \<noteq> asset_code q \<longrightarrow> balance_of s' n c = balance_of s n c)
   \<and> ts_stats s' = ts_stats s \<and> rs = [from, to] \<and> token_wf C s'"
proof -
  have "from \<noteq> to" using transfer_guarded [OF assms] by (simp add: transfer_guard_def)
  then show ?thesis using transfer_result [OF assms] by (auto simp: moved_def)
qed

lemma transfer_effect_example:
  "\<exists>s'. transfer cdt_ref (demo_ctx token_account [alice]) alice carol (mk_asset 20 demo_symbol) [] demo_token
          = Inr (s', [alice, carol])
      \<and> balance_of s' alice (sym_code demo_symbol) = 50 \<and> balance_of s' carol (sym_code demo_symbol) = 20"
proof -
  have g: "transfer_guard (demo_ctx token_account [alice]) alice carol (mk_asset 20 demo_symbol) [] demo_token"
    by (simp add: transfer_guard_def demo_token_simps)
  obtain s' where t: "transfer cdt_ref (demo_ctx token_account [alice]) alice carol
      (mk_asset 20 demo_symbol) [] demo_token = Inr (s', [alice, carol])"
    using transfer_succeeds [OF ref.laws demo_token_wf g] by blast
  show ?thesis
    using t transfer_effect [OF ref.laws demo_token_wf t] by (simp add: demo_token_simps)
qed

text \<open>C24: whatever actions are executed from the empty tables, in any order and with any
  arguments and authorizations, the supply of every token is the sum of all balances of that token
  and lies between zero and the maximum supply.\<close>

theorem supply_is_sum_of_balances:
  assumes "cdt_laws C" and "token_reachable C s" and "tfind (ts_stats s) code = Some st"
  shows "a_amount (st_supply st) = circulating s code \<and> 0 \<le> a_amount (st_supply st)
   \<and> a_amount (st_supply st) \<le> a_amount (st_max_supply st) \<and> a_amount (st_max_supply st) \<le> max_amount"
  using token_wf_stat [OF token_reachable_wf [OF assms(1,2)] assms(3)]
    token_reachable_wf [OF assms(1,2)] assms(3) by (simp add: token_wf_def stat_ok_def)

lemma demo_create:
  "create cdt_ref (demo_ctx token_account [token_account]) alice (mk_asset 1000 demo_symbol) token_empty
     = Inr \<lparr>ts_accounts = [], ts_stats = [(sym_code demo_symbol, \<lparr>st_supply = mk_asset 0 demo_symbol,
         st_max_supply = mk_asset 1000 demo_symbol, st_issuer = alice\<rparr>)]\<rparr>"
  by (simp add: create_def token_empty_def cdt_ref_def amount_ok_def max_amount_def templace_def)

theorem supply_is_sum_of_balances_witness:
  "circulating \<lparr>ts_accounts = [], ts_stats = [(sym_code demo_symbol, \<lparr>st_supply = mk_asset 0 demo_symbol,
      st_max_supply = mk_asset 1000 demo_symbol, st_issuer = alice\<rparr>)]\<rparr> (sym_code demo_symbol) = 0"
proof -
  let ?s = "\<lparr>ts_accounts = [], ts_stats = [(sym_code demo_symbol, \<lparr>st_supply = mk_asset 0 demo_symbol,
      st_max_supply = mk_asset 1000 demo_symbol, st_issuer = alice\<rparr>)]\<rparr>"
  have "token_reachable cdt_ref ?s"
    by (rule token_step [OF token_start, where a = "Create alice (mk_asset 1000 demo_symbol)"
          and x = "demo_ctx token_account [token_account]"]) (simp add: demo_create)
  from supply_is_sum_of_balances [OF ref.laws this] show ?thesis by simp
qed

text \<open>No action of the token contract lowers the balance of an account that did not
  authorize it.\<close>

lemma no_debit_without_authority:
  assumes "cdt_laws C" and "token_wf C s" and "token_exec C x a s = Inr s'"
    and "balance_of s' n c < balance_of s n c"
  shows "has_auth x n"
  using token_exec_effect(2) [OF assms(1-3)] assms(4) by simp

lemma no_debit_without_authority_example:
  "\<exists>s'. token_exec cdt_ref (demo_ctx token_account [alice]) (Retire (mk_asset 10 demo_symbol) []) demo_token = Inr s'
      \<and> balance_of s' alice (sym_code demo_symbol) < balance_of demo_token alice (sym_code demo_symbol)
      \<and> has_auth (demo_ctx token_account [alice]) alice"
proof -
  let ?s = "demo_token\<lparr>ts_stats := [(sym_code demo_symbol, \<lparr>st_supply = mk_asset 90 demo_symbol,
                    st_max_supply = mk_asset 1000 demo_symbol, st_issuer = alice\<rparr>)],
      ts_accounts := [(Scoped alice (sym_code demo_symbol), \<lparr>acc_balance = mk_asset 60 demo_symbol\<rparr>),
                    (Scoped bob (sym_code demo_symbol), \<lparr>acc_balance = mk_asset 30 demo_symbol\<rparr>)]\<rparr>"
  have e: "token_exec cdt_ref (demo_ctx token_account [alice]) (Retire (mk_asset 10 demo_symbol) []) demo_token
      = Inr ?s"
    by (simp add: retire_def sub_balance_def demo_token_def cdt_ref_def amount_ok_def max_amount_def)
  have b: "balance_of ?s alice (sym_code demo_symbol) < balance_of demo_token alice (sym_code demo_symbol)"
    by (simp add: balance_of_def demo_token_def)
  show ?thesis
    using e b no_debit_without_authority [OF ref.laws demo_token_wf e b] by blast
qed

text \<open>Opening a balance row that did not exist and closing it again restores the tables.\<close>

lemma open_close_roundtrip:
  assumes "cdt_laws C" and "token_wf C s"
    and "tfind (ts_accounts s) (Scoped n (sym_code y)) = None"
    and "open_row C x n y p s = Inr s1" and "has_auth x' n"
  shows "close_row x' n y s1 = Inr s"
proof -
  have "s1 = put_balance n (mk_asset 0 y) s"
    using assms(1,3,4)
    by (auto simp: open_row_def put_balance_def cdt_inv split: option.splits if_splits)
  then show ?thesis
    using assms(2,3,5)
    by (simp add: close_row_def put_balance_def tfind_tput terase_tput token_wf_def)
qed

lemma open_close_roundtrip_example:
  "\<exists>s1. open_row cdt_ref (demo_ctx token_account [bob]) carol demo_symbol bob demo_token = Inr s1
     \<and> close_row (demo_ctx token_account [carol]) carol demo_symbol s1 = Inr demo_token"
proof -
  have n: "tfind (ts_accounts demo_token) (Scoped carol (sym_code demo_symbol)) = None"
    by (simp add: demo_token_def)
  have o: "open_row cdt_ref (demo_ctx token_account [bob]) carol demo_symbol bob demo_token
      = Inr (put_balance carol (mk_asset 0 demo_symbol) demo_token)"
    by (simp add: open_row_def n demo_token_simps ref.asset_make_ok put_balance_def)
  show ?thesis
    using o open_close_roundtrip [OF ref.laws demo_token_wf n o, of "demo_ctx token_account [carol]"]
    by simp
qed

end
