(* ===== verification/Token_Spec.thy ===== *)
theory Token_Spec
  imports Token
begin

text \<open>
  What \<open>flon.token\<close> promises, as a ledger: coins with a symbol, a cap and an issuer, and rows with an amount. A
  ledger has no supply, it is what circulates; there are no assets, no checked arithmetic and no table order. The contract implements
  the ledger: every action is accepted exactly when the ledger accepts it and leads to the ledger it says.
\<close>

section \<open>Implementing a specification\<close>

text \<open>
  A detailed machine that may abort implements an abstract one when every action of it has the outcome of the abstract
  step. Then every sequence of actions has.
\<close>

fun ofold :: "('a \<Rightarrow> 'l \<Rightarrow> 'l option) \<Rightarrow> 'a list \<Rightarrow> 'l \<Rightarrow> 'l option" where
  "ofold f [] l = Some l"
| "ofold f (a # as) l = (case f a l of None \<Rightarrow> None | Some l' \<Rightarrow> ofold f as l')"

definition outcome :: "('s \<Rightarrow> 'l) \<Rightarrow> 'e + 's \<Rightarrow> 'l option" where
  "outcome view r = (case r of Inl _ \<Rightarrow> None | Inr s \<Rightarrow> Some (view s))"

lemma outcomeI:
  assumes "\<And>s'. r = Inr s' \<Longrightarrow> m = Some (view s')" "\<And>l. m = Some l \<Longrightarrow> \<exists>s'. r = Inr s'"
  shows "outcome view r = m"
  using assms by (cases r; cases m) (auto simp: outcome_def)

locale implements =
  fixes exec :: "'a \<Rightarrow> 's \<Rightarrow> 'e + 's"
    and step :: "'a \<Rightarrow> 'l \<Rightarrow> 'l option"
    and view :: "'s \<Rightarrow> 'l"
    and inv :: "'s \<Rightarrow> bool"
  assumes inv_exec: "inv s \<Longrightarrow> exec a s = Inr s' \<Longrightarrow> inv s'"
    and same_outcome: "inv s \<Longrightarrow> outcome view (exec a s) = step a (view s)"
begin

lemma run_inv: "inv s \<Longrightarrow> rfold exec as s = Inr s' \<Longrightarrow> inv s'"
  by (rule rfold_invariant [where P = inv]) (auto intro: inv_exec)

lemma same_run: "inv s \<Longrightarrow> outcome view (rfold exec as s) = ofold step as (view s)"
proof (induction as arbitrary: s)
  case (Cons a as)
  show ?case
  proof (cases "exec a s")
    case (Inl e)
    then show ?thesis using same_outcome [OF Cons.prems, of a] by (simp add: outcome_def split: option.splits)
  next
    case (Inr s')
    then have "step a (view s) = Some (view s')" using same_outcome [OF Cons.prems, of a] by (simp add: outcome_def)
    then show ?thesis using Cons.IH [OF inv_exec [OF Cons.prems Inr]] Inr by simp
  qed
qed (simp add: outcome_def)

end

section \<open>The ledger\<close>

record coin =
  co_symbol :: symbol
  co_cap :: int
  co_issuer :: name

record ledger =
  l_coin :: "symbol_code \<rightharpoonup> coin"
  l_row :: "scoped \<rightharpoonup> int"

definition funds :: "ledger \<Rightarrow> name \<Rightarrow> symbol_code \<Rightarrow> int" where
  "funds l n c = (case l_row l (Scoped n c) of None \<Rightarrow> 0 | Some v \<Rightarrow> v)"

definition in_circulation :: "ledger \<Rightarrow> symbol_code \<Rightarrow> int" where
  "in_circulation l c = (\<Sum>k \<in> {k \<in> dom (l_row l). pkey k = c}. the (l_row l k))"

definition credit :: "name \<Rightarrow> symbol_code \<Rightarrow> int \<Rightarrow> ledger \<Rightarrow> ledger" where
  "credit n c v l = l\<lparr>l_row := (l_row l)(Scoped n c \<mapsto> funds l n c + v)\<rparr>"

text \<open>The coin of a quantity with the right precision.\<close>

definition coin_of :: "ledger \<Rightarrow> symbol \<Rightarrow> coin option" where
  "coin_of l y = (case l_coin l (sym_code y) of None \<Rightarrow> None | Some k \<Rightarrow> if co_symbol k = y then Some k else None)"

fun ledger_step :: "cdt \<Rightarrow> ctx \<Rightarrow> token_action \<Rightarrow> ledger \<Rightarrow> ledger option" where
  "ledger_step C x (Create i m) l =
     (if has_auth x (self x) \<and> symbol_is_valid C (a_symbol m) \<and> 0 < a_amount m \<and> a_amount m \<le> max_amount
         \<and> l_coin l (asset_code m) = None
      then Some (l\<lparr>l_coin := (l_coin l)(asset_code m \<mapsto> \<lparr>co_symbol = a_symbol m, co_cap = a_amount m, co_issuer = i\<rparr>)\<rparr>)
      else None)"
| "ledger_step C x (Issue t q memo) l =
     (case coin_of l (a_symbol q) of None \<Rightarrow> None | Some k \<Rightarrow>
        if t = co_issuer k \<and> has_auth x t \<and> 0 < a_amount q \<and> in_circulation l (asset_code q) + a_amount q \<le> co_cap k
           \<and> length memo \<le> 256
        then Some (credit t (asset_code q) (a_amount q) l) else None)"
| "ledger_step C x (Retire q memo) l =
     (case coin_of l (a_symbol q) of None \<Rightarrow> None | Some k \<Rightarrow>
        if has_auth x (co_issuer k) \<and> 0 < a_amount q \<and> a_amount q \<le> funds l (co_issuer k) (asset_code q) \<and> length memo \<le> 256
        then Some (credit (co_issuer k) (asset_code q) (- a_amount q) l) else None)"
| "ledger_step C x (Transfer f t q memo) l =
     (if f \<noteq> t \<and> has_auth x f \<and> is_account x t \<and> coin_of l (a_symbol q) \<noteq> None
         \<and> 0 < a_amount q \<and> a_amount q \<le> funds l f (asset_code q) \<and> length memo \<le> 256
      then Some (credit t (asset_code q) (a_amount q) (credit f (asset_code q) (- a_amount q) l)) else None)"
| "ledger_step C x (Open n y p) l =
     (if has_auth x p \<and> is_account x n \<and> coin_of l y \<noteq> None then Some (credit n (sym_code y) 0 l) else None)"
| "ledger_step C x (Close n y) l =
     (if has_auth x n \<and> l_row l (Scoped n (sym_code y)) = Some 0
      then Some (l\<lparr>l_row := (l_row l)(Scoped n (sym_code y) := None)\<rparr>) else None)"

section \<open>The tables as a ledger\<close>

definition ledger_of :: "token_state \<Rightarrow> ledger" where
  "ledger_of s =
     \<lparr>l_coin = (\<lambda>c. map_option (\<lambda>st. \<lparr>co_symbol = a_symbol (st_supply st), co_cap = a_amount (st_max_supply st), co_issuer = st_issuer st\<rparr>)
        (tfind (ts_stats s) c)),
      l_row = (\<lambda>k. map_option (\<lambda>a. a_amount (acc_balance a)) (tfind (ts_accounts s) k))\<rparr>"

lemma ledger_of_sel:
  "l_coin (ledger_of s) c = map_option (\<lambda>st. \<lparr>co_symbol = a_symbol (st_supply st), co_cap = a_amount (st_max_supply st), co_issuer = st_issuer st\<rparr>)
     (tfind (ts_stats s) c)"
  "l_row (ledger_of s) k = map_option (\<lambda>a. a_amount (acc_balance a)) (tfind (ts_accounts s) k)"
  by (simp_all add: ledger_of_def)

lemma funds_of [simp]: "funds (ledger_of s) n c = balance_of s n c"
  by (simp add: funds_def balance_of_def ledger_of_sel split: option.split)

lemma circulation_of:
  assumes "token_wf C s"
  shows "in_circulation (ledger_of s) c = circulating s c"
proof -
  have d: "dom (l_row (ledger_of s)) = tkeys (ts_accounts s)"
    by (auto simp: ledger_of_sel tbl.keys_dom dom_def)
  have "in_circulation (ledger_of s) c = (\<Sum>k \<in> tkeys (ts_accounts s). if pkey k = c then the (l_row (ledger_of s) k) else 0)"
    unfolding in_circulation_def d by (rule sum.inter_filter) (rule tbl.finite_keys)
  also have "\<dots> = tbl.total (holding c) (ts_accounts s)"
    unfolding tbl.total_def
    by (rule sum.cong) (auto simp: ledger_of_sel holding_def tbl.keys_dom)
  finally show ?thesis using assms by (simp add: tsum_total token_wf_def)
qed

lemma ledger_put: "ledger_of (put_balance n b s) = (ledger_of s)\<lparr>l_row := (l_row (ledger_of s))(Scoped n (asset_code b) \<mapsto> a_amount b)\<rparr>"
  by (auto simp: ledger_of_def put_balance_find fun_eq_iff)

lemma ledger_supply:
  assumes "tfind (ts_stats s) c = Some st" "a_symbol sp = a_symbol (st_supply st)"
  shows "ledger_of (s\<lparr>ts_stats := tput c (st\<lparr>st_supply := sp\<rparr>) (ts_stats s)\<rparr>) = ledger_of s"
  using assms by (auto simp: ledger_of_def fun_eq_iff tfind_tput)

lemma ledger_sub:
  assumes "cdt_laws C" "sub_balance C n v s = Inr s'"
  shows "ledger_of s' = credit n (asset_code v) (- a_amount v) (ledger_of s)"
  using assms by (auto simp: sub_balance_iff ledger_put credit_def balance_of_def)

lemma ledger_add:
  assumes "cdt_laws C" "token_gap C g s" "tfind (ts_stats s) (asset_code v) = Some st" "a_symbol v = a_symbol (st_supply st)"
    "add_balance C n v p s = Inr s'"
  shows "ledger_of s' = credit n (asset_code v) (a_amount v) (ledger_of s)"
proof (cases "tfind (ts_accounts s) (Scoped n (asset_code v))")
  case None
  then have "s' = put_balance n v s" using assms(5) by (simp add: add_balance_def put_balance_def)
  then show ?thesis using None by (simp add: ledger_put credit_def balance_of_def)
next
  case (Some a)
  then have "a_symbol (acc_balance a) = a_symbol v" using token_gap_account [OF assms(2) Some] assms(3,4) by (metis option.inject)
  then have "s' = put_balance n (mk_asset (a_amount (acc_balance a) + a_amount v) (a_symbol v)) s"
    using assms(1,5) Some by (auto simp: add_balance_def put_balance_def cdt_inv)
  then show ?thesis using Some by (simp add: ledger_put credit_def balance_of_def)
qed

lemma coin_of_ledger:
  "coin_of (ledger_of s) y = Some k \<longleftrightarrow> (\<exists>st. tfind (ts_stats s) (sym_code y) = Some st \<and> a_symbol (st_supply st) = y
     \<and> k = \<lparr>co_symbol = y, co_cap = a_amount (st_max_supply st), co_issuer = st_issuer st\<rparr>)"
  by (auto simp: coin_of_def ledger_of_sel split: option.splits)

section \<open>Every action implements its step\<close>

lemma create_refines:
  assumes "cdt_laws C"
  shows "outcome ledger_of (create C x i m s) = ledger_step C x (Create i m) (ledger_of s)"
proof (rule outcomeI)
  show "ledger_step C x (Create i m) (ledger_of s) = Some (ledger_of s')" if "create C x i m s = Inr s'" for s'
    using assms that by (auto simp: create_def Let_def cdt_inv amount_ok_def ledger_of_def fun_eq_iff tfind_tput)
  show "\<exists>s'. create C x i m s = Inr s'" if "ledger_step C x (Create i m) (ledger_of s) = Some l" for l
    using assms that max_amount_pos
    by (auto simp: create_def Let_def cdt_inv amount_ok_def ledger_of_def templace_def split: if_splits)
qed

lemma issue_refines:
  assumes "cdt_laws C" "token_wf C s"
  shows "outcome ledger_of (issue C x t q memo s) = ledger_step C x (Issue t q memo) (ledger_of s)"
proof (rule outcomeI)
  have sup: "a_amount (st_supply st) = in_circulation (ledger_of s) (asset_code q)" if "tfind (ts_stats s) (asset_code q) = Some st" for st
    using that assms(2) circulation_of [OF assms(2)] by (simp add: token_wf_def)
  show "ledger_step C x (Issue t q memo) (ledger_of s) = Some (ledger_of s')" if r: "issue C x t q memo s = Inr s'" for s'
  proof -
    obtain st where g: "issue_guard x t q memo s st" using issue_guarded [OF assms r] by blast
    then have st: "tfind (ts_stats s) (asset_code q) = Some st" "a_symbol q = a_symbol (st_supply st)" unfolding issue_guard_def by blast+
    obtain sp where sp: "asset_add C (st_supply st) q = Inr sp" "add_balance C (st_issuer st) q (st_issuer st)
        (s\<lparr>ts_stats := tput (asset_code q) (st\<lparr>st_supply := sp\<rparr>) (ts_stats s)\<rparr>) = Inr s'"
      using r st by (auto simp: issue_def Let_def)
    let ?st = "st\<lparr>st_supply := mk_asset (a_amount (st_supply st) + a_amount q) (a_symbol q)\<rparr>"
    let ?s = "s\<lparr>ts_stats := tput (asset_code q) ?st (ts_stats s)\<rparr>"
    have a: "add_balance C t q t ?s = Inr s'" using sp g assms(1) st by (auto simp: cdt_inv issue_guard_def)
    have "stat_ok C (asset_code q) ?st" using token_wf_stat [OF assms(2) st(1)] g by (auto simp: stat_ok_def issue_guard_def)
    then have gap: "token_gap C ((\<lambda>_. 0)(asset_code q := a_amount q)) ?s"
      using put_stat_gap [of C "\<lambda>_. 0" s "asset_code q" st ?st] assms(2) st by (simp add: token_wf_gap)
    have "ledger_of s' = credit t (asset_code q) (a_amount q) (ledger_of s)"
      using ledger_add [OF assms(1) gap _ _ a, of ?st] ledger_supply [OF st(1), of "st_supply ?st"] st by (simp add: tfind_tput)
    moreover have "coin_of (ledger_of s) (a_symbol q) = Some \<lparr>co_symbol = a_symbol q, co_cap = a_amount (st_max_supply st), co_issuer = st_issuer st\<rparr>"
      using st by (simp add: coin_of_ledger)
    ultimately show ?thesis using g sup [OF st(1)] by (auto simp: issue_guard_def)
  qed
  show "\<exists>s'. issue C x t q memo s = Inr s'" if "ledger_step C x (Issue t q memo) (ledger_of s) = Some l" for l
  proof -
    from that obtain st where "issue_guard x t q memo s st"
      using sup by (auto simp: issue_guard_def coin_of_ledger split: option.splits if_splits)
    then show ?thesis using issue_succeeds [OF assms] by metis
  qed
qed

lemma retire_refines:
  assumes "cdt_laws C" "token_wf C s"
  shows "outcome ledger_of (retire C x q memo s) = ledger_step C x (Retire q memo) (ledger_of s)"
proof (rule outcomeI)
  show "ledger_step C x (Retire q memo) (ledger_of s) = Some (ledger_of s')" if r: "retire C x q memo s = Inr s'" for s'
  proof -
    obtain st where st: "tfind (ts_stats s) (asset_code q) = Some st" using r by (auto simp: retire_def Let_def split: option.splits)
    obtain sp where sp: "asset_sub C (st_supply st) q = Inr sp" "sub_balance C (st_issuer st) q
        (s\<lparr>ts_stats := tput (asset_code q) (st\<lparr>st_supply := sp\<rparr>) (ts_stats s)\<rparr>) = Inr s'"
      using r st by (auto simp: retire_def Let_def)
    have g: "has_auth x (st_issuer st)" "0 < a_amount q" "a_symbol q = a_symbol (st_supply st)" "length memo \<le> 256"
      using r st by (auto simp: retire_def Let_def)
    have "a_symbol sp = a_symbol (st_supply st)" using sp(1) assms(1) by (auto simp: cdt_inv)
    then have "ledger_of s' = credit (st_issuer st) (asset_code q) (- a_amount q) (ledger_of s)"
      using ledger_sub [OF assms(1) sp(2)] ledger_supply [OF st] by simp
    moreover have "a_amount q \<le> balance_of s (st_issuer st) (asset_code q)"
      using sp(2) assms(1) by (auto simp: sub_balance_iff balance_of_def)
    moreover have "coin_of (ledger_of s) (a_symbol q) = Some \<lparr>co_symbol = a_symbol q, co_cap = a_amount (st_max_supply st), co_issuer = st_issuer st\<rparr>"
      using st g by (simp add: coin_of_ledger)
    ultimately show ?thesis using g by simp
  qed
  show "\<exists>s'. retire C x q memo s = Inr s'" if "ledger_step C x (Retire q memo) (ledger_of s) = Some l" for l
  proof -
    from that obtain st where g: "tfind (ts_stats s) (asset_code q) = Some st" "a_symbol (st_supply st) = a_symbol q"
      "has_auth x (st_issuer st)" "0 < a_amount q" "a_amount q \<le> balance_of s (st_issuer st) (asset_code q)" "length memo \<le> 256"
      by (auto simp: coin_of_ledger split: option.splits if_splits)
    have gap: "token_gap C (\<lambda>_. 0) s" using assms(2) by (simp add: token_wf_gap)
    have ok: "stat_ok C (asset_code q) st" "a_amount (st_supply st) = circulating s (asset_code q)"
      using token_gap_stat [OF gap g(1)] by simp_all
    have le: "balance_of s (st_issuer st) (asset_code q) \<le> a_amount (st_supply st)" "a_amount (st_supply st) \<le> max_amount"
      using balance_le_circulating [OF gap] ok by (auto simp: stat_ok_def)
    have am: "amount_ok (a_amount q)" "amount_ok (a_amount (st_supply st) - a_amount q)"
      "amount_ok (balance_of s (st_issuer st) (asset_code q) - a_amount q)"
      using g(4,5) le max_amount_pos by (auto simp: amount_ok_def)
    obtain a where a: "tfind (ts_accounts s) (Scoped (st_issuer st) (asset_code q)) = Some a"
      using g(4,5) by (cases "tfind (ts_accounts s) (Scoped (st_issuer st) (asset_code q))") (auto simp: balance_of_def)
    have sy: "a_symbol (acc_balance a) = a_symbol q" using token_gap_account [OF gap a] g(1,2) by (metis option.inject)
    have v: "asset_is_valid C q" "symbol_is_valid C (a_symbol q)" using assms(1) am(1) ok(1) g(2) by (auto simp: cdt_inv stat_ok_def)
    have "asset_sub C (st_supply st) q = Inr (mk_asset (a_amount (st_supply st) - a_amount q) (a_symbol (st_supply st)))"
      using assms(1) am(2) g(2) by (simp add: cdt_ok)
    then show ?thesis using g v a sy am(3) assms(1) by (simp add: retire_def Let_def sub_balance_iff balance_of_def)
  qed
qed

lemma transfer_refines:
  assumes "cdt_laws C" "token_wf C s"
  shows "outcome ledger_of (token_exec C x (Transfer f t q memo) s) = ledger_step C x (Transfer f t q memo) (ledger_of s)"
proof (rule outcomeI)
  let ?c = "asset_code q"
  have guard: "transfer_guard x f t q memo s \<longleftrightarrow> f \<noteq> t \<and> has_auth x f \<and> is_account x t \<and> coin_of (ledger_of s) (a_symbol q) \<noteq> None
     \<and> 0 < a_amount q \<and> a_amount q \<le> funds (ledger_of s) f ?c \<and> length memo \<le> 256"
    by (auto simp: transfer_guard_def coin_of_ledger)
  show "ledger_step C x (Transfer f t q memo) (ledger_of s) = Some (ledger_of s')" if r: "token_exec C x (Transfer f t q memo) s = Inr s'" for s'
  proof -
    obtain rs where tr: "transfer C x f t q memo s = Inr (s', rs)" using r by auto
    have g: "transfer_guard x f t q memo s" by (rule transfer_guarded [OF assms tr])
    obtain st where st: "tfind (ts_stats s) ?c = Some st" "a_symbol q = a_symbol (st_supply st)"
      using g unfolding transfer_guard_def by blast
    obtain s1 where s1: "sub_balance C f q s = Inr s1" "add_balance C t q (if has_auth x t then t else f) s1 = Inr s'"
      using tr st(1) by (auto simp: transfer_def Let_def split: if_splits)
    have "token_gap C (\<lambda>_. 0) s" using assms(2) by (simp add: token_wf_gap)
    note sub = sub_balance_gap [OF assms(1) this s1(1)]
    have "ledger_of s' = credit t ?c (a_amount q) (credit f ?c (- a_amount q) (ledger_of s))"
      using ledger_add [OF assms(1) sub(1) _ st(2) s1(2)] ledger_sub [OF assms(1) s1(1)] sub(3) st(1) by simp
    then show ?thesis using g unfolding guard by simp
  qed
  show "\<exists>s'. token_exec C x (Transfer f t q memo) s = Inr s'" if "ledger_step C x (Transfer f t q memo) (ledger_of s) = Some l" for l
  proof -
    have "transfer_guard x f t q memo s" using that unfolding guard by (simp split: if_splits)
    then show ?thesis using transfer_succeeds [OF assms] by fastforce
  qed
qed

lemma credit_nothing: "l_row l (Scoped n c) = Some v \<Longrightarrow> credit n c 0 l = l"
  by (simp add: credit_def funds_def map_upd_triv)

lemma open_refines:
  assumes "cdt_laws C" "token_wf C s"
  shows "outcome ledger_of (open_row C x n y p s) = ledger_step C x (Open n y p) (ledger_of s)"
proof (rule outcomeI)
  show "ledger_step C x (Open n y p) (ledger_of s) = Some (ledger_of s')" if r: "open_row C x n y p s = Inr s'" for s'
  proof -
    obtain st where st: "tfind (ts_stats s) (sym_code y) = Some st" "a_symbol (st_supply st) = y"
      using r by (auto simp: open_row_def split: option.splits if_splits)
    then have "coin_of (ledger_of s) y \<noteq> None" by (auto simp: coin_of_ledger)
    moreover have "has_auth x p" "is_account x n" using r by (auto simp: open_row_def split: if_splits)
    moreover have "ledger_of s' = credit n (sym_code y) 0 (ledger_of s)"
    proof (cases "tfind (ts_accounts s) (Scoped n (sym_code y))")
      case None
      then have "s' = put_balance n (mk_asset 0 y) s" using r st assms(1) by (auto simp: open_row_def put_balance_def cdt_inv split: if_splits)
      then show ?thesis using None by (simp add: ledger_put credit_def balance_of_def)
    next
      case (Some a)
      then have "s' = s" using r st by (auto simp: open_row_def split: if_splits)
      then show ?thesis using Some credit_nothing [of "ledger_of s" n "sym_code y"] by (simp add: ledger_of_sel)
    qed
    ultimately show ?thesis by simp
  qed
  show "\<exists>s'. open_row C x n y p s = Inr s'" if "ledger_step C x (Open n y p) (ledger_of s) = Some l" for l
  proof -
    have g: "has_auth x p" "is_account x n" and "coin_of (ledger_of s) y \<noteq> None" using that by (simp_all split: if_splits)
    then obtain st where st: "tfind (ts_stats s) (sym_code y) = Some st" "a_symbol (st_supply st) = y" by (auto simp: coin_of_ledger)
    then have "symbol_is_valid C y" using token_wf_stat [OF assms(2) st(1)] by (simp add: stat_ok_def)
    then show ?thesis using g st assms(1) max_amount_pos by (simp add: open_row_def cdt_ok amount_ok_def)
  qed
qed

lemma close_refines: "outcome ledger_of (close_row x n y s) = ledger_step C x (Close n y) (ledger_of s)"
  by (auto simp: outcome_def close_row_def ledger_of_def tfind_terase fun_eq_iff split: option.split)

lemma token_exec_refines:
  assumes "cdt_laws C" "token_wf C s"
  shows "outcome ledger_of (token_exec C x a s) = ledger_step C x a (ledger_of s)"
  using create_refines [OF assms(1)] issue_refines [OF assms] retire_refines [OF assms] transfer_refines [OF assms]
    open_refines [OF assms] close_refines
  by (cases a) (simp_all del: ledger_step.simps token_exec.simps(4))

text \<open>On a platform that keeps its promises the contract implements the ledger.\<close>

sublocale cdt_platform \<subseteq> contract: implements "\<lambda>(x, a). token_exec C x a" "\<lambda>(x, a). ledger_step C x a" ledger_of "token_wf C"
proof
  show "token_wf C s'" if "token_wf C s" "(case b of (x, a) \<Rightarrow> token_exec C x a) s = Inr s'" for s b s'
    using that token_exec_effect(1) [OF laws] by (cases b) auto
  show "outcome ledger_of ((case b of (x, a) \<Rightarrow> token_exec C x a) s) = (case b of (x, a) \<Rightarrow> ledger_step C x a) (ledger_of s)"
    if "token_wf C s" for s b
    using token_exec_refines [OF laws that] by (cases b) (simp del: ledger_step.simps)
qed

context cdt_platform
begin

lemma token_run:
  "token_wf C s \<Longrightarrow> outcome ledger_of (rfold (\<lambda>(x, a). token_exec C x a) acts s) = ofold (\<lambda>(x, a). ledger_step C x a) acts (ledger_of s)"
  by (rule contract.same_run)

end

section \<open>Properties\<close>

text \<open>C8: the token contract implements the ledger. From every reachable state, whatever actions are executed with whatever arguments and
  authorizations, the contract accepts exactly the sequences of actions that the ledger accepts, and its tables then stand for
  the ledger that the steps of the ledger yield: no overflow, no precision and no stored supply gets in the way.\<close>
theorem token_implements_ledger:
  assumes "cdt_laws C" "token_reachable C s"
  shows "(case rfold (\<lambda>(x, a). token_exec C x a) acts s of Inl _ \<Rightarrow> None | Inr s' \<Rightarrow> Some (ledger_of s'))
     = ofold (\<lambda>(x, a). ledger_step C x a) acts (ledger_of s)"
  using cdt_platform.token_run [OF cdt_platform.intro, OF assms(1) token_reachable_wf [OF assms]]
  by (simp add: outcome_def)

theorem token_implements_ledger_witness:
  "\<exists>s. rfold (\<lambda>(x, a). token_exec cdt_ref x a)
       [(demo_ctx token_account [token_account], Create alice (mk_asset 1000 demo_symbol)),
        (demo_ctx token_account [alice], Issue alice (mk_asset 40 demo_symbol) []),
        (demo_ctx token_account [alice], Transfer alice bob (mk_asset 15 demo_symbol) [])] token_empty = Inr s
     \<and> ofold (\<lambda>(x, a). ledger_step cdt_ref x a)
       [(demo_ctx token_account [token_account], Create alice (mk_asset 1000 demo_symbol)),
        (demo_ctx token_account [alice], Issue alice (mk_asset 40 demo_symbol) []),
        (demo_ctx token_account [alice], Transfer alice bob (mk_asset 15 demo_symbol) [])] (ledger_of token_empty) = Some (ledger_of s)
     \<and> funds (ledger_of s) alice (sym_code demo_symbol) = 25 \<and> funds (ledger_of s) bob (sym_code demo_symbol) = 15"
proof -
  let ?acts = "[(demo_ctx token_account [token_account], Create alice (mk_asset 1000 demo_symbol)),
        (demo_ctx token_account [alice], Issue alice (mk_asset 40 demo_symbol) []),
        (demo_ctx token_account [alice], Transfer alice bob (mk_asset 15 demo_symbol) [])]"
  let ?r = "rfold (\<lambda>(x, a). token_exec cdt_ref x a) ?acts token_empty"
  have "(case ?r of Inl _ \<Rightarrow> False | Inr s \<Rightarrow> balance_of s alice (sym_code demo_symbol) = 25 \<and> balance_of s bob (sym_code demo_symbol) = 15)"
    by code_simp
  then obtain s where s: "?r = Inr s" "balance_of s alice (sym_code demo_symbol) = 25" "balance_of s bob (sym_code demo_symbol) = 15"
    by (cases ?r) auto
  have "ofold (\<lambda>(x, a). ledger_step cdt_ref x a) ?acts (ledger_of token_empty) = Some (ledger_of s)"
    using token_implements_ledger [OF ref.laws token_start, of ?acts] unfolding s(1) by simp
  then show ?thesis using s funds_of by metis
qed

end
