(* ===== verification/Reward.thy ===== *)
theory Reward
  imports Platform
begin

text \<open>
  The contract \<open>flon.reward\<close>, the reward dispatcher of the system contract: producers pay in
  rewards, voters collect their share. Every producer row accumulates the rewards per vote, scaled
  by \<open>10^18\<close>; every voter remembers, per voted producer, the value it was last paid at.
  Amounts are 64 bit and the accumulator is 128 bit, with the wrap-around written out.
\<close>

section \<open>State\<close>

definition HIGH_PRECISION :: int where
  "HIGH_PRECISION = 1000000000000000000"

record producer =
  p_owner :: name
  p_is_registered :: bool
  p_total_rewards :: asset
  p_allocating_rewards :: asset
  p_allocated_rewards :: asset
  p_votes :: int
  p_rewards_per_vote :: int
  p_update_at :: block_timestamp

text \<open>\<open>std::map<name, voted_producer_info>\<close>: the last rewards per vote of every voted producer.\<close>

type_synonym voted_producer_map = "(name, int) table"

record voter =
  v_owner :: name
  v_votes :: int
  v_producers :: voted_producer_map
  v_unclaimed_rewards :: asset
  v_claimed_rewards :: asset
  v_update_at :: block_timestamp

record reward_state =
  rs_global :: "asset option"          \<comment> \<open>the singleton with \<open>total_rewards\<close>\<close>
  rs_voters :: "(name, voter) table"
  rs_producers :: "(name, producer) table"

definition reward_empty :: reward_state where
  "reward_empty = \<lparr>rs_global = None, rs_voters = [], rs_producers = []\<rparr>"

text \<open>The constructor loads the singleton or takes a default-constructed state.\<close>

definition gstate :: "reward_state \<Rightarrow> asset" where
  "gstate s = (case rs_global s of Some g \<Rightarrow> g | None \<Rightarrow> null_asset)"

definition core_symbol :: "reward_state \<Rightarrow> symbol" where
  "core_symbol s = a_symbol (gstate s)"

definition check_init :: "cdt \<Rightarrow> reward_state \<Rightarrow> bool" where
  "check_init C s = symbol_is_valid C (core_symbol s)"

definition not_init :: error where
  "not_init = Check ''reward contract has not been initialized''"

section \<open>Reward arithmetic\<close>

definition calc_rewards_per_vote :: "int \<Rightarrow> asset \<Rightarrow> int \<Rightarrow> int res" where
  "calc_rewards_per_vote old_rewards_per_vote rewards votes =
     (if \<not> (0 \<le> a_amount rewards \<and> 0 \<le> votes)
        then Inl (Check ''rewards.amount >= 0 && votes >= 0'')
      else if 0 < a_amount rewards \<and> 0 < votes then
        (let new_rewards_per_vote =
               i128 (old_rewards_per_vote + cdiv (i128 (a_amount rewards * HIGH_PRECISION)) votes)
         in if \<not> old_rewards_per_vote \<le> new_rewards_per_vote
              then Inl (Check ''calculated rewards_per_vote overflow'')
            else Inr new_rewards_per_vote)
      else Inr old_rewards_per_vote)"

definition calc_voter_rewards :: "cdt \<Rightarrow> symbol \<Rightarrow> int \<Rightarrow> int \<Rightarrow> asset res" where
  "calc_voter_rewards C core votes rewards_per_vote =
     (if \<not> (0 \<le> votes \<and> 0 \<le> rewards_per_vote)
        then Inl (Check ''votes >= 0 && rewards_per_vote >= 0'')
      else if \<not> rewards_per_vote \<le> i128 (votes * rewards_per_vote)
        then Inl (Check ''calculated rewards overflow'')
      else let rewards = cdiv (i128 (votes * rewards_per_vote)) HIGH_PRECISION in
        if \<not> (0 \<le> rewards \<and> rewards \<le> 2 ^ 63 - 1)
          then Inl (Check ''calculated rewards overflow'')
        else asset_make C rewards core)"

section \<open>Rows\<close>

text \<open>A producer row as \<open>db::set\<close> hands it to the setter: fresh with zero assets, or the stored one.\<close>

definition producer_row :: "cdt \<Rightarrow> reward_state \<Rightarrow> name \<Rightarrow> producer res" where
  "producer_row C s n =
     (case tfind (rs_producers s) n of
        Some p \<Rightarrow> Inr p
      | None \<Rightarrow> rbind (asset_make C 0 (core_symbol s)) (\<lambda>z.
          Inr \<lparr>p_owner = n, p_is_registered = False, p_total_rewards = z,
               p_allocating_rewards = z, p_allocated_rewards = z, p_votes = 0,
               p_rewards_per_vote = 0, p_update_at = 0\<rparr>))"

text \<open>The same for a voter row. The member \<open>votes\<close> has no initialiser in the source.\<close>

definition voter_row :: "cdt \<Rightarrow> ctx \<Rightarrow> reward_state \<Rightarrow> name \<Rightarrow> voter res" where
  "voter_row C x s n =
     (case tfind (rs_voters s) n of
        Some v \<Rightarrow> Inr v
      | None \<Rightarrow> rbind (asset_make C 0 (core_symbol s)) (\<lambda>z.
          Inr \<lparr>v_owner = n, v_votes = indeterminate x, v_producers = [],
               v_unclaimed_rewards = z, v_claimed_rewards = z, v_update_at = 0\<rparr>))"

section \<open>Allocation\<close>

text \<open>The part of one iteration that moves rewards from the producer to the voter.\<close>

definition allocate_new_rewards ::
  "cdt \<Rightarrow> symbol \<Rightarrow> int \<Rightarrow> int \<Rightarrow> producer \<Rightarrow> asset \<Rightarrow> (producer \<times> asset) res" where
  "allocate_new_rewards C core votes_old rewards_per_vote_delta p out =
     (if 0 < rewards_per_vote_delta \<and> 0 < votes_old then
        (if \<not> votes_old \<le> p_votes p then Inl (Check ''votes_old <= p.votes'')
         else rbind (calc_voter_rewards C core votes_old rewards_per_vote_delta) (\<lambda>new_rewards.
         rbind (asset_ge C (p_allocating_rewards p) new_rewards) (\<lambda>enough.
         if \<not> enough then Inl (Check ''producer allocating rewards insufficient'')
         else rbind (asset_sub C (p_allocating_rewards p) new_rewards) (\<lambda>allocating.
         rbind (asset_add C (p_allocated_rewards p) new_rewards) (\<lambda>allocated.
         rbind (asset_add C allocating allocated) (\<lambda>both.
         rbind (asset_eq C (p_total_rewards p) both) (\<lambda>balanced.
         if \<not> balanced
           then Inl (Check ''p.total_rewards == p.allocating_rewards + p.allocated_rewards'')
         else rbind (asset_add C out new_rewards) (\<lambda>out'.
           Inr (p\<lparr>p_allocating_rewards := allocating, p_allocated_rewards := allocated\<rparr>, out')))))))))
      else Inr (p, out))"

text \<open>
  One iteration of the loop in \<open>allocate_producer_rewards\<close>: the new state, the rewards
  allocated to the voter so far and the new \<open>last_rewards_per_vote\<close>.
\<close>

definition allocate_one ::
  "cdt \<Rightarrow> ctx \<Rightarrow> int \<Rightarrow> int \<Rightarrow> name \<Rightarrow> int \<Rightarrow> reward_state \<Rightarrow> asset \<Rightarrow> (reward_state \<times> asset \<times> int) res" where
  "allocate_one C x votes_old votes_delta prod_name last_rewards_per_vote s out =
     rbind (producer_row C s prod_name) (\<lambda>p.
      if \<not> last_rewards_per_vote \<le> p_rewards_per_vote p
        then Inl (Check ''last_rewards_per_vote invalid'')
      else rbind (allocate_new_rewards C (core_symbol s) votes_old
                    (i128 (p_rewards_per_vote p - last_rewards_per_vote)) p out) (\<lambda>(p1, out1).
      let votes = i64 (p_votes p1 + votes_delta) in
      if \<not> 0 \<le> votes then Inl (Check ''producer votes can not be negative'')
      else Inr (s\<lparr>rs_producers := tput prod_name
                    (p1\<lparr>p_votes := votes, p_update_at := to_slot C (now x)\<rparr>) (rs_producers s)\<rparr>,
                out1, p_rewards_per_vote p1)))"

fun allocate_producer_rewards ::
  "cdt \<Rightarrow> ctx \<Rightarrow> voted_producer_map \<Rightarrow> int \<Rightarrow> int \<Rightarrow> reward_state \<Rightarrow> asset
     \<Rightarrow> (reward_state \<times> asset \<times> voted_producer_map) res" where
  "allocate_producer_rewards C x [] votes_old votes_delta s out = Inr (s, out, [])"
| "allocate_producer_rewards C x ((n, l) # ps) votes_old votes_delta s out =
     rbind (allocate_one C x votes_old votes_delta n l s out) (\<lambda>(s1, out1, l1).
     rbind (allocate_producer_rewards C x ps votes_old votes_delta s1 out1) (\<lambda>(s2, out2, ps2).
       Inr (s2, out2, (n, l1) # ps2)))"

section \<open>Actions\<close>

definition init :: "cdt \<Rightarrow> ctx \<Rightarrow> symbol \<Rightarrow> reward_state \<Rightarrow> reward_state res" where
  "init C x core s =
     (if \<not> has_auth x system_account then Inl (MissingAuth system_account)
      else if symbol_is_valid C (core_symbol s)
        then Inl (Check ''reward contract has already been initialized'')
      else rbind (asset_make C 0 core) (\<lambda>z. Inr (s\<lparr>rs_global := Some z\<rparr>)))"

definition regproducer :: "cdt \<Rightarrow> ctx \<Rightarrow> name \<Rightarrow> reward_state \<Rightarrow> reward_state res" where
  "regproducer C x pname s =
     (if \<not> check_init C s then Inl not_init
      else if \<not> has_auth x pname then Inl (MissingAuth pname)
      else if \<not> is_account x pname then Inl (Check ''producer account not found'')
      else rbind (producer_row C s pname) (\<lambda>p.
        Inr (s\<lparr>rs_producers := tput pname
               (p\<lparr>p_is_registered := True, p_update_at := to_slot C (now x)\<rparr>) (rs_producers s)\<rparr>)))"

definition change_vote :: "cdt \<Rightarrow> ctx \<Rightarrow> name \<Rightarrow> int \<Rightarrow> bool \<Rightarrow> reward_state \<Rightarrow> reward_state res" where
  "change_vote C x n votes is_adding s =
     (if \<not> has_auth x system_account then Inl (MissingAuth system_account)
      else if \<not> has_auth x n then Inl (MissingAuth n)
      else if \<not> 0 < votes then Inl (Check ''votes must be positive'')
      else rbind (voter_row C x s n) (\<lambda>v.
        if \<not> is_adding \<and> \<not> votes \<le> v_votes v then Inl (Check ''voter's votes insufficent'')
        else let votes_delta = (if is_adding then votes else - votes) in
        rbind (allocate_producer_rewards C x (v_producers v) (v_votes v) votes_delta s
                 (v_unclaimed_rewards v)) (\<lambda>(s1, unclaimed, prods).
        let new_votes = i64 (v_votes v + votes_delta) in
        if \<not> 0 \<le> new_votes then Inl (Check ''voter's votes can not be negative'')
        else Inr (s1\<lparr>rs_voters := tput n
               (v\<lparr>v_producers := prods, v_unclaimed_rewards := unclaimed, v_votes := new_votes,
                 v_update_at := to_slot C (now x)\<rparr>) (rs_voters s1)\<rparr>))))"

definition addvote :: "cdt \<Rightarrow> ctx \<Rightarrow> name \<Rightarrow> int \<Rightarrow> reward_state \<Rightarrow> reward_state res" where
  "addvote C x n votes s =
     (if \<not> check_init C s then Inl not_init else change_vote C x n votes True s)"

definition subvote :: "cdt \<Rightarrow> ctx \<Rightarrow> name \<Rightarrow> int \<Rightarrow> reward_state \<Rightarrow> reward_state res" where
  "subvote C x n votes s =
     (if \<not> check_init C s then Inl not_init else change_vote C x n votes False s)"

text \<open>
  The merge of the old, sorted map with the new, sorted vector: what is kept, what is removed and
  what is added (with a zero \<open>last_rewards_per_vote\<close>).
\<close>

fun merge_producers ::
  "voted_producer_map \<Rightarrow> name list \<Rightarrow> voted_producer_map \<times> voted_producer_map \<times> voted_producer_map" where
  "merge_producers ((o', i) # os) (n # ns) =
     (if o' < n then
        (let (kept, removed, added) = merge_producers os (n # ns) in (kept, (o', i) # removed, added))
      else if n < o' then
        (let (kept, removed, added) = merge_producers ((o', i) # os) ns in (kept, removed, (n, 0) # added))
      else
        (let (kept, removed, added) = merge_producers os ns in ((o', i) # kept, removed, added)))"
| "merge_producers ((o', i) # os) [] =
     (let (kept, removed, added) = merge_producers os [] in (kept, (o', i) # removed, added))"
| "merge_producers [] (n # ns) =
     (let (kept, removed, added) = merge_producers [] ns in (kept, removed, (n, 0) # added))"
| "merge_producers [] [] = ([], [], [])"

text \<open>\<open>std::map::emplace\<close> of every added producer into the kept ones.\<close>

definition emplace_all :: "voted_producer_map \<Rightarrow> voted_producer_map \<Rightarrow> voted_producer_map" where
  "emplace_all added kept =
     fold (\<lambda>(n, i) m. case tfind m n of None \<Rightarrow> tput n i m | Some _ \<Rightarrow> m) added kept"

definition voteproducer :: "cdt \<Rightarrow> ctx \<Rightarrow> name \<Rightarrow> name list \<Rightarrow> reward_state \<Rightarrow> reward_state res" where
  "voteproducer C x n producers s =
     (if \<not> check_init C s then Inl not_init
      else if \<not> has_auth x system_account then Inl (MissingAuth system_account)
      else if \<not> has_auth x n then Inl (MissingAuth n)
      else if \<not> ascending producers
        then Inl (Check ''producer votes must be uniqued and sorted'')
      else rbind (voter_row C x s n) (\<lambda>v.
        let (kept, removed, added) = merge_producers (v_producers v) producers in
        rbind (allocate_producer_rewards C x removed (v_votes v) (i64 (- v_votes v)) s
                 (v_unclaimed_rewards v)) (\<lambda>(s1, out1, _).
        rbind (allocate_producer_rewards C x kept (v_votes v) 0 s1 out1) (\<lambda>(s2, out2, kept').
        rbind (allocate_producer_rewards C x added 0 (v_votes v) s2 out2) (\<lambda>(s3, out3, added').
          Inr (s3\<lparr>rs_voters := tput n
                 (v\<lparr>v_producers := emplace_all added' kept', v_unclaimed_rewards := out3,
                   v_update_at := to_slot C (now x)\<rparr>) (rs_voters s3)\<rparr>))))))"

text \<open>A successful claim sends one transfer of the core token.\<close>

definition claim_rewards ::
  "cdt \<Rightarrow> ctx \<Rightarrow> name \<Rightarrow> reward_state \<Rightarrow> (reward_state \<times> inline_action list) res" where
  "claim_rewards C x n s =
     (case tfind (rs_voters s) n of
        None \<Rightarrow> Inl (Check ''voter info not found'')
      | Some v \<Rightarrow>
          rbind (if 0 < v_votes v
                 then allocate_producer_rewards C x (v_producers v) (v_votes v) 0 s (v_unclaimed_rewards v)
                 else Inr (s, v_unclaimed_rewards v, v_producers v)) (\<lambda>(s1, unclaimed, prods).
          if \<not> 0 < a_amount unclaimed then Inl (Check ''no rewards to claim'')
          else rbind (asset_add C (v_claimed_rewards v) unclaimed) (\<lambda>claimed.
            Inr (s1\<lparr>rs_voters := tput n
                   (v\<lparr>v_producers := prods, v_claimed_rewards := claimed,
                     v_unclaimed_rewards := unclaimed\<lparr>a_amount := 0\<rparr>,
                     v_update_at := to_slot C (now x)\<rparr>) (rs_voters s1)\<rparr>,
                 [Token_transfer [(self x, active_permission)] (self x) n unclaimed ''voted rewards'']))))"

definition claimrewards ::
  "cdt \<Rightarrow> ctx \<Rightarrow> name \<Rightarrow> reward_state \<Rightarrow> (reward_state \<times> inline_action list) res" where
  "claimrewards C x n s =
     (if \<not> check_init C s then Inl not_init
      else if \<not> has_auth x n then Inl (MissingAuth n)
      else claim_rewards C x n s)"

definition claimfor ::
  "cdt \<Rightarrow> ctx \<Rightarrow> name \<Rightarrow> name \<Rightarrow> reward_state \<Rightarrow> (reward_state \<times> inline_action list) res" where
  "claimfor C x claimer n s =
     (if \<not> check_init C s then Inl not_init
      else if \<not> has_auth x claimer then Inl (MissingAuth claimer)
      else claim_rewards C x n s)"

definition ontransfer :: "cdt \<Rightarrow> ctx \<Rightarrow> name \<Rightarrow> name \<Rightarrow> asset \<Rightarrow> string \<Rightarrow> reward_state \<Rightarrow> reward_state res" where
  "ontransfer C x from to quantity memo s =
     (if first_receiver x = token_account \<and> a_symbol quantity = core_symbol s
         \<and> from \<noteq> self x \<and> to = self x then
        rbind (asset_add C (gstate s) quantity) (\<lambda>total.
        case tfind (rs_producers s) from of
          None \<Rightarrow> Inl (Check ''producer(from) not found'')
        | Some p \<Rightarrow>
            if \<not> p_is_registered p then Inl (Check ''producer(from) not registered'')
            else
            rbind (asset_add C (p_total_rewards p) quantity) (\<lambda>total_rewards.
            rbind (asset_add C (p_allocating_rewards p) quantity) (\<lambda>allocating.
            rbind (calc_rewards_per_vote (p_rewards_per_vote p) quantity (p_votes p)) (\<lambda>rpv.
              Inr (s\<lparr>rs_global := Some total,
                     rs_producers := tput from
                       (p\<lparr>p_total_rewards := total_rewards, p_allocating_rewards := allocating,
                         p_rewards_per_vote := rpv, p_update_at := to_slot C (now x)\<rparr>)
                       (rs_producers s)\<rparr>)))))
      else Inr s)"

text \<open>The static query other contracts use.\<close>

definition is_producer_registered :: "reward_state \<Rightarrow> name \<Rightarrow> bool" where
  "is_producer_registered s n =
     (case tfind (rs_producers s) n of Some p \<Rightarrow> p_is_registered p | None \<Rightarrow> False)"

end
