(* ===== verification/Reward_Ledger.thy ===== *)
theory Reward_Ledger
  imports Reward
begin

text \<open>
  The books of \<open>flon.reward\<close>. \<open>ledger_ok\<close> relates the voter and the producer table: the votes
  of a producer are the votes of its voters, what the voters can still claim from a producer is
  covered by what it has not allocated yet, and every unit that was allocated is owed or was paid
  to a voter. \<open>settle_ledger\<close> is the step all actions share: one producer settles with one voter.
\<close>

section \<open>The books\<close>

definition zero_producer :: "symbol \<Rightarrow> name \<Rightarrow> producer" where
  "zero_producer core n = \<lparr>p_owner = n, p_is_registered = False, p_total_rewards = mk_asset 0 core,
     p_allocating_rewards = mk_asset 0 core, p_allocated_rewards = mk_asset 0 core, p_votes = 0,
     p_rewards_per_vote = 0, p_update_at = 0\<rparr>"

definition prow :: "symbol \<Rightarrow> (name, producer) table \<Rightarrow> name \<Rightarrow> producer" where
  "prow core P n = (case tfind P n of Some p \<Rightarrow> p | None \<Rightarrow> zero_producer core n)"

abbreviation allocating :: "producer \<Rightarrow> int" where
  "allocating p \<equiv> a_amount (p_allocating_rewards p)"

abbreviation allocated :: "producer \<Rightarrow> int" where
  "allocated p \<equiv> a_amount (p_allocated_rewards p)"

definition producer_ok :: "symbol \<Rightarrow> name \<Rightarrow> producer \<Rightarrow> bool" where
  "producer_ok core n p \<longleftrightarrow> p_owner p = n
   \<and> a_symbol (p_total_rewards p) = core \<and> a_symbol (p_allocating_rewards p) = core
   \<and> a_symbol (p_allocated_rewards p) = core
   \<and> 0 \<le> allocating p \<and> 0 \<le> allocated p \<and> a_amount (p_total_rewards p) = allocating p + allocated p
   \<and> 0 \<le> p_votes p \<and> 0 \<le> p_rewards_per_vote p
   \<and> p_rewards_per_vote p \<le> (allocating p + allocated p) * HIGH_PRECISION"

definition voter_ok :: "symbol \<Rightarrow> (name, producer) table \<Rightarrow> name \<Rightarrow> voter \<Rightarrow> bool" where
  "voter_ok core P n v \<longleftrightarrow> v_owner v = n
   \<and> a_symbol (v_unclaimed_rewards v) = core \<and> a_symbol (v_claimed_rewards v) = core
   \<and> 0 \<le> a_amount (v_unclaimed_rewards v) \<and> 0 \<le> a_amount (v_claimed_rewards v)
   \<and> 0 \<le> v_votes v \<and> twf (v_producers v)
   \<and> (\<forall>q l. tfind (v_producers v) q = Some l \<longrightarrow> 0 \<le> l \<and> l \<le> p_rewards_per_vote (prow core P q))"

definition vote_share :: "name \<Rightarrow> name \<Rightarrow> voter \<Rightarrow> int" where
  "vote_share q k v = (case tfind (v_producers v) q of None \<Rightarrow> 0 | Some _ \<Rightarrow> v_votes v)"

definition pending :: "name \<Rightarrow> int \<Rightarrow> name \<Rightarrow> voter \<Rightarrow> int" where
  "pending q rpv k v = (case tfind (v_producers v) q of None \<Rightarrow> 0 | Some l \<Rightarrow> v_votes v * (rpv - l))"

definition received :: "name \<Rightarrow> voter \<Rightarrow> int" where
  "received k v = a_amount (v_unclaimed_rewards v) + a_amount (v_claimed_rewards v)"

definition ledger_ok ::
  "symbol \<Rightarrow> int \<Rightarrow> (name, voter) table \<Rightarrow> (name, producer) table \<Rightarrow> (name \<Rightarrow> int) \<Rightarrow> bool" where
  "ledger_ok core g V P D \<longleftrightarrow> twf V \<and> twf P
   \<and> (\<forall>q. producer_ok core q (prow core P q))
   \<and> (\<forall>k v. tfind V k = Some v \<longrightarrow> voter_ok core P k v)
   \<and> (\<forall>q. p_votes (prow core P q) = tsum (vote_share q) V + D q)
   \<and> (\<forall>q. tsum (pending q (p_rewards_per_vote (prow core P q))) V
          \<le> allocating (prow core P q) * HIGH_PRECISION)
   \<and> tsum (\<lambda>_ p. a_amount (p_total_rewards p)) P = g \<and> g \<le> max_amount
   \<and> tsum (\<lambda>_ p. allocated p) P = tsum received V"

definition reward_inv :: "cdt \<Rightarrow> reward_state \<Rightarrow> bool" where
  "reward_inv C s \<longleftrightarrow> symbol_is_valid C (core_symbol s)
   \<and> ledger_ok (core_symbol s) (a_amount (gstate s)) (rs_voters s) (rs_producers s) (\<lambda>_. 0)
   \<and> tsum (\<lambda>_. v_votes) (rs_voters s) \<le> max_amount"

section \<open>Facts of the books\<close>

lemma prow_tput: "prow core (tput q p P) = (prow core P)(q := p)"
  by (auto simp: prow_def tfind_tput)

lemma HP_pos: "0 < HIGH_PRECISION"
  by (simp add: HIGH_PRECISION_def)

lemma rpv_bound: "r \<le> t * HIGH_PRECISION \<Longrightarrow> t \<le> max_amount \<Longrightarrow> r < 2 ^ 127"
  by (simp add: HIGH_PRECISION_def max_amount_def)

lemma tsum_tput_prow:
  assumes "twf P" and "f q (zero_producer core q) = 0"
  shows "tsum f (tput q p P) = tsum f P - f q (prow core P q) + f q p"
  using assms by (auto simp: tsum_tput prow_def split: option.splits)

lemma pending_nonneg: "voter_ok core P k v \<Longrightarrow> 0 \<le> pending q (p_rewards_per_vote (prow core P q)) k v"
  by (auto simp: pending_def voter_ok_def split: option.splits intro!: mult_nonneg_nonneg)

lemma vote_share_nonneg: "voter_ok core P k v \<Longrightarrow> 0 \<le> vote_share q k v"
  by (auto simp: vote_share_def voter_ok_def split: option.splits)

lemma vote_share_le: "voter_ok core P k v \<Longrightarrow> vote_share q k v \<le> v_votes v"
  by (auto simp: vote_share_def voter_ok_def split: option.splits)

lemma ledger_tables: "ledger_ok core g V P D \<Longrightarrow> twf V \<and> twf P"
  by (simp add: ledger_ok_def)

lemma ledger_producer: "ledger_ok core g V P D \<Longrightarrow> producer_ok core q (prow core P q)"
  by (simp add: ledger_ok_def)

lemma ledger_voter: "ledger_ok core g V P D \<Longrightarrow> tfind V k = Some v \<Longrightarrow> voter_ok core P k v"
  by (simp add: ledger_ok_def)

lemma ledger_votes:
  "ledger_ok core g V P D \<Longrightarrow> p_votes (prow core P q) = tsum (vote_share q) V + D q"
  by (simp add: ledger_ok_def)

lemma ledger_pending:
  "ledger_ok core g V P D \<Longrightarrow> tsum (pending q (p_rewards_per_vote (prow core P q))) V
     \<le> allocating (prow core P q) * HIGH_PRECISION"
  by (simp add: ledger_ok_def)

lemma ledger_pending_row:
  assumes "ledger_ok core g V P D" "tfind V k = Some v"
  shows "pending q (p_rewards_per_vote (prow core P q)) k v \<le> allocating (prow core P q) * HIGH_PRECISION"
  using tsum_row_le [of V "pending q (p_rewards_per_vote (prow core P q))" k v]
    ledger_pending [OF assms(1), of q] ledger_tables [OF assms(1)] assms
    pending_nonneg ledger_voter by fastforce

lemma ledger_share_row:
  assumes "ledger_ok core g V P D" "tfind V k = Some v"
  shows "vote_share q k v \<le> tsum (vote_share q) V"
  using assms by (intro tsum_row_le) (auto dest: ledger_tables ledger_voter vote_share_nonneg)

text \<open>Everything owed, paid or not yet allocated is bounded by what was paid in.\<close>

lemma ledger_total:
  assumes "ledger_ok core g V P D"
  shows "tsum received V + tsum (\<lambda>_. allocating) P = g"
proof -
  have rows: "tfind P k = Some p \<Longrightarrow> producer_ok core k p" for k p
    using ledger_producer [OF assms, of k] by (simp add: prow_def)
  have "tsum (\<lambda>_ p. a_amount (p_total_rewards p)) P = tsum (\<lambda>_ p. allocated p + allocating p) P"
    using ledger_tables [OF assms] rows by (intro tsum_cong) (auto simp: producer_ok_def)
  also have "\<dots> = tsum (\<lambda>_. allocated) P + tsum (\<lambda>_. allocating) P"
    by (rule tsum_add)
  finally show ?thesis using assms by (simp add: ledger_ok_def)
qed

lemma ledger_bound:
  assumes "ledger_ok core g V P D" "tfind V k = Some v"
  shows "received k v + allocating (prow core P q) \<le> max_amount"
proof -
  have "0 \<le> received k w" if "tfind V k = Some w" for k w
    using ledger_voter [OF assms(1) that] by (simp add: received_def voter_ok_def)
  then have "received k v \<le> tsum received V"
    using ledger_tables [OF assms(1)] assms(2) by (intro tsum_row_le) auto
  moreover have rows: "producer_ok core n p" if "tfind P n = Some p" for n p
    using ledger_producer [OF assms(1), of n] that by (simp add: prow_def)
  have "allocating (prow core P q) \<le> tsum (\<lambda>_. allocating) P"
  proof (cases "tfind P q")
    case None
    have "0 \<le> tsum (\<lambda>_. allocating) P"
      using ledger_tables [OF assms(1)] rows by (intro tsum_nonneg) (auto simp: producer_ok_def)
    with None show ?thesis by (simp add: prow_def zero_producer_def)
  next
    case (Some p)
    then show ?thesis
      using ledger_tables [OF assms(1)] rows tsum_row_le [of P "\<lambda>_. allocating" q p]
      by (auto simp: prow_def producer_ok_def)
  qed
  ultimately show ?thesis
    using ledger_total [OF assms(1)] assms(1) by (simp add: ledger_ok_def)
qed

lemma ledger_total_row:
  assumes "ledger_ok core g V P D"
  shows "a_amount (p_total_rewards (prow core P q)) \<le> max_amount"
proof (cases "tfind P q")
  case None
  then show ?thesis using max_amount_pos by (simp add: prow_def zero_producer_def)
next
  case (Some p)
  have "producer_ok core n p" if "tfind P n = Some p" for n p
    using ledger_producer [OF assms, of n] that by (simp add: prow_def)
  then have "a_amount (p_total_rewards p) \<le> tsum (\<lambda>_ p. a_amount (p_total_rewards p)) P"
    using ledger_tables [OF assms] Some by (intro tsum_row_le) (auto simp: producer_ok_def)
  then show ?thesis using assms Some by (simp add: prow_def ledger_ok_def)
qed

section \<open>One producer settles with one voter\<close>

definition settled_producer :: "int \<Rightarrow> int \<Rightarrow> block_timestamp \<Rightarrow> producer \<Rightarrow> producer" where
  "settled_producer r votes u p =
     p\<lparr>p_allocating_rewards := mk_asset (allocating p - r) (a_symbol (p_allocating_rewards p)),
       p_allocated_rewards := mk_asset (allocated p + r) (a_symbol (p_allocated_rewards p)),
       p_votes := votes, p_update_at := u\<rparr>"

definition settled_voter :: "voted_producer_map \<Rightarrow> int \<Rightarrow> voter \<Rightarrow> voter" where
  "settled_voter m r v =
     v\<lparr>v_producers := m,
       v_unclaimed_rewards := mk_asset (a_amount (v_unclaimed_rewards v) + r) (a_symbol (v_unclaimed_rewards v))\<rparr>"

lemma settled_voter_share:
  "vote_share q k (settled_voter m r v) = (case tfind m q of None \<Rightarrow> 0 | Some _ \<Rightarrow> v_votes v)"
  by (simp add: vote_share_def settled_voter_def split: option.split)

lemma settled_voter_pending:
  "pending q z k (settled_voter m r v) = (case tfind m q of None \<Rightarrow> 0 | Some l \<Rightarrow> v_votes v * (z - l))"
  by (simp add: pending_def settled_voter_def split: option.split)

lemma settled_producer_ok:
  assumes "ledger_ok core g V P D" "tfind V n = Some v" "0 \<le> r"
    "r * HIGH_PRECISION \<le> pending q (p_rewards_per_vote (prow core P q)) n v" "0 \<le> votes"
  shows "producer_ok core q (settled_producer r votes u (prow core P q))"
proof -
  have "r * HIGH_PRECISION \<le> allocating (prow core P q) * HIGH_PRECISION"
    using assms(4) ledger_pending_row [OF assms(1,2), of q] by linarith
  then have "r \<le> allocating (prow core P q)" using HP_pos by simp
  then show ?thesis
    using ledger_producer [OF assms(1), of q] assms(3,5) by (simp add: producer_ok_def settled_producer_def)
qed

lemma voter_ok_rpv_cong:
  assumes "\<And>a. p_rewards_per_vote (prow core Q a) = p_rewards_per_vote (prow core P a)"
  shows "voter_ok core Q k w = voter_ok core P k w"
  using assms by (simp add: voter_ok_def)

lemma settled_voter_ok:
  assumes "voter_ok core P n v" "0 \<le> r" "twf m" "producer_ok core q (prow core P q)"
    and "\<And>a. a \<noteq> q \<Longrightarrow> tfind m a = tfind (v_producers v) a"
    and "tfind m q = None \<or> tfind m q = Some (p_rewards_per_vote (prow core P q))"
  shows "voter_ok core P n (settled_voter m r v)"
proof -
  have "0 \<le> l \<and> l \<le> p_rewards_per_vote (prow core P a)" if "tfind m a = Some l" for a l
    using that assms(1,4,6) assms(5) [of a] by (cases "a = q") (auto simp: voter_ok_def producer_ok_def)
  then show ?thesis using assms(1-3) by (simp add: voter_ok_def settled_voter_def)
qed

lemma settle_ledger:
  assumes L: "ledger_ok core g V P D" and v: "tfind V n = Some v"
    and r: "0 \<le> r" "r * HIGH_PRECISION \<le> pending q (p_rewards_per_vote (prow core P q)) n v"
    and m: "twf m" "\<And>a. a \<noteq> q \<Longrightarrow> tfind m a = tfind (v_producers v) a"
      "tfind m q = None \<or> tfind m q = Some (p_rewards_per_vote (prow core P q))"
    and votes: "0 \<le> votes"
  shows "ledger_ok core g (tput n (settled_voter m r v) V)
           (tput q (settled_producer r votes u (prow core P q)) P)
           (D(q := votes - tsum (vote_share q) (tput n (settled_voter m r v) V)))"
proof -
  let ?p = "prow core P q" and ?v = "settled_voter m r v"
  let ?P = "tput q (settled_producer r votes u ?p) P" and ?V = "tput n ?v V"
  note wf = ledger_tables [OF L]
  have rpv: "p_rewards_per_vote (prow core ?P a) = p_rewards_per_vote (prow core P a)" for a
    by (simp add: prow_tput settled_producer_def)
  have "voter_ok core P k w" if "tfind ?V k = Some w" for k w
    using that settled_voter_ok [OF ledger_voter [OF L v] r(1) m(1) ledger_producer [OF L] m(2,3)]
      ledger_voter [OF L] by (auto simp: tfind_tput split: if_splits)
  then have voters: "voter_ok core ?P k w" if "tfind ?V k = Some w" for k w
    using that voter_ok_rpv_cong [OF rpv] by simp
  have share: "tsum (vote_share a) ?V = tsum (vote_share a) V" if "a \<noteq> q" for a
    using m(2) [OF that] wf v by (simp add: tsum_tput_old settled_voter_share vote_share_def [of a n v])
  have pend: "tsum (pending a z) ?V = tsum (pending a z) V" if "a \<noteq> q" for a z
    using m(2) [OF that] wf v by (simp add: tsum_tput_old settled_voter_pending pending_def [of a z n v])
  have pendq: "tsum (pending q (p_rewards_per_vote ?p)) ?V
      \<le> allocating ?p * HIGH_PRECISION - r * HIGH_PRECISION"
    using ledger_pending [OF L, of q] r(2) m(3) wf v
    by (auto simp: tsum_tput_old settled_voter_pending)
  have books: "tsum (\<lambda>_ p. a_amount (p_total_rewards p)) ?P = tsum (\<lambda>_ p. a_amount (p_total_rewards p)) P"
    "tsum (\<lambda>_. allocated) ?P = tsum (\<lambda>_. allocated) P + r" "tsum received ?V = tsum received V + r"
    using wf v
    by (simp_all add: tsum_tput_prow [where core = core] tsum_tput_old zero_producer_def
        settled_producer_def received_def settled_voter_def)
  have votes': "p_votes (prow core ?P a) =
      tsum (vote_share a) ?V + (D(q := votes - tsum (vote_share q) ?V)) a" for a
    using ledger_votes [OF L, of a] share [of a] by (simp add: prow_tput settled_producer_def)
  have pending': "tsum (pending a (p_rewards_per_vote (prow core ?P a))) ?V
      \<le> allocating (prow core ?P a) * HIGH_PRECISION" for a
    using pendq pend [of a] ledger_pending [OF L, of a]
    by (cases "a = q") (simp_all add: prow_tput settled_producer_def algebra_simps)
  have "producer_ok core a (prow core ?P a)" for a
    using settled_producer_ok [OF L v r votes] ledger_producer [OF L] by (simp add: prow_tput)
  then show ?thesis
    unfolding ledger_ok_def
    using wf voters votes' pending' books L by (simp add: twf_tput ledger_ok_def)
qed


section \<open>The allocation loop\<close>

definition owed :: "int \<Rightarrow> int \<Rightarrow> producer \<Rightarrow> int" where
  "owed votes_old l p = (if 0 < votes_old then votes_old * (p_rewards_per_vote p - l) div HIGH_PRECISION else 0)"

lemma producer_row_prow:
  "cdt_laws C \<Longrightarrow> symbol_is_valid C (core_symbol s) \<Longrightarrow>
     producer_row C s q = Inr (prow (core_symbol s) (rs_producers s) q)"
  by (auto simp: producer_row_def prow_def zero_producer_def cdt_ok split: option.splits)

text \<open>What a voter row and the arguments of an allocation have to do with each other.\<close>

definition voted_at :: "voter \<Rightarrow> name \<Rightarrow> int \<Rightarrow> int \<Rightarrow> bool" where
  "voted_at v q l votes_old \<longleftrightarrow>
     tfind (v_producers v) q = Some l \<and> votes_old = v_votes v
   \<or> tfind (v_producers v) q = None \<and> votes_old = 0 \<and> l = 0"

lemma owed_bounds:
  assumes L: "ledger_ok core g V P D" and v: "tfind V n = Some v" and at: "voted_at v q l votes_old"
  defines "p \<equiv> prow core P q"
  shows "0 \<le> l" "l \<le> p_rewards_per_vote p" "0 \<le> votes_old" "0 \<le> owed votes_old l p"
    "owed votes_old l p * HIGH_PRECISION \<le> pending q (p_rewards_per_vote p) n v"
    "owed votes_old l p \<le> allocating p" "votes_old * (p_rewards_per_vote p - l) < 2 ^ 127"
    "received n v + owed votes_old l p \<le> max_amount"
proof -
  have vok: "voter_ok core P n v" and pok: "producer_ok core q p"
    using ledger_voter [OF L v] ledger_producer [OF L] by (simp_all add: p_def)
  show l: "0 \<le> l" "l \<le> p_rewards_per_vote p" and vo: "0 \<le> votes_old"
    using at vok pok by (auto simp: voted_at_def voter_ok_def producer_ok_def p_def)
  show nn: "0 \<le> owed votes_old l p"
    using l HP_pos by (auto simp: owed_def intro!: pos_imp_zdiv_nonneg_iff [THEN iffD2])
  have pen: "votes_old * (p_rewards_per_vote p - l) = pending q (p_rewards_per_vote p) n v"
    using at by (auto simp: voted_at_def pending_def)
  have le: "pending q (p_rewards_per_vote p) n v \<le> allocating p * HIGH_PRECISION"
    using ledger_pending_row [OF L v, of q] by (simp add: p_def)
  have "x div HIGH_PRECISION * HIGH_PRECISION \<le> x" for x
    using HP_pos pos_mod_sign [of HIGH_PRECISION x] div_mult_mod_eq [of x HIGH_PRECISION] by linarith
  then show ow: "owed votes_old l p * HIGH_PRECISION \<le> pending q (p_rewards_per_vote p) n v"
    using pen vo pending_nonneg [OF vok, of q] by (auto simp: owed_def p_def)
  then have "owed votes_old l p * HIGH_PRECISION \<le> allocating p * HIGH_PRECISION" using le by linarith
  then show ol: "owed votes_old l p \<le> allocating p" using HP_pos by simp
  have b: "received n v + allocating p \<le> max_amount" using ledger_bound [OF L v] by (simp add: p_def)
  then show "received n v + owed votes_old l p \<le> max_amount" using ol by linarith
  have "0 \<le> received n v" using vok by (simp add: received_def voter_ok_def)
  then have "allocating p * HIGH_PRECISION \<le> max_amount * HIGH_PRECISION"
    using b HP_pos by simp
  also have "\<dots> < 2 ^ 127" by (simp add: max_amount_def HIGH_PRECISION_def)
  finally show "votes_old * (p_rewards_per_vote p - l) < 2 ^ 127" using pen le by linarith
qed

lemma calc_voter_rewards_ok:
  assumes "cdt_laws C" "symbol_is_valid C core" "0 < votes" "0 < d" "votes * d < 2 ^ 127"
    "votes * d div HIGH_PRECISION \<le> max_amount"
  shows "calc_voter_rewards C core votes d = Inr (mk_asset (votes * d div HIGH_PRECISION) core)"
proof -
  have pos: "0 < votes * d" and ge: "d \<le> votes * d" using assms(3,4) by simp_all
  then have w: "i128 (votes * d) = votes * d" using assms(5) by (intro i128_id) auto
  have nn: "0 \<le> votes * d div HIGH_PRECISION"
    using pos HP_pos by (simp add: pos_imp_zdiv_nonneg_iff)
  have "amount_ok (votes * d div HIGH_PRECISION)" using nn assms(6) by (rule amount_okI)
  moreover have "votes * d div HIGH_PRECISION \<le> 2 ^ 63 - 1" using assms(6) by (simp add: max_amount_def)
  ultimately show ?thesis
    using assms(1-4) w ge nn pos HP_pos
    by (simp add: calc_voter_rewards_def Let_def cdiv_nonneg cdt_ok)
qed

lemma allocate_new_rewards_ok:
  assumes C: "cdt_laws C" "symbol_is_valid C core"
    and L: "ledger_ok core g V P D" and v: "tfind V n = Some v"
    and at: "voted_at v q l votes_old" and D: "D q = 0"
  defines "p \<equiv> prow core P q"
  shows "allocate_new_rewards C core votes_old (p_rewards_per_vote p - l) p (v_unclaimed_rewards v) =
     Inr (p\<lparr>p_allocating_rewards := mk_asset (allocating p - owed votes_old l p) core,
            p_allocated_rewards := mk_asset (allocated p + owed votes_old l p) core\<rparr>,
          mk_asset (a_amount (v_unclaimed_rewards v) + owed votes_old l p) core)"
proof -
  let ?r = "owed votes_old l p" and ?d = "p_rewards_per_vote p - l"
  note b = owed_bounds [OF L v at, folded p_def]
  have pok: "producer_ok core q p" and vok: "voter_ok core P n v"
    using ledger_producer [OF L] ledger_voter [OF L v] by (simp_all add: p_def)
  then have sy: "a_symbol (v_unclaimed_rewards v) = core" "a_symbol (p_allocating_rewards p) = core"
      "a_symbol (p_allocated_rewards p) = core" "a_symbol (p_total_rewards p) = core"
    by (simp_all add: voter_ok_def producer_ok_def)
  show ?thesis
  proof (cases "0 < ?d \<and> 0 < votes_old")
    case False
    then have "?r = 0" using b(2) by (auto simp: owed_def)
    then show ?thesis using False sy by (auto simp: allocate_new_rewards_def)
  next
    case True
    then have r: "?r = votes_old * ?d div HIGH_PRECISION" by (simp add: owed_def)
    have share: "votes_old \<le> p_votes p"
      using at True ledger_share_row [OF L v, of q] ledger_votes [OF L, of q] D
      by (auto simp: voted_at_def vote_share_def p_def)
    have unc: "0 \<le> a_amount (v_unclaimed_rewards v)" "0 \<le> a_amount (v_claimed_rewards v)"
      using vok by (simp_all add: voter_ok_def)
    have tot: "a_amount (p_total_rewards p) = allocating p + allocated p" "0 \<le> allocated p"
      "allocating p + allocated p \<le> max_amount"
      using pok ledger_total_row [OF L, of q] by (simp_all add: producer_ok_def p_def)
    have rm: "?r \<le> max_amount" using b(4,8) unc by (simp add: received_def)
    have calc: "calc_voter_rewards C core votes_old ?d = Inr (mk_asset ?r core)"
      using calc_voter_rewards_ok [OF C, of votes_old ?d] True b(7) rm r by simp
    have ok: "amount_ok (allocating p - ?r)" "amount_ok (allocated p + ?r)"
        "amount_ok (allocating p + allocated p)" "amount_ok (a_amount (v_unclaimed_rewards v) + ?r)"
      using b(4,6,8) tot unc by (auto intro!: amount_okI simp: received_def)
    show ?thesis
      unfolding allocate_new_rewards_def
      using True share calc C sy ok tot b(6) by (simp add: cdt_ok)
  qed
qed

lemma allocate_one_ok:
  assumes C: "cdt_laws C" "symbol_is_valid C core" "core_symbol s = core"
    and L: "ledger_ok core g V (rs_producers s) D" and v: "tfind V n = Some v"
    and at: "voted_at v q l votes_old" and D: "D q = 0"
  defines "p \<equiv> prow core (rs_producers s) q"
  assumes votes: "0 \<le> p_votes p + delta" "p_votes p + delta \<le> max_amount"
  shows "allocate_one C x votes_old delta q l s (v_unclaimed_rewards v) =
     Inr (s\<lparr>rs_producers := tput q (settled_producer (owed votes_old l p) (p_votes p + delta)
              (to_slot C (now x)) p) (rs_producers s)\<rparr>,
          mk_asset (a_amount (v_unclaimed_rewards v) + owed votes_old l p) core, p_rewards_per_vote p)"
proof -
  note b = owed_bounds [OF L v at, folded p_def]
  have row: "producer_row C s q = Inr p" using producer_row_prow C by (simp add: p_def)
  have pok: "producer_ok core q p" using ledger_producer [OF L] by (simp add: p_def)
  then have "p_rewards_per_vote p < 2 ^ 127"
    using rpv_bound [of "p_rewards_per_vote p" "allocating p + allocated p"] ledger_total_row [OF L, of q]
    by (simp add: p_def producer_ok_def)
  then have d: "i128 (p_rewards_per_vote p - l) = p_rewards_per_vote p - l"
    using b(1,2) by (intro i128_id) auto
  have w: "i64 (p_votes p + delta) = p_votes p + delta"
    using votes by (intro i64_id) (auto simp: max_amount_def)
  show ?thesis
    unfolding allocate_one_def
    using row b(2) d w votes(1) C(3) pok allocate_new_rewards_ok [OF C(1,2) L v at D, folded p_def]
    by (simp add: settled_producer_def producer_ok_def)
qed


text \<open>
  The whole loop. While it runs the voter row under way is a local copy; afterwards each processed
  producer is kept in the voter's map with its current rewards per vote, or dropped from it.
\<close>

definition remap :: "bool \<Rightarrow> voted_producer_map \<Rightarrow> voted_producer_map \<Rightarrow> voted_producer_map" where
  "remap keep ps m = fold (\<lambda>(q, l) m. if keep then tput q l m else terase q m) ps m"

lemma remap_simps [simp]:
  "remap keep [] m = m"
  "remap keep ((q, l) # ps) m = remap keep ps (if keep then tput q l m else terase q m)"
  by (simp_all add: remap_def)

lemma twf_remap: "twf m \<Longrightarrow> twf (remap keep ps m)"
  by (induction ps arbitrary: m) (auto simp: table_simps)

lemma tfind_remap_other: "a \<notin> fst ` set ps \<Longrightarrow> tfind (remap keep ps m) a = tfind m a"
  by (induction ps arbitrary: m) (auto simp: table_simps)

lemma tfind_remap:
  "distinct (map fst ps) \<Longrightarrow> tfind (remap keep ps m) a =
     (if a \<in> fst ` set ps then if keep then map_of ps a else None else tfind m a)"
  by (induction ps arbitrary: m) (force simp: table_simps tfind_remap_other)+

lemma settled_voter_twice: "settled_voter m r (settled_voter m' r' v) = settled_voter m (r' + r) v"
  by (simp add: settled_voter_def algebra_simps)

lemma settled_voter_fields [simp]:
  "v_producers (settled_voter m r v) = m" "v_votes (settled_voter m r v) = v_votes v"
  "v_unclaimed_rewards (settled_voter m r v) =
     mk_asset (a_amount (v_unclaimed_rewards v) + r) (a_symbol (v_unclaimed_rewards v))"
  "v_owner (settled_voter m r v) = v_owner v" "v_claimed_rewards (settled_voter m r v) = v_claimed_rewards v"
  by (simp_all add: settled_voter_def)

lemma share_cong:
  assumes "twf T" "v_votes w = v_votes v" "tfind (v_producers w) q = tfind (v_producers v) q"
  shows "tsum (vote_share q) (tput n w T) = tsum (vote_share q) (tput n v T)"
  using assms by (simp add: tsum_tput vote_share_def [of q n w] vote_share_def [of q n v] split: option.split)

text \<open>What all listed producers together owe to a voter.\<close>

definition total_owed :: "symbol \<Rightarrow> (name, producer) table \<Rightarrow> int \<Rightarrow> voted_producer_map \<Rightarrow> int" where
  "total_owed core P votes ps = sum_list (map (\<lambda>(q, l). owed votes l (prow core P q)) ps)"

lemma total_owed_cong:
  "(\<And>q. p_rewards_per_vote (prow core P q) = p_rewards_per_vote (prow core Q q)) \<Longrightarrow>
     total_owed core P votes ps = total_owed core Q votes ps"
  unfolding total_owed_def by (rule arg_cong [where f = sum_list]) (auto simp: owed_def)

text \<open>The books while the loop runs, and what it leaves behind.\<close>

definition loop_pre ::
  "symbol \<Rightarrow> int \<Rightarrow> name \<Rightarrow> (name, voter) table \<Rightarrow> int \<Rightarrow> int \<Rightarrow> voted_producer_map \<Rightarrow> voter
     \<Rightarrow> (name, producer) table \<Rightarrow> (name \<Rightarrow> int) \<Rightarrow> bool" where
  "loop_pre core g n T votes_old delta ps v P D \<longleftrightarrow>
     ledger_ok core g (tput n v T) P D \<and> distinct (map fst ps)
   \<and> (\<forall>(q, l) \<in> set ps. voted_at v q l votes_old \<and> D q = 0
        \<and> 0 \<le> tsum (vote_share q) (tput n v T) + delta
        \<and> tsum (vote_share q) (tput n v T) + delta \<le> max_amount)"

definition gap_after ::
  "name list \<Rightarrow> int \<Rightarrow> name \<Rightarrow> (name, voter) table \<Rightarrow> voter \<Rightarrow> voter \<Rightarrow> (name \<Rightarrow> int) \<Rightarrow> name \<Rightarrow> int" where
  "gap_after qs delta n T v v' D q =
     (if q \<in> set qs then tsum (vote_share q) (tput n v T) + delta - tsum (vote_share q) (tput n v' T)
      else D q)"

definition loop_post ::
  "symbol \<Rightarrow> int \<Rightarrow> name \<Rightarrow> (name, voter) table \<Rightarrow> int \<Rightarrow> int \<Rightarrow> bool \<Rightarrow> voted_producer_map \<Rightarrow> voter
     \<Rightarrow> (name, producer) table \<Rightarrow> (name \<Rightarrow> int) \<Rightarrow> (name, producer) table \<Rightarrow> int \<Rightarrow> voted_producer_map \<Rightarrow> bool" where
  "loop_post core g n T vo delta keep ps v P D P' r ps' \<longleftrightarrow>
     map fst ps' = map fst ps \<and> 0 \<le> r \<and> r = total_owed core P vo ps
   \<and> (\<forall>(q, l) \<in> set ps'. l = p_rewards_per_vote (prow core P' q))
   \<and> (\<forall>q. p_rewards_per_vote (prow core P' q) = p_rewards_per_vote (prow core P q))
   \<and> (let v' = settled_voter (remap keep ps' (v_producers v)) r v in
        ledger_ok core g (tput n v' T) P' (gap_after (map fst ps) delta n T v v' D))"

text \<open>One iteration, as a step of the local voter row, the producer table and the gap.\<close>

definition next_voter :: "symbol \<Rightarrow> bool \<Rightarrow> name \<Rightarrow> int \<Rightarrow> int \<Rightarrow> (name, producer) table \<Rightarrow> voter \<Rightarrow> voter" where
  "next_voter core keep q l votes_old P v =
     settled_voter (remap keep [(q, p_rewards_per_vote (prow core P q))] (v_producers v))
       (owed votes_old l (prow core P q)) v"

definition next_producers ::
  "symbol \<Rightarrow> name \<Rightarrow> int \<Rightarrow> int \<Rightarrow> int \<Rightarrow> block_timestamp \<Rightarrow> (name, producer) table \<Rightarrow> (name, producer) table" where
  "next_producers core q l votes_old delta u P =
     tput q (settled_producer (owed votes_old l (prow core P q)) (p_votes (prow core P q) + delta) u
               (prow core P q)) P"

lemma next_voter_other: "b \<noteq> q \<Longrightarrow> tfind (v_producers (next_voter core keep q l vo P v)) b = tfind (v_producers v) b"
  by (simp add: next_voter_def table_simps)

lemma next_voter_votes [simp]: "v_votes (next_voter core keep q l vo P v) = v_votes v"
  by (simp add: next_voter_def)

lemma next_producers_rpv:
  "p_rewards_per_vote (prow core (next_producers core q l vo delta u P) b) = p_rewards_per_vote (prow core P b)"
  by (simp add: next_producers_def prow_tput settled_producer_def)

lemma loop_step_ledger:
  assumes T: "twf T" and pre: "loop_pre core g n T vo delta ((q, l) # ps) v P D"
  shows "ledger_ok core g (tput n (next_voter core keep q l vo P v) T) (next_producers core q l vo delta u P)
           (gap_after [q] delta n T v (next_voter core keep q l vo P v) D)"
proof -
  have L: "ledger_ok core g (tput n v T) P D" and at: "voted_at v q l vo" and D: "D q = 0"
    and rng: "0 \<le> tsum (vote_share q) (tput n v T) + delta" using pre by (auto simp: loop_pre_def)
  have v: "tfind (tput n v T) n = Some v" by (simp add: tfind_tput)
  have pv: "p_votes (prow core P q) = tsum (vote_share q) (tput n v T)"
    using ledger_votes [OF L, of q] D by simp
  let ?m = "remap keep [(q, p_rewards_per_vote (prow core P q))] (v_producers v)"
  have m: "twf ?m" "\<And>b. b \<noteq> q \<Longrightarrow> tfind ?m b = tfind (v_producers v) b"
    "tfind ?m q = None \<or> tfind ?m q = Some (p_rewards_per_vote (prow core P q))"
    using ledger_voter [OF L v] by (auto simp: voter_ok_def table_simps)
  have fu: "gap_after [q] delta n T v w D = D(q := tsum (vote_share q) (tput n v T) + delta - tsum (vote_share q) (tput n w T))" for w
    by (auto simp: gap_after_def)
  show ?thesis
    using settle_ledger [OF L v owed_bounds(4,5) [OF L v at] m, of "p_votes (prow core P q) + delta" u] rng pv T
    unfolding next_voter_def next_producers_def fu by (simp add: tput_tput)
qed

lemma loop_step_pre:
  assumes T: "twf T" and pre: "loop_pre core g n T vo delta ((q, l) # ps) v P D"
  shows "loop_pre core g n T vo delta ps (next_voter core keep q l vo P v) (next_producers core q l vo delta u P)
           (gap_after [q] delta n T v (next_voter core keep q l vo P v) D)"
proof -
  have rest: "voted_at (next_voter core keep q l vo P v) b k vo
      \<and> gap_after [q] delta n T v (next_voter core keep q l vo P v) D b = 0
      \<and> tsum (vote_share b) (tput n (next_voter core keep q l vo P v) T) = tsum (vote_share b) (tput n v T)"
    if "(b, k) \<in> set ps" for b k
  proof -
    have "b \<noteq> q" using pre that by (force simp: loop_pre_def)
    moreover have "voted_at v b k vo" "D b = 0" using pre that by (auto simp: loop_pre_def)
    ultimately show ?thesis
      using share_cong [OF T, of "next_voter core keep q l vo P v" v b n]
      by (simp add: voted_at_def gap_after_def next_voter_other)
  qed
  then show ?thesis
    using pre loop_step_ledger [OF assms] unfolding loop_pre_def by fastforce
qed

lemma loop_step_post:
  assumes T: "twf T" and pre: "loop_pre core g n T vo delta ((q, l) # ps) v P D"
    and post: "loop_post core g n T vo delta keep ps (next_voter core keep q l vo P v)
       (next_producers core q l vo delta u P) (gap_after [q] delta n T v (next_voter core keep q l vo P v) D) P' r ps'"
  shows "loop_post core g n T vo delta keep ((q, l) # ps) v P D P' (owed vo l (prow core P q) + r)
           ((q, p_rewards_per_vote (prow core P q)) # ps')"
proof -
  let ?v1 = "next_voter core keep q l vo P v" and ?rpv = "p_rewards_per_vote (prow core P q)"
  let ?v2 = "settled_voter (remap keep ps' (v_producers ?v1)) r ?v1"
  have L: "ledger_ok core g (tput n v T) P D" and at: "voted_at v q l vo" and q: "q \<notin> set (map fst ps)"
    using pre by (auto simp: loop_pre_def)
  have v: "tfind (tput n v T) n = Some v" by (simp add: tfind_tput)
  have v2: "?v2 = settled_voter (remap keep ((q, ?rpv) # ps') (v_producers v)) (owed vo l (prow core P q) + r) v"
    by (simp add: next_voter_def settled_voter_twice)
  have keys: "map fst ps' = map fst ps" using post by (simp add: loop_post_def)
  then have "q \<notin> fst ` set ps'" using q by (metis list.set_map)
  then have shq: "tsum (vote_share q) (tput n ?v2 T) = tsum (vote_share q) (tput n ?v1 T)"
    using share_cong [OF T, of ?v2 ?v1 q n] by (simp add: tfind_remap_other)
  have sh: "tsum (vote_share b) (tput n ?v1 T) = tsum (vote_share b) (tput n v T)" if "b \<noteq> q" for b
    using share_cong [OF T, of ?v1 v b n] that by (simp add: next_voter_other)
  have "gap_after (map fst ps) delta n T ?v1 ?v2 (gap_after [q] delta n T v ?v1 D) b
      = gap_after (map fst ((q, l) # ps)) delta n T v ?v2 D b" for b
    using q shq sh [of b] by (cases "b = q") (auto simp: gap_after_def)
  then have "gap_after (map fst ps) delta n T ?v1 ?v2 (gap_after [q] delta n T v ?v1 D)
      = gap_after (map fst ((q, l) # ps)) delta n T v ?v2 D" by (rule ext)
  moreover have rpv: "p_rewards_per_vote (prow core P' b) = p_rewards_per_vote (prow core P b)" for b
    using post by (simp add: loop_post_def next_producers_rpv)
  moreover have "\<forall>(b, k) \<in> set ((q, ?rpv) # ps'). k = p_rewards_per_vote (prow core P' b)"
    using post rpv [of q] unfolding loop_post_def by fastforce
  moreover have "owed vo l (prow core P q) + r = total_owed core P vo ((q, l) # ps)" "0 \<le> r"
    using post total_owed_cong [OF next_producers_rpv] by (simp_all add: loop_post_def total_owed_def)
  moreover have "ledger_ok core g (tput n ?v2 T) P'
      (gap_after (map fst ps) delta n T ?v1 ?v2 (gap_after [q] delta n T v ?v1 D))"
    using post unfolding loop_post_def Let_def by blast
  ultimately show ?thesis
    using owed_bounds(4) [OF L v at] keys unfolding loop_post_def v2 [symmetric] Let_def by simp
qed

lemma allocate_loop_ok:
  assumes C: "cdt_laws C" "symbol_is_valid C core" and T: "twf T"
  shows "core_symbol s = core \<Longrightarrow> loop_pre core g n T vo delta ps v (rs_producers s) D \<Longrightarrow>
    \<exists>P' r ps'. allocate_producer_rewards C x ps vo delta s (v_unclaimed_rewards v)
        = Inr (s\<lparr>rs_producers := P'\<rparr>, mk_asset (a_amount (v_unclaimed_rewards v) + r) core, ps')
      \<and> loop_post core g n T vo delta keep ps v (rs_producers s) D P' r ps'"
proof (induction ps arbitrary: s v D)
  case Nil
  have L: "ledger_ok core g (tput n v T) (rs_producers s) D" using Nil.prems(2) by (simp add: loop_pre_def)
  have sy: "a_symbol (v_unclaimed_rewards v) = core"
    using ledger_voter [OF L, of n v] by (simp add: tfind_tput voter_ok_def)
  then have "settled_voter (v_producers v) 0 v = v" by (auto simp: settled_voter_def)
  then show ?case
    using L sy by (intro exI [of _ "rs_producers s"] exI [of _ 0] exI [of _ "[]"])
      (auto simp: loop_post_def gap_after_def [abs_def] total_owed_def)
next
  case (Cons a ps)
  obtain q l where a: "a = (q, l)" by (cases a)
  let ?P = "next_producers core q l vo delta (to_slot C (now x)) (rs_producers s)"
  let ?v = "next_voter core keep q l vo (rs_producers s) v" and ?p = "prow core (rs_producers s) q"
  have pre: "loop_pre core g n T vo delta ((q, l) # ps) v (rs_producers s) D" using Cons.prems(2) by (simp add: a)
  then have L: "ledger_ok core g (tput n v T) (rs_producers s) D" and at: "voted_at v q l vo" and D: "D q = 0"
    and rng: "0 \<le> p_votes ?p + delta" "p_votes ?p + delta \<le> max_amount"
    by (auto simp: loop_pre_def ledger_ok_def)
  have v: "tfind (tput n v T) n = Some v" by (simp add: tfind_tput)
  have sy: "a_symbol (v_unclaimed_rewards v) = core" using ledger_voter [OF L v] by (simp add: voter_ok_def)
  have one: "allocate_one C x vo delta q l s (v_unclaimed_rewards v) =
      Inr (s\<lparr>rs_producers := ?P\<rparr>, v_unclaimed_rewards ?v, p_rewards_per_vote ?p)"
    using allocate_one_ok [OF C Cons.prems(1) L v at D rng, of x] sy by (simp add: next_producers_def next_voter_def)
  have sym: "core_symbol (s\<lparr>rs_producers := ?P\<rparr>) = core" using Cons.prems(1) by (simp add: core_symbol_def gstate_def)
  obtain P' r ps' where ih: "allocate_producer_rewards C x ps vo delta (s\<lparr>rs_producers := ?P\<rparr>) (v_unclaimed_rewards ?v)
        = Inr (s\<lparr>rs_producers := P'\<rparr>, mk_asset (a_amount (v_unclaimed_rewards ?v) + r) core, ps')"
      "loop_post core g n T vo delta keep ps ?v ?P (gap_after [q] delta n T v ?v D) P' r ps'"
    using Cons.IH [OF sym, of ?v "gap_after [q] delta n T v ?v D"] loop_step_pre [OF T pre] by auto
  show ?case
    using one ih(1) loop_step_post [OF T pre ih(2)] unfolding a
    by (auto simp: next_voter_def algebra_simps intro!: exI)
qed

end
