(* ===== verification/Reward_Actions.thy ===== *)
theory Reward_Actions
  imports Reward_Ledger
begin

text \<open>
  The actions of \<open>flon.reward\<close> on the books of \<open>Reward_Ledger\<close>: each action, called with its
  authorizations on a state that satisfies \<open>reward_inv\<close>, runs to its end and leaves a state that
  satisfies it. None of the internal assertions of the contract (allocating rewards insufficient,
  producer votes negative, books not balanced, 128 bit overflow) can fire.
\<close>

section \<open>Voter rows\<close>

definition zero_voter :: "symbol \<Rightarrow> name \<Rightarrow> voter" where
  "zero_voter core n = \<lparr>v_owner = n, v_votes = 0, v_producers = [], v_unclaimed_rewards = mk_asset 0 core,
     v_claimed_rewards = mk_asset 0 core, v_update_at = 0\<rparr>"

definition vrow :: "symbol \<Rightarrow> (name, voter) table \<Rightarrow> name \<Rightarrow> voter" where
  "vrow core V n = (case tfind V n of Some v \<Rightarrow> v | None \<Rightarrow> zero_voter core n)"

lemma voter_row_vrow:
  "cdt_laws C \<Longrightarrow> symbol_is_valid C (core_symbol s) \<Longrightarrow> indeterminate x = 0 \<Longrightarrow>
     voter_row C x s n = Inr (vrow (core_symbol s) (rs_voters s) n)"
  by (auto simp: voter_row_def vrow_def zero_voter_def cdt_ok split: option.splits)

lemma zero_voter_simps [simp]:
  "vote_share q k (zero_voter core n) = 0" "pending q z k (zero_voter core n) = 0"
  "received k (zero_voter core n) = 0" "voter_ok core P n (zero_voter core n)"
  "v_votes (zero_voter core n) = 0"
  by (simp_all add: vote_share_def pending_def received_def voter_ok_def zero_voter_def)

lemma tsum_tput_vrow:
  assumes "twf V" and "f n (zero_voter core n) = 0"
  shows "tsum f (tput n v V) = tsum f V - f n (vrow core V n) + f n v"
  using assms by (auto simp: tsum_tput vrow_def split: option.splits)

lemma tsum_own_row: "twf V \<Longrightarrow> f n (zero_voter core n) = 0 \<Longrightarrow> tsum f (tput n (vrow core V n) V) = tsum f V"
  by (simp add: tsum_tput_vrow [where core = core])

text \<open>Materialising the row of a new voter does not change the books.\<close>

lemma ledger_own_row:
  assumes L: "ledger_ok core g V P D"
  shows "ledger_ok core g (tput n (vrow core V n) V) P D"
proof -
  have "voter_ok core P k v" if "tfind (tput n (vrow core V n) V) k = Some v" for k v
    using that ledger_voter [OF L] by (auto simp: tfind_tput vrow_def split: if_splits option.splits)
  moreover have "twf V" using ledger_tables [OF L] by simp
  ultimately show ?thesis
    using L unfolding ledger_ok_def by (auto simp: tsum_own_row twf_tput)
qed

lemma vrow_ok: "ledger_ok core g V P D \<Longrightarrow> voter_ok core P n (vrow core V n)"
  using ledger_voter [OF ledger_own_row, of core g V P D n n] by (simp add: tfind_tput)

section \<open>The row under way replaced at the end of an action\<close>

definition settled_at :: "symbol \<Rightarrow> (name, producer) table \<Rightarrow> voter \<Rightarrow> bool" where
  "settled_at core P v \<longleftrightarrow> (\<forall>q l. tfind (v_producers v) q = Some l \<longrightarrow> l = p_rewards_per_vote (prow core P q))"

lemma share_row: "twf T \<Longrightarrow> tsum f (tput n w T) - f n w = tsum f (tput n v T) - f n v"
  by (simp add: tsum_tput)

text \<open>
  With every voted producer settled, the votes may change: the gap left by the loop closes.
\<close>

lemma replace_ledger:
  assumes L: "ledger_ok core g (tput n v T) P D" and T: "twf T"
    and set: "v_votes w = v_votes v \<or> settled_at core P v"
    and w: "v_producers w = v_producers v" "voter_ok core P n w" "received n w = received n v"
    and D: "\<And>q. D q = (if tfind (v_producers v) q = None then 0 else v_votes w - v_votes v)"
  shows "ledger_ok core g (tput n w T) P (\<lambda>_. 0)"
proof -
  have voters: "voter_ok core P k u" if "tfind (tput n w T) k = Some u" for k u
    using that w(2) ledger_voter [OF L, of k] by (auto simp: tfind_tput split: if_splits)
  have "pending q (p_rewards_per_vote (prow core P q)) n w = pending q (p_rewards_per_vote (prow core P q)) n v" for q
    using set w(1) by (auto simp: pending_def settled_at_def split: option.split)
  then have pend: "tsum (pending q (p_rewards_per_vote (prow core P q))) (tput n w T)
      = tsum (pending q (p_rewards_per_vote (prow core P q))) (tput n v T)" for q
    using share_row [OF T, of "pending q (p_rewards_per_vote (prow core P q))" n w v] by simp
  have "vote_share q n w = vote_share q n v + D q" for q
    using D [of q] w(1) by (auto simp: vote_share_def split: option.split)
  then have share: "tsum (vote_share q) (tput n w T) = tsum (vote_share q) (tput n v T) + D q" for q
    using share_row [OF T, of "vote_share q" n w v] by simp
  have rec: "tsum received (tput n w T) = tsum received (tput n v T)"
    using share_row [OF T, of received n w v] w(3) by simp
  show ?thesis
    using L voters pend share rec T unfolding ledger_ok_def by (simp add: twf_tput)
qed

text \<open>The loop leaves no gap when the votes of the row moved with the producers' votes.\<close>

lemma gap_closed:
  assumes "twf T" and "\<And>q. q \<in> set qs \<Longrightarrow> vote_share q n v' = vote_share q n v + delta"
  shows "gap_after qs delta n T v v' (\<lambda>_. 0) = (\<lambda>_. 0)"
proof
  fix q
  show "gap_after qs delta n T v v' (\<lambda>_. 0) q = 0"
    using share_row [OF assms(1), of "vote_share q" n v' v] assms(2) [of q]
    by (cases "q \<in> set qs") (simp_all add: gap_after_def)
qed

lemma loop_keys: "loop_post core g n T vo delta keep ps v P D P' r ps' \<Longrightarrow> map fst ps' = map fst ps"
  by (simp add: loop_post_def)

lemma loop_rpv: "loop_post core g n T vo delta keep ps v P D P' r ps' \<Longrightarrow>
    p_rewards_per_vote (prow core P' q) = p_rewards_per_vote (prow core P q)"
  by (simp add: loop_post_def)

lemma loop_settled: "loop_post core g n T vo delta keep ps v P D P' r ps' \<Longrightarrow> tfind ps' q = Some l \<Longrightarrow>
    l = p_rewards_per_vote (prow core P' q)"
  by (auto simp: loop_post_def dest!: map_of_SomeD)

lemma same_keys_wf: "map fst ps' = map fst ps \<Longrightarrow> twf ps \<Longrightarrow> twf ps'"
  by (simp add: twf_def)

lemma same_keys_find: "map fst ps' = map fst ps \<Longrightarrow> tfind ps' q = None \<longleftrightarrow> tfind ps q = None"
  by (metis list.set_map map_of_eq_None_iff)

lemma remap_self: "twf ps \<Longrightarrow> map fst ps' = map fst ps \<Longrightarrow> remap True ps' ps = ps'"
proof (rule twf_ext)
  assume ps: "twf ps" and keys: "map fst ps' = map fst ps"
  then show "twf (remap True ps' ps)" and "twf ps'" by (simp_all add: twf_remap same_keys_wf)
  have "distinct (map fst ps')" using ps keys twf_distinct by force
  moreover have "q \<in> fst ` set ps' \<longleftrightarrow> tfind ps q \<noteq> None" for q
    using keys by (metis list.set_map map_of_eq_None_iff)
  ultimately show "tfind (remap True ps' ps) = tfind ps'"
    using same_keys_find [OF keys] by (auto simp: tfind_remap fun_eq_iff) (metis not_None_eq)+
qed

section \<open>Adding and withdrawing votes\<close>

lemma share_bounds:
  assumes L: "ledger_ok core g V P D" and m: "tsum (\<lambda>_. v_votes) V \<le> b"
  shows "0 \<le> tsum (vote_share q) V" "tsum (vote_share q) V \<le> b"
proof -
  have wf: "twf V" using ledger_tables [OF L] by simp
  show "0 \<le> tsum (vote_share q) V"
    using wf ledger_voter [OF L] by (intro tsum_nonneg) (auto dest: vote_share_nonneg)
  have "tsum (vote_share q) V \<le> tsum (\<lambda>_. v_votes) V"
    using wf ledger_voter [OF L] by (intro tsum_mono) (auto dest: vote_share_le)
  then show "tsum (vote_share q) V \<le> b" using m by simp
qed

lemma own_votes_le:
  assumes L: "ledger_ok core g V P D" and v: "tfind V n = Some v"
  shows "v_votes v \<le> tsum (\<lambda>_. v_votes) V"
proof -
  have "0 \<le> v_votes w" if "tfind V k = Some w" for k w
    using ledger_voter [OF L that] by (simp add: voter_ok_def)
  then show ?thesis using ledger_tables [OF L] v by (intro tsum_row_le) auto
qed

lemma change_pre:
  assumes L: "ledger_ok core g T P (\<lambda>_. 0)" and v: "v = vrow core T n"
    and d: "0 \<le> v_votes v + delta" "tsum (\<lambda>_. v_votes) T + delta \<le> max_amount" "tsum (\<lambda>_. v_votes) T \<le> max_amount"
  shows "loop_pre core g n T (v_votes v) delta (v_producers v) v P (\<lambda>_. 0)"
proof -
  note L1 = ledger_own_row [OF L, of n, folded v]
  have T: "twf T" and vok: "voter_ok core P n v" using ledger_tables [OF L] vrow_ok [OF L] v by auto
  have "voted_at v q l (v_votes v) \<and> 0 \<le> tsum (vote_share q) (tput n v T) + delta
      \<and> tsum (vote_share q) (tput n v T) + delta \<le> max_amount" if "(q, l) \<in> set (v_producers v)" for q l
  proof -
    have f: "tfind (v_producers v) q = Some l" using that vok by (simp add: voter_ok_def tfind_in_set)
    then have "v_votes v \<le> tsum (vote_share q) (tput n v T)"
      using ledger_share_row [OF L1, of n v q] by (simp add: tfind_tput vote_share_def)
    moreover have "tsum (vote_share q) (tput n v T) = tsum (vote_share q) T"
      using T v by (simp add: tsum_own_row)
    ultimately show ?thesis
      using f d share_bounds(2) [OF L order_refl, of q] by (simp add: voted_at_def)
  qed
  then show ?thesis
    using L1 vok by (auto simp: loop_pre_def voter_ok_def twf_distinct)
qed


text \<open>Voting and claiming never change the rewards per vote of a producer.\<close>

definition same_rpv :: "symbol \<Rightarrow> (name, producer) table \<Rightarrow> (name, producer) table \<Rightarrow> bool" where
  "same_rpv core P' P \<longleftrightarrow> (\<forall>q. p_rewards_per_vote (prow core P' q) = p_rewards_per_vote (prow core P q))"

text \<open>The row written at the end of \<open>addvote\<close> and \<open>subvote\<close>, in terms of the state before.\<close>

definition revoted :: "symbol \<Rightarrow> (name, producer) table \<Rightarrow> int \<Rightarrow> block_timestamp \<Rightarrow> voter \<Rightarrow> voter" where
  "revoted core P delta u v =
     v\<lparr>v_producers := map (\<lambda>(q, _). (q, p_rewards_per_vote (prow core P q))) (v_producers v),
       v_unclaimed_rewards := mk_asset (a_amount (v_unclaimed_rewards v)
                                + total_owed core P (v_votes v) (v_producers v)) core,
       v_votes := v_votes v + delta, v_update_at := u\<rparr>"

lemma keyed_map:
  "map fst ps' = map fst ps \<Longrightarrow> (\<And>q l. (q, l) \<in> set ps' \<Longrightarrow> l = f q) \<Longrightarrow> ps' = map (\<lambda>(q, _). (q, f q)) ps"
proof (induction ps' arbitrary: ps)
  case (Cons a ps')
  obtain q l where a: "a = (q, l)" by (cases a)
  obtain k qs where ps: "ps = (q, k) # qs" "map fst ps' = map fst qs"
    using Cons.prems(1) by (auto simp: a)
  have "l = f q" using Cons.prems(2) by (simp add: a)
  moreover have "ps' = map (\<lambda>(q, _). (q, f q)) qs"
    by (rule Cons.IH [OF ps(2)]) (rule Cons.prems(2), simp)
  ultimately show ?case by (simp add: a ps)
qed simp

lemma loop_map:
  assumes "loop_post core g n T vo delta keep ps v P D P' r ps'"
  shows "ps' = map (\<lambda>(q, _). (q, p_rewards_per_vote (prow core P q))) ps"
proof (rule keyed_map)
  fix q l assume "(q, l) \<in> set ps'"
  then have "l = p_rewards_per_vote (prow core P' q)" using assms unfolding loop_post_def by blast
  then show "l = p_rewards_per_vote (prow core P q)" using loop_rpv [OF assms] by simp
qed (rule loop_keys [OF assms])

lemma loop_ledger:
  "loop_post core g n T vo delta keep ps v P D P' r ps' \<Longrightarrow>
     ledger_ok core g (tput n (settled_voter (remap keep ps' (v_producers v)) r v) T) P'
       (gap_after (map fst ps) delta n T v (settled_voter (remap keep ps' (v_producers v)) r v) D)"
  unfolding loop_post_def Let_def by blast

lemma change_ledger:
  assumes L: "ledger_ok core g T P (\<lambda>_. 0)" and v: "v = vrow core T n"
    and d: "0 \<le> v_votes v + delta"
    and post: "loop_post core g n T (v_votes v) delta True (v_producers v) v P (\<lambda>_. 0) P' r ps'"
  shows "ledger_ok core g (tput n (revoted core P delta u v) T) P' (\<lambda>_. 0)"
proof -
  let ?m = "v_producers v"
  have T: "twf T" and vok: "voter_ok core P n v" using ledger_tables [OF L] vrow_ok [OF L] v by auto
  then have wf: "twf ?m" by (simp add: voter_ok_def)
  note keys = loop_keys [OF post]
  define v' where "v' = settled_voter ps' r v"
  have L': "ledger_ok core g (tput n v' T) P' (gap_after (map fst ?m) delta n T v v' (\<lambda>_. 0))"
    using loop_ledger [OF post] remap_self [OF wf keys] unfolding v'_def by simp
  have w: "revoted core P delta u v = v'\<lparr>v_votes := v_votes v + delta, v_update_at := u\<rparr>"
    using loop_map [OF post] post vok
    by (simp add: revoted_def v'_def settled_voter_def loop_post_def voter_ok_def)
  have v'ok: "voter_ok core P' n v'" using ledger_voter [OF L', of n v'] by (simp add: tfind_tput)
  have gap: "gap_after (map fst ?m) delta n T v v' (\<lambda>_. 0) q = (if tfind ps' q = None then 0 else delta)" for q
  proof -
    have "vote_share q n v' = vote_share q n v"
      using same_keys_find [OF keys, of q] by (auto simp: vote_share_def v'_def split: option.split)
    then have "tsum (vote_share q) (tput n v T) = tsum (vote_share q) (tput n v' T)"
      using share_row [OF T, of "vote_share q" n v' v] by simp
    moreover have "q \<in> set (map fst ?m) \<longleftrightarrow> tfind ps' q \<noteq> None"
      using keys by (metis list.set_map map_of_eq_None_iff)
    ultimately show ?thesis by (simp add: gap_after_def)
  qed
  have v'_simps: "v_producers v' = ps'" "v_votes v' = v_votes v" by (simp_all add: v'_def)
  show ?thesis unfolding w
  proof (rule replace_ledger [OF L' T])
    show "v_votes (v'\<lparr>v_votes := v_votes v + delta, v_update_at := u\<rparr>) = v_votes v' \<or> settled_at core P' v'"
      using loop_settled [OF post] by (simp add: settled_at_def v'_def)
    show "voter_ok core P' n (v'\<lparr>v_votes := v_votes v + delta, v_update_at := u\<rparr>)"
      using v'ok d by (simp add: voter_ok_def)
  qed (simp_all add: gap received_def v'_simps)
qed

text \<open>The state after a change of votes: only the rows of the voter and of its producers move.\<close>

lemma change_vote_ok:
  fixes is_adding :: bool
  assumes C: "cdt_laws C" and I: "reward_inv C s" and x: "indeterminate x = 0"
    and auth: "has_auth x system_account" "has_auth x n" and pos: "0 < votes"
  defines "v \<equiv> vrow (core_symbol s) (rs_voters s) n" and "delta \<equiv> if is_adding then votes else - votes"
  assumes ok: "if is_adding then tsum (\<lambda>_. v_votes) (rs_voters s) + votes \<le> max_amount else votes \<le> v_votes v"
  shows "\<exists>P'. change_vote C x n votes is_adding s = Inr (s\<lparr>rs_producers := P',
        rs_voters := tput n (revoted (core_symbol s) (rs_producers s) delta (to_slot C (now x)) v) (rs_voters s)\<rparr>)
      \<and> same_rpv (core_symbol s) P' (rs_producers s) \<and> reward_inv C (s\<lparr>rs_producers := P',
        rs_voters := tput n (revoted (core_symbol s) (rs_producers s) delta (to_slot C (now x)) v) (rs_voters s)\<rparr>)"
proof -
  let ?core = "core_symbol s" and ?T = "rs_voters s" and ?P = "rs_producers s" and ?u = "to_slot C (now x)"
  have sy: "symbol_is_valid C ?core" and L: "ledger_ok ?core (a_amount (gstate s)) ?T ?P (\<lambda>_. 0)"
    and tot: "tsum (\<lambda>_. v_votes) ?T \<le> max_amount" using I by (auto simp: reward_inv_def)
  have T: "twf ?T" and vok: "voter_ok ?core ?P n v" using ledger_tables [OF L] vrow_ok [OF L] by (auto simp: v_def)
  have "v_votes v \<le> tsum (\<lambda>_. v_votes) (tput n v ?T)"
    using own_votes_le [OF ledger_own_row [OF L, of n, folded v_def], of n v] by (simp add: tfind_tput)
  then have vm: "v_votes v \<le> tsum (\<lambda>_. v_votes) ?T" using T by (simp add: v_def tsum_own_row)
  have d: "0 \<le> v_votes v + delta" "tsum (\<lambda>_. v_votes) ?T + delta \<le> max_amount"
    using ok pos vok tot by (auto simp: delta_def voter_ok_def split: if_splits)
  note pre = change_pre [OF L refl, of n delta, folded v_def, OF d tot]
  obtain P' r ps' where run: "allocate_producer_rewards C x (v_producers v) (v_votes v) delta s (v_unclaimed_rewards v)
        = Inr (s\<lparr>rs_producers := P'\<rparr>, mk_asset (a_amount (v_unclaimed_rewards v) + r) ?core, ps')"
      and post: "loop_post ?core (a_amount (gstate s)) n ?T (v_votes v) delta True (v_producers v) v ?P (\<lambda>_. 0) P' r ps'"
    using allocate_loop_ok [OF C sy T refl pre, of x True] by blast
  have w: "i64 (v_votes v + delta) = v_votes v + delta"
    using d vm vok pos by (intro i64_id) (auto simp: max_amount_def delta_def voter_ok_def split: if_splits)
  have r: "r = total_owed ?core ?P (v_votes v) (v_producers v)" using post by (simp add: loop_post_def)
  have run': "change_vote C x n votes is_adding s = Inr (s\<lparr>rs_producers := P',
        rs_voters := tput n (revoted ?core ?P delta ?u v) ?T\<rparr>)"
    using auth pos ok d w run voter_row_vrow [OF C sy x, of n, folded v_def] loop_map [OF post] r
    by (auto simp: change_vote_def delta_def revoted_def Let_def split: if_splits)
  have "tsum (\<lambda>_. v_votes) (tput n (revoted ?core ?P delta ?u v) ?T) = tsum (\<lambda>_. v_votes) ?T + delta"
    using T tsum_tput_vrow [of ?T "\<lambda>_. v_votes" n ?core] by (simp add: revoted_def v_def)
  then have "reward_inv C (s\<lparr>rs_producers := P', rs_voters := tput n (revoted ?core ?P delta ?u v) ?T\<rparr>)"
    using sy d change_ledger [OF L _ d(1) post] by (simp add: reward_inv_def core_symbol_def gstate_def v_def)
  with run' loop_rpv [OF post] show ?thesis unfolding same_rpv_def by blast
qed

section \<open>Claiming\<close>

text \<open>The part of a claim before the transfer: a voter without votes is not settled.\<close>

definition claimed :: "symbol \<Rightarrow> (name, producer) table \<Rightarrow> block_timestamp \<Rightarrow> voter \<Rightarrow> voter" where
  "claimed core P u v =
     (let v1 = (if 0 < v_votes v then revoted core P 0 u v else v) in
      v1\<lparr>v_claimed_rewards := mk_asset (a_amount (v_claimed_rewards v) + a_amount (v_unclaimed_rewards v1)) core,
         v_unclaimed_rewards := mk_asset 0 core, v_update_at := u\<rparr>)"

text \<open>What a claim pays out.\<close>

definition claimable :: "symbol \<Rightarrow> (name, producer) table \<Rightarrow> voter \<Rightarrow> int" where
  "claimable core P v = a_amount (v_unclaimed_rewards v) + total_owed core P (v_votes v) (v_producers v)"

lemma total_owed_no_votes: "votes \<le> 0 \<Longrightarrow> total_owed core P votes ps = 0"
  by (induction ps) (auto simp: total_owed_def owed_def)

lemma claim_ledger:
  assumes L: "ledger_ok core g T P (\<lambda>_. 0)" and v: "tfind T n = Some v" and vs: "0 < v_votes v"
    and post: "loop_post core g n T (v_votes v) 0 True (v_producers v) v P (\<lambda>_. 0) P' r ps'"
  shows "ledger_ok core g (tput n (claimed core P u v) T) P' (\<lambda>_. 0)"
proof -
  have row: "v = vrow core T n" using v by (simp add: vrow_def)
  have L': "ledger_ok core g (tput n (revoted core P 0 u v) T) P' (\<lambda>_. 0)"
    using change_ledger [OF L row _ post] vs by simp
  have ok: "voter_ok core P' n (revoted core P 0 u v)" using ledger_voter [OF L', of n] by (simp add: tfind_tput)
  have T: "twf T" using ledger_tables [OF L] by simp
  show ?thesis
    using ok vs by (intro replace_ledger [OF L' T])
      (simp_all add: claimed_def Let_def voter_ok_def received_def, simp_all add: revoted_def)
qed

lemma claim_idle_ledger:
  assumes L: "ledger_ok core g T P (\<lambda>_. 0)" and v: "tfind T n = Some v" and vs: "\<not> 0 < v_votes v"
  shows "ledger_ok core g (tput n (claimed core P u v) T) P (\<lambda>_. 0)"
proof -
  have T: "twf T" using ledger_tables [OF L] by simp
  have L': "ledger_ok core g (tput n v T) P (\<lambda>_. 0)" using L tput_same [OF T v] by simp
  show ?thesis
    using ledger_voter [OF L v] vs by (intro replace_ledger [OF L' T])
      (simp_all add: claimed_def Let_def voter_ok_def received_def)
qed

lemma claimable_bound:
  assumes L: "ledger_ok core g (tput n w T) P D" and w: "received n w = c + claimable core Q v"
  shows "c + claimable core Q v \<le> max_amount"
proof -
  have "received n w + allocating (prow core P q) \<le> max_amount" for q
    using ledger_bound [OF L, of n w] by (simp add: tfind_tput)
  moreover have "0 \<le> allocating (prow core P q)" for q using ledger_producer [OF L, of q] by (simp add: producer_ok_def)
  ultimately show ?thesis using w by (smt (verit))
qed

text \<open>A claim settles the voter first.\<close>

lemma claim_settle:
  fixes u :: block_timestamp
  assumes C: "cdt_laws C" and I: "reward_inv C s" and v: "tfind (rs_voters s) n = Some v"
  defines "pay \<equiv> claimable (core_symbol s) (rs_producers s) v"
    and "w \<equiv> claimed (core_symbol s) (rs_producers s) u v"
  shows "\<exists>P' ps'. (if 0 < v_votes v
                 then allocate_producer_rewards C x (v_producers v) (v_votes v) 0 s (v_unclaimed_rewards v)
                 else Inr (s, v_unclaimed_rewards v, v_producers v)) = Inr (s\<lparr>rs_producers := P'\<rparr>, mk_asset pay (core_symbol s), ps')
      \<and> same_rpv (core_symbol s) P' (rs_producers s) \<and> v_producers w = ps' \<and> ledger_ok (core_symbol s) (a_amount (gstate s)) (tput n w (rs_voters s)) P' (\<lambda>_. 0)"
proof (cases "0 < v_votes v")
  let ?core = "core_symbol s" and ?T = "rs_voters s" and ?P = "rs_producers s" and ?g = "a_amount (gstate s)"
  have sy: "symbol_is_valid C ?core" and L: "ledger_ok ?core ?g ?T ?P (\<lambda>_. 0)"
    and tot: "tsum (\<lambda>_. v_votes) ?T \<le> max_amount" using I by (auto simp: reward_inv_def)
  have T: "twf ?T" and vok: "voter_ok ?core ?P n v" using ledger_tables [OF L] ledger_voter [OF L v] by auto
  have row: "v = vrow ?core ?T n" using v by (simp add: vrow_def)
  have sym: "a_symbol (v_unclaimed_rewards v) = ?core" and nn: "0 \<le> v_votes v" using vok by (auto simp: voter_ok_def)
  {
    case True
    note pre = change_pre [OF L row, of 0]
    obtain P' r ps' where run: "allocate_producer_rewards C x (v_producers v) (v_votes v) 0 s (v_unclaimed_rewards v)
        = Inr (s\<lparr>rs_producers := P'\<rparr>, mk_asset (a_amount (v_unclaimed_rewards v) + r) ?core, ps')"
      and post: "loop_post ?core ?g n ?T (v_votes v) 0 True (v_producers v) v ?P (\<lambda>_. 0) P' r ps'"
      using allocate_loop_ok [OF C sy T refl pre, of x True] tot nn by auto
    have "v_producers w = ps'" using loop_map [OF post] True by (simp add: w_def claimed_def Let_def revoted_def)
    then show ?thesis
      using run True claim_ledger [OF L v True post, of u] loop_rpv [OF post] post
      by (auto simp: pay_def claimable_def loop_post_def w_def same_rpv_def)
  next
    case False
    then show ?thesis
      using claim_idle_ledger [OF L v False, of u] sym total_owed_no_votes [of "v_votes v"]
      by (intro exI [of _ ?P] exI [of _ "v_producers v"])
        (auto simp: pay_def claimable_def w_def claimed_def Let_def same_rpv_def)
  }
qed

lemma claim_refused:
  assumes "cdt_laws C" "reward_inv C s" "tfind (rs_voters s) n = Some v"
    "\<not> 0 < claimable (core_symbol s) (rs_producers s) v"
  shows "claim_rewards C x n s = Inl (Check ''no rewards to claim'')"
  using claim_settle [OF assms(1-3), where u = 0 and x = x] assms(3,4) by (auto simp: claim_rewards_def)

lemma claim_rewards_ok:
  assumes C: "cdt_laws C" and I: "reward_inv C s" and v: "tfind (rs_voters s) n = Some v"
  defines "pay \<equiv> claimable (core_symbol s) (rs_producers s) v"
  assumes pos: "0 < pay"
  shows "\<exists>P'. claim_rewards C x n s = Inr (s\<lparr>rs_producers := P',
        rs_voters := tput n (claimed (core_symbol s) (rs_producers s) (to_slot C (now x)) v) (rs_voters s)\<rparr>,
        [Token_transfer [(self x, active_permission)] (self x) n (mk_asset pay (core_symbol s)) ''voted rewards''])
      \<and> same_rpv (core_symbol s) P' (rs_producers s) \<and> reward_inv C (s\<lparr>rs_producers := P',
        rs_voters := tput n (claimed (core_symbol s) (rs_producers s) (to_slot C (now x)) v) (rs_voters s)\<rparr>)"
proof -
  let ?core = "core_symbol s" and ?T = "rs_voters s" and ?P = "rs_producers s" and ?u = "to_slot C (now x)"
  let ?w = "claimed ?core ?P ?u v" and ?g = "a_amount (gstate s)"
  have sy: "symbol_is_valid C ?core" and L: "ledger_ok ?core ?g ?T ?P (\<lambda>_. 0)"
    and tot: "tsum (\<lambda>_. v_votes) ?T \<le> max_amount" using I by (auto simp: reward_inv_def)
  have T: "twf ?T" and vok: "voter_ok ?core ?P n v" using ledger_tables [OF L] ledger_voter [OF L v] by auto
  have row: "v = vrow ?core ?T n" using v by (simp add: vrow_def)
  have sym: "a_symbol (v_unclaimed_rewards v) = ?core" "a_symbol (v_claimed_rewards v) = ?core"
    and nn: "0 \<le> a_amount (v_claimed_rewards v)" "0 \<le> v_votes v" using vok by (auto simp: voter_ok_def)
  obtain P' ps' where run: "(if 0 < v_votes v
                 then allocate_producer_rewards C x (v_producers v) (v_votes v) 0 s (v_unclaimed_rewards v)
                 else Inr (s, v_unclaimed_rewards v, v_producers v)) = Inr (s\<lparr>rs_producers := P'\<rparr>, mk_asset pay ?core, ps')"
      and rpv: "same_rpv ?core P' ?P" and ps': "v_producers ?w = ps'" and L': "ledger_ok ?core ?g (tput n ?w ?T) P' (\<lambda>_. 0)"
    using claim_settle [OF C I v, where u = ?u and x = x] unfolding pay_def by blast
  have w: "?w = v\<lparr>v_producers := ps', v_claimed_rewards := mk_asset (a_amount (v_claimed_rewards v) + pay) ?core,
      v_unclaimed_rewards := mk_asset 0 ?core, v_update_at := ?u\<rparr>"
    using ps' nn total_owed_no_votes [of "v_votes v"]
    by (auto simp: claimed_def Let_def pay_def claimable_def revoted_def)
  have "received n ?w = a_amount (v_claimed_rewards v) + pay" by (simp add: w received_def)
  then have "amount_ok (a_amount (v_claimed_rewards v) + pay)"
    using claimable_bound [OF L', of "a_amount (v_claimed_rewards v)" ?P v] nn pos
    by (intro amount_okI) (auto simp: pay_def)
  then have run': "claim_rewards C x n s = Inr (s\<lparr>rs_producers := P', rs_voters := tput n ?w ?T\<rparr>,
        [Token_transfer [(self x, active_permission)] (self x) n (mk_asset pay ?core) ''voted rewards''])"
    using run pos sym v C by (simp add: claim_rewards_def w cdt_ok)
  have "tsum (\<lambda>_. v_votes) (tput n ?w ?T) = tsum (\<lambda>_. v_votes) ?T"
    using T v by (simp add: tsum_tput w)
  then have "reward_inv C (s\<lparr>rs_producers := P', rs_voters := tput n ?w ?T\<rparr>)"
    using sy tot L' by (simp add: reward_inv_def core_symbol_def gstate_def)
  with run' rpv show ?thesis by blast
qed

text \<open>After a vote or a claim nothing is outstanding beyond the unclaimed balance.\<close>

lemma repriced_owed: "total_owed core P votes (map (\<lambda>(q, _). (q, p_rewards_per_vote (prow core P q))) ps) = 0"
  by (induction ps) (auto simp: total_owed_def owed_def)

lemma revoted_claimable:
  assumes "same_rpv core P' P"
  shows "claimable core P' (revoted core P delta u v) = a_amount (v_unclaimed_rewards (revoted core P delta u v))"
  using total_owed_cong [of core P' P] assms
  by (simp add: claimable_def revoted_def repriced_owed same_rpv_def)

lemma claimed_claimable:
  assumes "same_rpv core P' P" "0 \<le> v_votes v"
  shows "claimable core P' (claimed core P u v) = 0"
  using total_owed_cong [of core P' P] assms
  by (simp add: claimable_def claimed_def Let_def revoted_def repriced_owed same_rpv_def total_owed_no_votes)

end
