(* ===== verification/Reward_Voting.thy ===== *)
theory Reward_Voting
  imports Reward_Actions
begin

text \<open>
  \<open>voteproducer\<close>, \<open>ontransfer\<close>, \<open>regproducer\<close> and \<open>init\<close> of \<open>flon.reward\<close> on the books:
  the merge of the old and the new vote list, the three allocation passes, and a reward payment.
\<close>

section \<open>Merging the vote lists\<close>

definition kept_of :: "name list \<Rightarrow> voted_producer_map \<Rightarrow> voted_producer_map" where
  "kept_of ns m = filter (\<lambda>(q, _). q \<in> set ns) m"

definition removed_of :: "name list \<Rightarrow> voted_producer_map \<Rightarrow> voted_producer_map" where
  "removed_of ns m = filter (\<lambda>(q, _). q \<notin> set ns) m"

definition added_of :: "name list \<Rightarrow> voted_producer_map \<Rightarrow> voted_producer_map" where
  "added_of ns m = map (\<lambda>n. (n, 0)) (filter (\<lambda>n. n \<notin> fst ` set m) ns)"

lemma parts_Nil [simp]:
  "kept_of ns [] = []" "removed_of ns [] = []" "kept_of [] m = []" "removed_of [] m = m" "added_of [] m = []"
  by (simp_all add: kept_of_def removed_of_def added_of_def split_beta)

lemma parts_removed:
  assumes "q \<notin> set ns"
  shows "kept_of ns ((q, i) # m) = kept_of ns m" "removed_of ns ((q, i) # m) = (q, i) # removed_of ns m"
    "added_of ns ((q, i) # m) = added_of ns m"
  using assms by (auto simp: kept_of_def removed_of_def added_of_def intro!: filter_cong arg_cong [where f = "map _"])

lemma parts_added:
  assumes "n \<notin> fst ` set m"
  shows "kept_of (n # ns) m = kept_of ns m" "removed_of (n # ns) m = removed_of ns m"
    "added_of (n # ns) m = (n, 0) # added_of ns m"
  using assms by (auto simp: kept_of_def removed_of_def added_of_def image_iff intro!: filter_cong)

lemma parts_both:
  assumes "q \<notin> set ns" "q \<notin> fst ` set m"
  shows "kept_of (q # ns) ((q, i) # m) = (q, i) # kept_of ns m"
    "removed_of (q # ns) ((q, i) # m) = removed_of ns m" "added_of (q # ns) ((q, i) # m) = added_of ns m"
  using parts_added [OF assms(2), of ns] parts_removed [OF assms(1), of i m]
  by (auto simp: kept_of_def removed_of_def added_of_def)

lemma merge_producers_spec:
  "twf m \<Longrightarrow> sorted_wrt (<) ns \<Longrightarrow> merge_producers m ns = (kept_of ns m, removed_of ns m, added_of ns m)"
proof (induction m ns rule: merge_producers.induct)
  case (1 q i os n ns)
  have os: "\<forall>a \<in> fst ` set os. q < a" "twf os" and ns: "\<forall>a \<in> set ns. n < a" "sorted_wrt (<) ns"
    using "1.prems" by (auto simp: twf_Cons)
  consider "q < n" | "n < q" | "q = n" by (rule linorder_cases)
  then show ?case
  proof cases
    case 1
    then have "q \<notin> set (n # ns)" using ns by auto
    then show ?thesis
      using "1.IH"(1) [OF 1 os(2) "1.prems"(2)] 1 by (simp add: parts_removed del: set_simps)
  next
    case 2
    then have "n \<notin> fst ` set ((q, i) # os)" using os by auto
    then show ?thesis
      using "1.IH"(2) [OF less_not_sym [OF 2] 2 "1.prems"(1) ns(2)] less_not_sym [OF 2] 2 by (simp add: parts_added del: set_simps)
  next
    case 3
    have "n \<notin> fst ` set os" "n \<notin> set ns" using os ns 3 by auto
    then show ?thesis
      using "1.IH"(3) [OF _ _ os(2) ns(2)] 3 by (simp add: parts_both)
  qed
next
  case (2 q i os)
  then show ?case using parts_removed [of q "[]" i os] by (simp add: twf_Cons)
next
  case (3 n ns)
  then show ?case using parts_added [of n "[]" ns] by simp
qed simp

lemma twf_filter: "twf m \<Longrightarrow> twf (filter f m)"
  by (simp add: twf_def sorted_wrt_map sorted_wrt_filter)

lemma twf_parts:
  "twf m \<Longrightarrow> twf (kept_of ns m)" "twf m \<Longrightarrow> twf (removed_of ns m)"
  "sorted_wrt (<) ns \<Longrightarrow> twf (added_of ns m)"
  by (simp_all add: kept_of_def removed_of_def twf_filter added_of_def)
    (simp add: twf_def comp_def sorted_wrt_filter)

lemma tfind_filter_key: "tfind (filter (\<lambda>(q, _). f q) m) a = (if f a then tfind m a else None)"
  by (induction m) auto

lemma tfind_parts:
  "tfind (kept_of ns m) a = (if a \<in> set ns then tfind m a else None)"
  "tfind (removed_of ns m) a = (if a \<in> set ns then None else tfind m a)"
  "tfind (added_of ns m) a = (if a \<in> set ns \<and> tfind m a = None then Some 0 else None)"
proof -
  show "tfind (kept_of ns m) a = (if a \<in> set ns then tfind m a else None)"
    "tfind (removed_of ns m) a = (if a \<in> set ns then None else tfind m a)"
    by (simp_all add: kept_of_def removed_of_def tfind_filter_key)
  have "map_of (map (\<lambda>n. (n, 0 :: int)) xs) a = (if a \<in> set xs then Some 0 else None)" for xs
    by (induction xs) auto
  then show "tfind (added_of ns m) a = (if a \<in> set ns \<and> tfind m a = None then Some 0 else None)"
    unfolding added_of_def by (auto simp: map_of_eq_None_iff)
qed

text \<open>The voted producers after the action: the new list, everything at its current value.\<close>

lemma emplace_all_find:
  "tfind (emplace_all added m) a = (case tfind m a of Some l \<Rightarrow> Some l | None \<Rightarrow> tfind added a)"
  if "distinct (map fst added)"
  using that
proof (induction added arbitrary: m)
  case (Cons e added)
  obtain q l where e: "e = (q, l)" by (cases e)
  have "tfind added q = None" using Cons.prems by (simp add: e map_of_eq_None_iff)
  then show ?case
    using Cons by (auto simp: e emplace_all_def tfind_tput split: option.splits)
qed (simp add: emplace_all_def split: option.split)

lemma twf_emplace_all: "twf m \<Longrightarrow> twf (emplace_all added m)"
  by (induction added arbitrary: m) (auto simp: emplace_all_def twf_tput split: option.split)

section \<open>One allocation pass\<close>

text \<open>
  A pass over some producers that moves the voter's votes along: with \<open>keep\<close> the producers are in
  the map afterwards, without it they are not.
\<close>

definition pass_pre :: "bool \<Rightarrow> name \<Rightarrow> int \<Rightarrow> int \<Rightarrow> voted_producer_map \<Rightarrow> voter \<Rightarrow> bool" where
  "pass_pre keep n vo delta ps v \<longleftrightarrow> distinct (map fst ps)
   \<and> (\<forall>(q, l) \<in> set ps. voted_at v q l vo \<and> (if keep then v_votes v else 0) = vote_share q n v + delta)"

lemma share_room:
  assumes L: "ledger_ok core g V P D" and v: "tfind V n = Some v"
  shows "0 \<le> tsum (vote_share q) V - vote_share q n v"
    "tsum (vote_share q) V - vote_share q n v + v_votes v \<le> tsum (\<lambda>_. v_votes) V"
proof -
  show "0 \<le> tsum (vote_share q) V - vote_share q n v" using ledger_share_row [OF L v, of q] by simp
  have "v_votes v - vote_share q n v \<le> tsum (\<lambda>k w. v_votes w - vote_share q k w) V"
    using ledger_tables [OF L] v
    by (intro tsum_row_le [where f = "\<lambda>k w. v_votes w - vote_share q k w"])
      (auto dest!: ledger_voter [OF L] intro: vote_share_le)
  moreover have "tsum (\<lambda>k w. v_votes w - vote_share q k w) V + tsum (vote_share q) V = tsum (\<lambda>_. v_votes) V"
    using tsum_add [of "\<lambda>k w. v_votes w - vote_share q k w" "vote_share q" V] by simp
  ultimately show "tsum (vote_share q) V - vote_share q n v + v_votes v \<le> tsum (\<lambda>_. v_votes) V" by simp
qed

lemma pass_loop_pre:
  assumes L: "ledger_ok core g (tput n v T) P (\<lambda>_. 0)" and pass: "pass_pre keep n vo delta ps v"
    and m: "tsum (\<lambda>_. v_votes) (tput n v T) \<le> max_amount"
  shows "loop_pre core g n T vo delta ps v P (\<lambda>_. 0)"
proof -
  have v: "tfind (tput n v T) n = Some v" by (simp add: tfind_tput)
  have vv: "0 \<le> v_votes v" using ledger_voter [OF L v] by (simp add: voter_ok_def)
  have "voted_at v q l vo \<and> 0 \<le> tsum (vote_share q) (tput n v T) + delta
      \<and> tsum (vote_share q) (tput n v T) + delta \<le> max_amount" if "(q, l) \<in> set ps" for q l
    using that pass share_room [OF L v, of q] m vv by (auto simp: pass_pre_def split: if_splits)
  then show ?thesis using L pass by (auto simp: loop_pre_def pass_pre_def)
qed

lemma pass_ok:
  fixes P :: "(name, producer) table"
  assumes C: "cdt_laws C" "symbol_is_valid C core" and sc: "core_symbol s = core" and T: "twf T"
    and pass: "pass_pre keep n vo delta ps v" and m: "tsum (\<lambda>_. v_votes) (tput n v T) \<le> max_amount"
    and L: "ledger_ok core g (tput n v T) (rs_producers s) (\<lambda>_. 0)"
    and rpv: "\<And>q. p_rewards_per_vote (prow core (rs_producers s) q) = p_rewards_per_vote (prow core P q)"
  defines "ps' \<equiv> map (\<lambda>(q, _). (q, p_rewards_per_vote (prow core P q))) ps"
  defines "v' \<equiv> settled_voter (remap keep ps' (v_producers v)) (total_owed core P vo ps) v"
  shows "\<exists>P'. allocate_producer_rewards C x ps vo delta s (v_unclaimed_rewards v)
        = Inr (s\<lparr>rs_producers := P'\<rparr>, v_unclaimed_rewards v', ps')
      \<and> ledger_ok core g (tput n v' T) P' (\<lambda>_. 0)
      \<and> (\<forall>q. p_rewards_per_vote (prow core P' q) = p_rewards_per_vote (prow core P q))"
proof -
  obtain P' r qs where run: "allocate_producer_rewards C x ps vo delta s (v_unclaimed_rewards v)
        = Inr (s\<lparr>rs_producers := P'\<rparr>, mk_asset (a_amount (v_unclaimed_rewards v) + r) core, qs)"
      and post: "loop_post core g n T vo delta keep ps v (rs_producers s) (\<lambda>_. 0) P' r qs"
    using allocate_loop_ok [OF C T sc pass_loop_pre [OF L pass m], of x keep] by blast
  have qs: "qs = ps'" using loop_map [OF post] by (simp add: ps'_def rpv)
  have r: "r = total_owed core P vo ps" using post total_owed_cong [OF rpv] by (simp add: loop_post_def)
  have sy: "a_symbol (v_unclaimed_rewards v) = core"
    using ledger_voter [OF L, of n v] by (simp add: tfind_tput voter_ok_def)
  have keys: "map fst ps' = map fst ps" using loop_keys [OF post] qs by simp
  have dist: "distinct (map fst ps')" using pass keys by (simp add: pass_pre_def)
  have "vote_share q n v' = vote_share q n v + delta" if "q \<in> set (map fst ps)" for q
  proof -
    have "tfind ps' q \<noteq> None" "q \<in> fst ` set ps'" using that keys by (metis list.set_map map_of_eq_None_iff)+
    then have "vote_share q n v' = (if keep then v_votes v else 0)"
      by (auto simp: v'_def settled_voter_share tfind_remap [OF dist] split: option.split)
    then show ?thesis using that pass by (auto simp: pass_pre_def)
  qed
  then have "gap_after (map fst ps) delta n T v v' (\<lambda>_. 0) = (\<lambda>_. 0)" by (rule gap_closed [OF T])
  then have "ledger_ok core g (tput n v' T) P' (\<lambda>_. 0)"
    using loop_ledger [OF post] by (simp add: v'_def qs r)
  then show ?thesis using run loop_rpv [OF post] rpv by (auto simp: v'_def qs r sy)
qed

section \<open>Voting for producers\<close>

lemma total_owed_parts:
  "total_owed core P vo (removed_of ns m) + total_owed core P vo (kept_of ns m) = total_owed core P vo m"
  by (induction m) (auto simp: total_owed_def removed_of_def kept_of_def)

text \<open>The row written by \<open>voteproducer\<close>.\<close>

definition voted :: "symbol \<Rightarrow> (name, producer) table \<Rightarrow> name list \<Rightarrow> block_timestamp \<Rightarrow> voter \<Rightarrow> voter" where
  "voted core P ns u v =
     v\<lparr>v_producers := map (\<lambda>q. (q, p_rewards_per_vote (prow core P q))) ns,
       v_unclaimed_rewards := mk_asset (a_amount (v_unclaimed_rewards v)
                                + total_owed core P (v_votes v) (v_producers v)) core, v_update_at := u\<rparr>"

abbreviation repriced :: "symbol \<Rightarrow> (name, producer) table \<Rightarrow> voted_producer_map \<Rightarrow> voted_producer_map" where
  "repriced core P ps \<equiv> map (\<lambda>(q, _). (q, p_rewards_per_vote (prow core P q))) ps"

lemma repriced_cong:
  "(\<And>q. p_rewards_per_vote (prow core P q) = p_rewards_per_vote (prow core Q q)) \<Longrightarrow>
     repriced core P ps = repriced core Q ps"
  by auto

lemma tfind_repriced:
  "tfind (repriced core P ps) q = map_option (\<lambda>_. p_rewards_per_vote (prow core P q)) (tfind ps q)"
  by (induction ps) auto

lemma keys_repriced [simp]: "map fst (repriced core P ps) = map fst ps"
  by (simp add: comp_def split_beta)

lemma tfind_voted:
  "map_of (map (\<lambda>q. (q, p_rewards_per_vote (prow core P q))) ns) q =
     (if q \<in> set ns then Some (p_rewards_per_vote (prow core P q)) else None)"
  by (induction ns) auto

lemma keys_find: "a \<in> fst ` set ps \<longleftrightarrow> tfind ps a \<noteq> None"
  by (simp add: map_of_eq_None_iff)

lemma tfind_remap_repriced:
  assumes "distinct (map fst ps)"
  shows "tfind (remap keep (repriced core P ps) m) a =
     (if tfind ps a = None then tfind m a else if keep then Some (p_rewards_per_vote (prow core P a)) else None)"
proof -
  have "distinct (map fst (repriced core P ps))" using assms unfolding keys_repriced .
  from tfind_remap [OF this, of keep m a] show ?thesis
    unfolding keys_find tfind_repriced by auto
qed

text \<open>Both ways to build the new map give the new vote list at current values.\<close>

lemma new_map:
  fixes core :: symbol and P :: "(name, producer) table"
  assumes m: "twf m" and ns: "sorted_wrt (<) ns"
  defines "W \<equiv> map (\<lambda>q. (q, p_rewards_per_vote (prow core P q))) ns"
  shows "emplace_all (repriced core P (added_of ns m)) (repriced core P (kept_of ns m)) = W"
    "remap True (repriced core P (added_of ns m)) (remap True (repriced core P (kept_of ns m))
       (remap False (repriced core P (removed_of ns m)) m)) = W"
proof -
  have W: "twf W" using ns by (simp add: W_def twf_def comp_def)
  have wf: "twf (repriced core P (kept_of ns m))" "twf (repriced core P (removed_of ns m))"
      "twf (repriced core P (added_of ns m))"
    using same_keys_wf [OF keys_repriced] twf_parts(1,2) [OF m] twf_parts(3) [OF ns] by blast+
  note d = wf [THEN twf_distinct]
  have "tfind (emplace_all (repriced core P (added_of ns m)) (repriced core P (kept_of ns m))) q = tfind W q" for q
    using emplace_all_find [OF d(3), of "repriced core P (kept_of ns m)" q]
    by (auto simp: W_def tfind_voted tfind_repriced tfind_parts split: option.split)
  then show "emplace_all (repriced core P (added_of ns m)) (repriced core P (kept_of ns m)) = W"
    using W wf by (intro twf_ext twf_emplace_all ext) auto
  have "tfind (remap True (repriced core P (added_of ns m)) (remap True (repriced core P (kept_of ns m))
       (remap False (repriced core P (removed_of ns m)) m))) q = tfind W q" for q
    using d unfolding keys_repriced by (auto simp: W_def tfind_voted tfind_remap_repriced tfind_parts)
  then show "remap True (repriced core P (added_of ns m)) (remap True (repriced core P (kept_of ns m))
       (remap False (repriced core P (removed_of ns m)) m)) = W"
    using W m by (intro twf_ext twf_remap ext) auto
qed

text \<open>The three passes over the removed, the kept and the added producers.\<close>

lemma removed_pass:
  assumes "twf (v_producers v)"
  shows "pass_pre False n (v_votes v) (- v_votes v) (removed_of ns (v_producers v)) v"
proof -
  have "tfind (v_producers v) q = Some l" if "(q, l) \<in> set (removed_of ns (v_producers v))" for q l
    using that assms by (simp add: removed_of_def tfind_in_set)
  then show ?thesis
    using twf_distinct [OF twf_parts(2) [OF assms]] by (auto simp: pass_pre_def voted_at_def vote_share_def)
qed

lemma kept_pass:
  assumes "twf (v_producers v)" and w: "v_votes w = v_votes v"
    and "\<And>q. q \<in> set ns \<Longrightarrow> tfind (v_producers w) q = tfind (v_producers v) q"
  shows "pass_pre True n (v_votes v) 0 (kept_of ns (v_producers v)) w"
proof -
  have "voted_at w q l (v_votes v) \<and> v_votes w = vote_share q n w" if "(q, l) \<in> set (kept_of ns (v_producers v))" for q l
  proof -
    have "q \<in> set ns" "tfind (v_producers v) q = Some l"
      using that assms(1) by (auto simp: kept_of_def tfind_in_set)
    then show ?thesis using assms by (simp add: voted_at_def vote_share_def)
  qed
  then show ?thesis using twf_distinct [OF twf_parts(1) [OF assms(1)]] by (auto simp: pass_pre_def)
qed

lemma added_pass:
  assumes "sorted_wrt (<) ns" and w: "v_votes w = v_votes v"
    and "\<And>q. tfind m q = None \<Longrightarrow> tfind (v_producers w) q = None"
  shows "pass_pre True n 0 (v_votes v) (added_of ns m) w"
proof -
  have "voted_at w q l 0 \<and> v_votes w = vote_share q n w + v_votes v" if "(q, l) \<in> set (added_of ns m)" for q l
  proof -
    have "l = 0" "tfind m q = None" using that by (auto simp: added_of_def map_of_eq_None_iff)
    then show ?thesis using assms(3) [of q] w by (simp add: voted_at_def vote_share_def)
  qed
  then show ?thesis using twf_distinct [OF twf_parts(3) [OF assms(1)]] by (auto simp: pass_pre_def)
qed

lemma total_owed_zero: "total_owed core P 0 ps = 0"
  by (simp add: total_owed_no_votes)

lemma passes_ok:
  assumes C: "cdt_laws C" "symbol_is_valid C (core_symbol s)" and T: "twf T" and ns: "sorted_wrt (<) ns"
  defines "core \<equiv> core_symbol s" and "P \<equiv> rs_producers s"
  assumes L: "ledger_ok core g (tput n v T) P (\<lambda>_. 0)" and m: "tsum (\<lambda>_. v_votes) (tput n v T) \<le> max_amount"
  shows "\<exists>P1 P2 P3 out1 out2.
     allocate_producer_rewards C x (removed_of ns (v_producers v)) (v_votes v) (- v_votes v) s (v_unclaimed_rewards v)
       = Inr (s\<lparr>rs_producers := P1\<rparr>, out1, repriced core P (removed_of ns (v_producers v)))
   \<and> allocate_producer_rewards C x (kept_of ns (v_producers v)) (v_votes v) 0 (s\<lparr>rs_producers := P1\<rparr>) out1
       = Inr (s\<lparr>rs_producers := P2\<rparr>, out2, repriced core P (kept_of ns (v_producers v)))
   \<and> allocate_producer_rewards C x (added_of ns (v_producers v)) 0 (v_votes v) (s\<lparr>rs_producers := P2\<rparr>) out2
       = Inr (s\<lparr>rs_producers := P3\<rparr>, v_unclaimed_rewards (voted core P ns u v),
              repriced core P (added_of ns (v_producers v)))
   \<and> ledger_ok core g (tput n (voted core P ns u v) T) P3 (\<lambda>_. 0)"
proof -
  let ?m = "v_producers v"
  let ?R = "repriced core P (removed_of ns ?m)" and ?K = "repriced core P (kept_of ns ?m)"
  let ?A = "repriced core P (added_of ns ?m)"
  have sym0: "core_symbol s = core" by (simp add: core_def)
  have sym: "core_symbol (s\<lparr>rs_producers := Q\<rparr>) = core" for Q by (simp add: core_def core_symbol_def gstate_def)
  have vok: "voter_ok core P n v" using ledger_voter [OF L, of n v] by (simp add: tfind_tput)
  then have wf: "twf ?m" by (simp add: voter_ok_def)
  note C' = C [folded core_def]
  note d = twf_distinct [OF twf_parts(1) [OF wf, of ns]] twf_distinct [OF twf_parts(2) [OF wf, of ns]]
  define v1 where "v1 = settled_voter (remap False ?R ?m) (total_owed core P (v_votes v) (removed_of ns ?m)) v"
  obtain P1 where r1: "allocate_producer_rewards C x (removed_of ns ?m) (v_votes v) (- v_votes v) s (v_unclaimed_rewards v)
        = Inr (s\<lparr>rs_producers := P1\<rparr>, v_unclaimed_rewards v1, ?R)"
      and L1: "ledger_ok core g (tput n v1 T) P1 (\<lambda>_. 0)"
      and p1: "\<And>q. p_rewards_per_vote (prow core P1 q) = p_rewards_per_vote (prow core P q)"
    using pass_ok [OF C' sym0 T removed_pass [OF wf, of n ns] m, of g P x] L unfolding P_def v1_def by blast
  have f1: "tfind (v_producers v1) q = (if q \<in> set ns then tfind ?m q else None)" for q
    using d by (simp add: v1_def tfind_remap_repriced tfind_parts)
  have v1v: "v_votes v1 = v_votes v" by (simp add: v1_def)
  have m1: "tsum (\<lambda>_. v_votes) (tput n v1 T) \<le> max_amount"
    using m share_row [OF T, of "\<lambda>_. v_votes" n v1 v] by (simp add: v1_def)
  define v2 where "v2 = settled_voter (remap True ?K (v_producers v1)) (total_owed core P (v_votes v) (kept_of ns ?m)) v1"
  have "\<exists>P2. allocate_producer_rewards C x (kept_of ns ?m) (v_votes v) 0 (s\<lparr>rs_producers := P1\<rparr>) (v_unclaimed_rewards v1)
        = Inr (s\<lparr>rs_producers := P2\<rparr>, v_unclaimed_rewards v2, ?K)
      \<and> ledger_ok core g (tput n v2 T) P2 (\<lambda>_. 0)
      \<and> (\<forall>q. p_rewards_per_vote (prow core P2 q) = p_rewards_per_vote (prow core P q))"
    using pass_ok [OF C' sym [of P1] T kept_pass [OF wf v1v, of ns n] m1, of g P x] L1 f1 p1
    by (simp add: v2_def)
  then obtain P2 where r2: "allocate_producer_rewards C x (kept_of ns ?m) (v_votes v) 0 (s\<lparr>rs_producers := P1\<rparr>) (v_unclaimed_rewards v1)
        = Inr (s\<lparr>rs_producers := P2\<rparr>, v_unclaimed_rewards v2, ?K)"
      and L2: "ledger_ok core g (tput n v2 T) P2 (\<lambda>_. 0)"
      and p2: "\<And>q. p_rewards_per_vote (prow core P2 q) = p_rewards_per_vote (prow core P q)" by blast
  have f2: "tfind (v_producers v2) q = None" if "tfind ?m q = None" for q
    using d f1 that by (simp add: v2_def tfind_remap_repriced tfind_parts)
  have v2v: "v_votes v2 = v_votes v" by (simp add: v2_def v1v)
  have m2: "tsum (\<lambda>_. v_votes) (tput n v2 T) \<le> max_amount"
    using m share_row [OF T, of "\<lambda>_. v_votes" n v2 v] by (simp add: v2_def v1_def)
  define v3 where "v3 = settled_voter (remap True ?A (v_producers v2)) (total_owed core P 0 (added_of ns ?m)) v2"
  have "\<exists>P3. allocate_producer_rewards C x (added_of ns ?m) 0 (v_votes v) (s\<lparr>rs_producers := P2\<rparr>) (v_unclaimed_rewards v2)
        = Inr (s\<lparr>rs_producers := P3\<rparr>, v_unclaimed_rewards v3, ?A)
      \<and> ledger_ok core g (tput n v3 T) P3 (\<lambda>_. 0)"
    using pass_ok [OF C' sym [of P2] T added_pass [OF ns v2v, of ?m n] m2, of g P x] L2 f2 p2
    by (simp add: v3_def) blast
  then obtain P3 where r3: "allocate_producer_rewards C x (added_of ns ?m) 0 (v_votes v) (s\<lparr>rs_producers := P2\<rparr>) (v_unclaimed_rewards v2)
        = Inr (s\<lparr>rs_producers := P3\<rparr>, v_unclaimed_rewards v3, ?A)"
      and L3: "ledger_ok core g (tput n v3 T) P3 (\<lambda>_. 0)" by blast
  have v3: "voted core P ns u v = v3\<lparr>v_update_at := u\<rparr>"
    using new_map(2) [OF wf ns, of core P] total_owed_parts [of core P "v_votes v" ns ?m] vok
    by (simp add: voted_def v3_def v2_def v1_def settled_voter_def total_owed_zero voter_ok_def algebra_simps)
  have v3ok: "voter_ok core P3 n v3" using ledger_voter [OF L3, of n v3] by (simp add: tfind_tput)
  have "ledger_ok core g (tput n (v3\<lparr>v_update_at := u\<rparr>) T) P3 (\<lambda>_. 0)"
    using v3ok by (intro replace_ledger [OF L3 T]) (simp_all add: voter_ok_def received_def)
  with r1 r2 r3 show ?thesis unfolding v3 by auto
qed

lemma voteproducer_ok:
  assumes C: "cdt_laws C" and I: "reward_inv C s" and x: "indeterminate x = 0"
    and auth: "has_auth x system_account" "has_auth x n" and ns: "ascending ns"
  defines "w \<equiv> voted (core_symbol s) (rs_producers s) ns (to_slot C (now x)) (vrow (core_symbol s) (rs_voters s) n)"
  shows "\<exists>P'. voteproducer C x n ns s = Inr (s\<lparr>rs_producers := P', rs_voters := tput n w (rs_voters s)\<rparr>)
      \<and> reward_inv C (s\<lparr>rs_producers := P', rs_voters := tput n w (rs_voters s)\<rparr>)"
proof -
  let ?core = "core_symbol s" and ?T = "rs_voters s" and ?P = "rs_producers s" and ?g = "a_amount (gstate s)"
  define v where "v = vrow ?core ?T n"
  have sy: "symbol_is_valid C ?core" and L: "ledger_ok ?core ?g ?T ?P (\<lambda>_. 0)"
    and tot: "tsum (\<lambda>_. v_votes) ?T \<le> max_amount" using I by (auto simp: reward_inv_def)
  have T: "twf ?T" and vok: "voter_ok ?core ?P n v" using ledger_tables [OF L] vrow_ok [OF L] by (auto simp: v_def)
  have so: "sorted_wrt (<) ns" using ns by (simp add: ascending_iff)
  have L1: "ledger_ok ?core ?g (tput n v ?T) ?P (\<lambda>_. 0)" using ledger_own_row [OF L] by (simp add: v_def)
  have m: "tsum (\<lambda>_. v_votes) (tput n v ?T) \<le> max_amount" using tot T by (simp add: v_def tsum_own_row)
  have "v_votes v \<le> tsum (\<lambda>_. v_votes) (tput n v ?T)"
    using own_votes_le [OF L1, of n v] by (simp add: tfind_tput)
  then have neg: "i64 (- v_votes v) = - v_votes v"
    using m vok by (intro i64_id) (auto simp: max_amount_def voter_ok_def)
  have wf: "twf (v_producers v)" using vok by (simp add: voter_ok_def)
  obtain P1 P2 P3 out1 out2 where runs:
     "allocate_producer_rewards C x (removed_of ns (v_producers v)) (v_votes v) (- v_votes v) s (v_unclaimed_rewards v)
       = Inr (s\<lparr>rs_producers := P1\<rparr>, out1, repriced ?core ?P (removed_of ns (v_producers v)))"
     "allocate_producer_rewards C x (kept_of ns (v_producers v)) (v_votes v) 0 (s\<lparr>rs_producers := P1\<rparr>) out1
       = Inr (s\<lparr>rs_producers := P2\<rparr>, out2, repriced ?core ?P (kept_of ns (v_producers v)))"
     "allocate_producer_rewards C x (added_of ns (v_producers v)) 0 (v_votes v) (s\<lparr>rs_producers := P2\<rparr>) out2
       = Inr (s\<lparr>rs_producers := P3\<rparr>, v_unclaimed_rewards w, repriced ?core ?P (added_of ns (v_producers v)))"
    and L3: "ledger_ok ?core ?g (tput n w ?T) P3 (\<lambda>_. 0)"
    using passes_ok [OF C sy T so L1 m, of x "to_slot C (now x)"] unfolding w_def v_def [symmetric] by blast
  have w: "w = v\<lparr>v_producers := emplace_all (repriced ?core ?P (added_of ns (v_producers v)))
        (repriced ?core ?P (kept_of ns (v_producers v))), v_unclaimed_rewards := v_unclaimed_rewards w,
        v_update_at := to_slot C (now x)\<rparr>"
    using new_map(1) [OF wf so, of ?core ?P] by (simp add: w_def voted_def v_def)
  have run: "voteproducer C x n ns s = Inr (s\<lparr>rs_producers := P3, rs_voters := tput n w ?T\<rparr>)"
    using auth ns sy neg runs voter_row_vrow [OF C sy x, of n, folded v_def] merge_producers_spec [OF wf so] w [symmetric]
    by (simp add: voteproducer_def check_init_def)
  have "tsum (\<lambda>_. v_votes) (tput n w ?T) = tsum (\<lambda>_. v_votes) ?T"
    using T tsum_tput_vrow [of ?T "\<lambda>_. v_votes" n ?core] by (simp add: w_def voted_def)
  then have "reward_inv C (s\<lparr>rs_producers := P3, rs_voters := tput n w ?T\<rparr>)"
    using sy L3 tot by (simp add: reward_inv_def core_symbol_def gstate_def)
  with run show ?thesis by blast
qed

section \<open>Payments and registration\<close>

lemma tsum_cmult: "tsum (\<lambda>k v. c * f k v) t = c * tsum f t" for c :: int
  by (induction t) (auto simp: distrib_left)

text \<open>A producer row that receives rewards or is registered.\<close>

lemma ledger_producer_row:
  assumes L: "ledger_ok core g V P D" and p: "p = prow core P q"
    and ok: "producer_ok core q p'" and votes: "p_votes p' = p_votes p"
    and rpv: "p_rewards_per_vote p \<le> p_rewards_per_vote p'"
    and books: "allocating p' = allocating p + a" "allocated p' = allocated p" "g + a \<le> max_amount"
    and cover: "p_votes p * (p_rewards_per_vote p' - p_rewards_per_vote p) \<le> a * HIGH_PRECISION" and D: "D q = 0"
  shows "ledger_ok core (g + a) V (tput q p' P) D"
proof -
  note wf = ledger_tables [OF L]
  let ?d = "p_rewards_per_vote p' - p_rewards_per_vote p"
  have voters: "voter_ok core (tput q p' P) k v" if "tfind V k = Some v" for k v
    using ledger_voter [OF L that] rpv unfolding voter_ok_def p by (fastforce simp: prow_tput)
  have "pending q (p_rewards_per_vote p') = (\<lambda>k v. pending q (p_rewards_per_vote p) k v + ?d * vote_share q k v)"
    by (auto simp: pending_def vote_share_def algebra_simps fun_eq_iff split: option.split)
  then have "tsum (pending q (p_rewards_per_vote p')) V = tsum (pending q (p_rewards_per_vote p)) V + ?d * tsum (vote_share q) V"
    using tsum_add [of "pending q (p_rewards_per_vote p)" "\<lambda>k v. ?d * vote_share q k v" V]
    by (simp add: tsum_cmult)
  moreover have "tsum (vote_share q) V = p_votes p" using ledger_votes [OF L, of q] D p by simp
  ultimately have pend: "tsum (pending q (p_rewards_per_vote p')) V \<le> allocating p' * HIGH_PRECISION"
    using ledger_pending [OF L, of q] cover books(1) p by (simp add: algebra_simps)
  have tot: "a_amount (p_total_rewards p') = a_amount (p_total_rewards p) + a"
    using ok ledger_producer [OF L, of q] books p by (simp add: producer_ok_def)
  have sums: "tsum (\<lambda>_ p. a_amount (p_total_rewards p)) (tput q p' P) = tsum (\<lambda>_ p. a_amount (p_total_rewards p)) P + a"
    "tsum (\<lambda>_. allocated) (tput q p' P) = tsum (\<lambda>_. allocated) P"
    using wf tot books(2) p by (simp_all add: tsum_tput_prow [where core = core] zero_producer_def)
  show ?thesis
    unfolding ledger_ok_def
  proof (intro conjI allI impI)
    show "tsum (pending r (p_rewards_per_vote (prow core (tput q p' P) r))) V
        \<le> allocating (prow core (tput q p' P) r) * HIGH_PRECISION" for r
      using pend ledger_pending [OF L, of r] by (simp add: prow_tput)
    show "p_votes (prow core (tput q p' P) r) = tsum (vote_share r) V + D r" for r
      using ledger_votes [OF L, of r] ledger_votes [OF L, of q] votes p by (simp add: prow_tput)
    show "producer_ok core r (prow core (tput q p' P) r)" for r
      using ok ledger_producer [OF L, of r] by (simp add: prow_tput)
    show "voter_ok core (tput q p' P) k v" if "tfind V k = Some v" for k v by (rule voters [OF that])
  qed (use wf sums L books in \<open>simp_all add: twf_tput ledger_ok_def\<close>)
qed

lemma calc_rewards_per_vote_ok:
  assumes "calc_rewards_per_vote old q votes = Inr r" "a_amount q \<le> max_amount"
    "0 \<le> old" "old \<le> t * HIGH_PRECISION" "t + a_amount q \<le> max_amount" "0 \<le> votes"
  shows "0 \<le> a_amount q"
    "r = old + (if 0 < votes then a_amount q * HIGH_PRECISION div votes else 0)"
proof -
  let ?x = "a_amount q * HIGH_PRECISION"
  show nn: "0 \<le> a_amount q" using assms(1) by (simp add: calc_rewards_per_vote_def split: if_splits)
  show "r = old + (if 0 < votes then ?x div votes else 0)"
  proof (cases "0 < a_amount q \<and> 0 < votes")
    case True
    have b: "t * HIGH_PRECISION + ?x < 2 ^ 127"
      using rpv_bound [OF order_refl assms(5)] by (simp add: distrib_right)
    have xt: "0 \<le> ?x" "?x div votes \<le> ?x" "0 \<le> ?x div votes"
      using nn True HP_pos zdiv_mono2 [of ?x 1 votes] by (simp_all add: pos_imp_zdiv_nonneg_iff)
    have "i128 ?x = ?x" using xt b assms(3,4) by (intro i128_id) linarith+
    moreover have "cdiv ?x votes = ?x div votes" using xt True by (intro cdiv_nonneg) auto
    moreover have "i128 (old + ?x div votes) = old + ?x div votes"
      using xt b assms(3,4) by (intro i128_id) linarith+
    ultimately show ?thesis using assms(1) True by (auto simp: calc_rewards_per_vote_def Let_def split: if_splits)
  next
    case False
    then show ?thesis using assms(1) nn by (auto simp: calc_rewards_per_vote_def split: if_splits)
  qed
qed

text \<open>The producer row after a payment.\<close>

definition credited :: "int \<Rightarrow> symbol \<Rightarrow> block_timestamp \<Rightarrow> producer \<Rightarrow> producer" where
  "credited a core u p =
     p\<lparr>p_total_rewards := mk_asset (a_amount (p_total_rewards p) + a) core,
       p_allocating_rewards := mk_asset (allocating p + a) core,
       p_rewards_per_vote := p_rewards_per_vote p + (if 0 < p_votes p then a * HIGH_PRECISION div p_votes p else 0),
       p_update_at := u\<rparr>"

lemma credited_ok:
  assumes "producer_ok core q p" "0 \<le> a"
  shows "producer_ok core q (credited a core u p)"
    "p_votes p * (p_rewards_per_vote (credited a core u p) - p_rewards_per_vote p) \<le> a * HIGH_PRECISION"
    "p_rewards_per_vote p \<le> p_rewards_per_vote (credited a core u p)"
proof -
  let ?x = "a * HIGH_PRECISION" and ?r = "if 0 < p_votes p then a * HIGH_PRECISION div p_votes p else 0"
  have x: "0 \<le> ?x" using assms(2) HP_pos by simp
  then have r: "0 \<le> ?r" "?r \<le> ?x"
    using zdiv_mono2 [of ?x 1 "p_votes p"] by (auto simp: pos_imp_zdiv_nonneg_iff)
  show "p_rewards_per_vote p \<le> p_rewards_per_vote (credited a core u p)" using r by (simp add: credited_def)
  have "p_votes p * (?x div p_votes p) \<le> ?x" if "0 < p_votes p"
    using that pos_mod_sign [of "p_votes p" ?x] mult_div_mod_eq [of "p_votes p" ?x] by linarith
  then show "p_votes p * (p_rewards_per_vote (credited a core u p) - p_rewards_per_vote p) \<le> ?x"
    using x by (simp add: credited_def)
  have "p_rewards_per_vote p + ?r \<le> (allocating p + a + allocated p) * HIGH_PRECISION"
    using r assms(1) by (simp add: producer_ok_def algebra_simps)
  then show "producer_ok core q (credited a core u p)"
    using assms r by (simp add: credited_def producer_ok_def)
qed

lemma ontransfer_ok:
  assumes C: "cdt_laws C" and I: "reward_inv C s" and run: "ontransfer C x n to quantity memo s = Inr s'"
    and pay: "first_receiver x = token_account" "a_symbol quantity = core_symbol s" "n \<noteq> self x" "to = self x"
  shows "\<exists>p. tfind (rs_producers s) n = Some p \<and> p_is_registered p \<and> 0 \<le> a_amount quantity
      \<and> s' = s\<lparr>rs_global := Some (mk_asset (a_amount (gstate s) + a_amount quantity) (core_symbol s)),
             rs_producers := tput n (credited (a_amount quantity) (core_symbol s) (to_slot C (now x)) p) (rs_producers s)\<rparr>
      \<and> reward_inv C s'"
proof -
  let ?core = "core_symbol s" and ?a = "a_amount quantity" and ?g = "a_amount (gstate s)"
  have sy: "symbol_is_valid C ?core" and L: "ledger_ok ?core ?g (rs_voters s) (rs_producers s) (\<lambda>_. 0)"
    using I by (auto simp: reward_inv_def)
  obtain p rpv where p: "tfind (rs_producers s) n = Some p" "p_is_registered p"
    and amt: "amount_ok (?g + ?a)"
    and calc: "calc_rewards_per_vote (p_rewards_per_vote p) quantity (p_votes p) = Inr rpv"
    and s': "s' = s\<lparr>rs_global := Some (mk_asset (?g + ?a) ?core),
        rs_producers := tput n (p\<lparr>p_total_rewards := mk_asset (a_amount (p_total_rewards p) + ?a) (a_symbol (p_total_rewards p)),
          p_allocating_rewards := mk_asset (allocating p + ?a) (a_symbol (p_allocating_rewards p)),
          p_rewards_per_vote := rpv, p_update_at := to_slot C (now x)\<rparr>) (rs_producers s)\<rparr>"
    using run pay C by (auto simp: ontransfer_def cdt_inv core_symbol_def split: option.splits)
  have row: "prow ?core (rs_producers s) n = p" using p by (simp add: prow_def)
  have pok: "producer_ok ?core n p" using ledger_producer [OF L, of n] row by simp
  have tp: "allocating p + allocated p \<le> ?g"
  proof -
    have "producer_ok ?core k w" if "tfind (rs_producers s) k = Some w" for k w
      using ledger_producer [OF L, of k] that by (simp add: prow_def)
    then have "a_amount (p_total_rewards p) \<le> tsum (\<lambda>_ p. a_amount (p_total_rewards p)) (rs_producers s)"
      using ledger_tables [OF L] p(1) by (intro tsum_row_le) (auto simp: producer_ok_def)
    then show ?thesis using L pok by (simp add: ledger_ok_def producer_ok_def)
  qed
  have "0 \<le> ?g" using tp pok by (simp add: producer_ok_def)
  then have b: "?a \<le> max_amount" "allocating p + allocated p + ?a \<le> max_amount"
    using amt tp by (auto simp: amount_ok_def)
  note c = calc_rewards_per_vote_ok [OF calc b(1) _ _ b(2)]
  have nn: "0 \<le> ?a" and rpv: "rpv = p_rewards_per_vote p + (if 0 < p_votes p then ?a * HIGH_PRECISION div p_votes p else 0)"
    using c pok by (auto simp: producer_ok_def)
  have eq: "s' = s\<lparr>rs_global := Some (mk_asset (?g + ?a) ?core),
             rs_producers := tput n (credited ?a ?core (to_slot C (now x)) p) (rs_producers s)\<rparr>"
    using s' rpv pok by (simp add: credited_def producer_ok_def)
  have "ledger_ok ?core (?g + ?a) (rs_voters s) (tput n (credited ?a ?core (to_slot C (now x)) p) (rs_producers s)) (\<lambda>_. 0)"
    using amt credited_ok [OF pok nn, of "to_slot C (now x)"]
    by (intro ledger_producer_row [OF L row [symmetric]]) (simp_all add: amount_ok_def, simp_all add: credited_def)
  then have "reward_inv C s'" using I by (simp add: eq reward_inv_def core_symbol_def gstate_def)
  with p nn eq show ?thesis by blast
qed

lemma regproducer_ok:
  assumes C: "cdt_laws C" and I: "reward_inv C s" and auth: "has_auth x n" "is_account x n"
  shows "\<exists>p. regproducer C x n s = Inr (s\<lparr>rs_producers := tput n p (rs_producers s)\<rparr>)
     \<and> p = (prow (core_symbol s) (rs_producers s) n)\<lparr>p_is_registered := True, p_update_at := to_slot C (now x)\<rparr>
     \<and> reward_inv C (s\<lparr>rs_producers := tput n p (rs_producers s)\<rparr>)"
proof -
  let ?core = "core_symbol s" and ?p = "prow (core_symbol s) (rs_producers s) n"
  let ?p' = "?p\<lparr>p_is_registered := True, p_update_at := to_slot C (now x)\<rparr>"
  have sy: "symbol_is_valid C ?core" and L: "ledger_ok ?core (a_amount (gstate s)) (rs_voters s) (rs_producers s) (\<lambda>_. 0)"
    using I by (auto simp: reward_inv_def)
  have "ledger_ok ?core (a_amount (gstate s) + 0) (rs_voters s) (tput n ?p' (rs_producers s)) (\<lambda>_. 0)"
    using ledger_producer [OF L, of n] L
    by (intro ledger_producer_row [OF L refl]) (simp_all add: producer_ok_def ledger_ok_def)
  then have "reward_inv C (s\<lparr>rs_producers := tput n ?p' (rs_producers s)\<rparr>)"
    using I by (simp add: reward_inv_def core_symbol_def gstate_def)
  then show ?thesis
    using auth sy producer_row_prow [OF C sy, of n] by (simp add: regproducer_def check_init_def)
qed

lemma init_ok:
  assumes C: "cdt_laws C" and run: "init C x core reward_empty = Inr s'"
  shows "reward_inv C s'" "core_symbol s' = core"
proof -
  have s': "s' = reward_empty\<lparr>rs_global := Some (mk_asset 0 core)\<rparr>" "symbol_is_valid C core"
    using run C by (auto simp: init_def cdt_inv)
  then show "core_symbol s' = core" by (simp add: core_symbol_def gstate_def)
  have "producer_ok core q (zero_producer core q)" for q by (simp add: producer_ok_def zero_producer_def)
  then show "reward_inv C s'"
    using s' max_amount_pos
    by (simp add: reward_inv_def core_symbol_def gstate_def ledger_ok_def reward_empty_def prow_def)
      (simp add: zero_producer_def)
qed

end
