(* ===== verification/Reward_Props.thy ===== *)
theory Reward_Props
  imports Reward_Voting
begin

text \<open>
  The properties of \<open>flon.reward\<close>: every state its actions reach keeps the books, the contract
  can pay every voter at any time, voting never aborts, and a claim pays exactly what is owed.
\<close>

section \<open>Reachable states\<close>

datatype reward_action =
    Init ctx symbol
  | Regproducer ctx name
  | Addvote ctx name int
  | Subvote ctx name int
  | Voteproducer ctx name "name list"
  | Claimrewards ctx name
  | Claimfor ctx name name
  | Ontransfer ctx name name asset string

definition silent :: "reward_state res \<Rightarrow> (reward_state \<times> inline_action list) res" where
  "silent r = rbind r (\<lambda>s. Inr (s, []))"

fun reward_exec :: "cdt \<Rightarrow> reward_action \<Rightarrow> reward_state \<Rightarrow> (reward_state \<times> inline_action list) res" where
  "reward_exec C (Init x core) s = silent (init C x core s)"
| "reward_exec C (Regproducer x p) s = silent (regproducer C x p s)"
| "reward_exec C (Addvote x n votes) s = silent (addvote C x n votes s)"
| "reward_exec C (Subvote x n votes) s = silent (subvote C x n votes s)"
| "reward_exec C (Voteproducer x n ps) s = silent (voteproducer C x n ps s)"
| "reward_exec C (Claimrewards x n) s = claimrewards C x n s"
| "reward_exec C (Claimfor x c n) s = claimfor C x c n s"
| "reward_exec C (Ontransfer x from to quantity memo) s = silent (ontransfer C x from to quantity memo s)"

text \<open>
  What the environment guarantees: the votes are stakes of the core token, so that they never add
  up to more than an asset can hold, and a fresh voter row starts without votes.
\<close>

fun admissible :: "reward_action \<Rightarrow> reward_state \<Rightarrow> bool" where
  "admissible (Addvote x n votes) s \<longleftrightarrow>
     indeterminate x = 0 \<and> tsum (\<lambda>_. v_votes) (rs_voters s) + votes \<le> max_amount"
| "admissible (Subvote x n votes) s \<longleftrightarrow> indeterminate x = 0"
| "admissible (Voteproducer x n ps) s \<longleftrightarrow> indeterminate x = 0"
| "admissible _ s \<longleftrightarrow> True"

inductive reward_reachable :: "cdt \<Rightarrow> reward_state \<Rightarrow> bool" for C where
  deployed: "reward_reachable C reward_empty"
| executed: "reward_reachable C s \<Longrightarrow> admissible a s \<Longrightarrow> reward_exec C a s = Inr (s', outs) \<Longrightarrow>
    reward_reachable C s'"

text \<open>Before \<open>init\<close> nothing but \<open>init\<close> gets through.\<close>

lemma empty_exec:
  assumes C: "cdt_laws C" and run: "reward_exec C a reward_empty = Inr (s', outs)"
  shows "s' = reward_empty \<or> reward_inv C s'"
proof -
  have "\<not> check_init C reward_empty"
    using null_symbol_invalid [OF C]
    by (simp add: check_init_def core_symbol_def gstate_def reward_empty_def null_asset_def)
  moreover have "tfind (rs_producers reward_empty) n = None" for n by (simp add: reward_empty_def)
  ultimately show ?thesis
    using run init_ok(1) [OF C]
    by (cases a) (auto simp: silent_def regproducer_def addvote_def subvote_def voteproducer_def
        claimrewards_def claimfor_def ontransfer_def split: if_splits)
qed

lemma change_vote_inv:
  assumes C: "cdt_laws C" and I: "reward_inv C s" and x: "indeterminate x = 0"
    and room: "is_adding \<Longrightarrow> tsum (\<lambda>_. v_votes) (rs_voters s) + votes \<le> max_amount"
    and run: "change_vote C x n votes is_adding s = Inr s'"
  shows "reward_inv C s'"
proof -
  have sy: "symbol_is_valid C (core_symbol s)" using I by (simp add: reward_inv_def)
  have g: "has_auth x system_account" "has_auth x n" "0 < votes"
    using run by (auto simp: change_vote_def split: if_splits)
  have "is_adding \<or> votes \<le> v_votes (vrow (core_symbol s) (rs_voters s) n)"
    using run g voter_row_vrow [OF C sy x, of n] by (auto simp: change_vote_def split: if_splits)
  then have "if is_adding then tsum (\<lambda>_. v_votes) (rs_voters s) + votes \<le> max_amount
      else votes \<le> v_votes (vrow (core_symbol s) (rs_voters s) n)"
    using room by auto
  from change_vote_ok [OF C I x g this] show ?thesis using run by auto
qed

lemma claim_rewards_inv:
  assumes C: "cdt_laws C" and I: "reward_inv C s" and run: "claim_rewards C x n s = Inr (s', outs)"
  shows "reward_inv C s'"
proof -
  obtain v where v: "tfind (rs_voters s) n = Some v"
    using run by (auto simp: claim_rewards_def split: option.splits)
  show ?thesis
  proof (cases "0 < claimable (core_symbol s) (rs_producers s) v")
    case True
    then show ?thesis using claim_rewards_ok [OF C I v True, of x] run by auto
  next
    case False
    then show ?thesis using claim_refused [OF C I v False, of x] run by simp
  qed
qed

lemma exec_inv:
  assumes C: "cdt_laws C" and I: "reward_inv C s" and adm: "admissible a s" and run: "reward_exec C a s = Inr (s', outs)"
  shows "reward_inv C s'"
proof (cases a)
  case (Init x core)
  then show ?thesis using run I by (auto simp: silent_def init_def reward_inv_def)
next
  case (Regproducer x p)
  then show ?thesis
    using run regproducer_ok [OF C I, of x p] by (auto simp: silent_def) (auto simp: regproducer_def)
next
  case (Addvote x n votes)
  then show ?thesis using run adm change_vote_inv [OF C I, of x True votes n s'] by (auto simp: silent_def addvote_def)
next
  case (Subvote x n votes)
  then show ?thesis using run adm change_vote_inv [OF C I, of x False votes n s'] by (auto simp: silent_def subvote_def)
next
  case (Voteproducer x n ps)
  then have "has_auth x system_account" "has_auth x n" "ascending ps" "indeterminate x = 0"
    using run adm by (auto simp: silent_def voteproducer_def split: if_splits)
  then show ?thesis using run voteproducer_ok [OF C I, of x n ps] Voteproducer by (auto simp: silent_def)
next
  case (Claimrewards x n)
  then show ?thesis using run claim_rewards_inv [OF C I] by (auto simp: claimrewards_def)
next
  case (Claimfor x c n)
  then show ?thesis using run claim_rewards_inv [OF C I] by (auto simp: claimfor_def)
next
  case (Ontransfer x n to q memo)
  then have on: "ontransfer C x n to q memo s = Inr s'" using run by (simp add: silent_def)
  show ?thesis
  proof (cases "first_receiver x = token_account \<and> a_symbol q = core_symbol s \<and> n \<noteq> self x \<and> to = self x")
    case True
    then show ?thesis using ontransfer_ok [OF C I on] by blast
  next
    case False
    then have "s' = s" using on unfolding ontransfer_def by (simp split: if_splits)
    then show ?thesis using I by simp
  qed
qed

lemma reachable_inv:
  assumes C: "cdt_laws C" and "reward_reachable C s"
  shows "s = reward_empty \<or> reward_inv C s"
  using assms(2)
proof induction
  case (executed s a s' outs)
  then show ?case using empty_exec [OF C, of a s' outs] exec_inv [OF C, of s a s' outs] by auto
qed simp

lemma reachable_init:
  assumes "cdt_laws C" "reward_reachable C s" "check_init C s"
  shows "reward_inv C s"
  using reachable_inv [OF assms(1,2)] assms(3) null_symbol_invalid [OF assms(1)]
  by (auto simp: check_init_def core_symbol_def gstate_def reward_empty_def null_asset_def)

section \<open>Solvency\<close>

definition owed_by :: "symbol \<Rightarrow> (name, producer) table \<Rightarrow> name \<Rightarrow> name \<Rightarrow> voter \<Rightarrow> int" where
  "owed_by core P q k v = (case tfind (v_producers v) q of None \<Rightarrow> 0 | Some l \<Rightarrow> owed (v_votes v) l (prow core P q))"

lemma total_owed_by:
  assumes v: "voter_ok core P k v"
  shows "total_owed core P (v_votes v) (v_producers v) = (\<Sum>q\<in>tkeys P. owed_by core P q k v)"
proof -
  let ?m = "v_producers v"
  have wf: "twf ?m" using v by (simp add: voter_ok_def)
  have "total_owed core P (v_votes v) ?m = tsum (\<lambda>q l. owed (v_votes v) l (prow core P q)) ?m"
    by (simp add: total_owed_def tsum_def)
  also have "\<dots> = (\<Sum>q\<in>tkeys ?m. owed_by core P q k v)"
    using tsum_total [OF wf] by (simp add: tbl.total_def owed_by_def)
  also have "\<dots> = (\<Sum>q\<in>tkeys ?m \<union> tkeys P. owed_by core P q k v)"
    by (rule sum.mono_neutral_left) (auto simp: tbl.finite_keys, auto simp: tbl.keys_dom owed_by_def split: option.split)
  also have "\<dots> = (\<Sum>q\<in>tkeys P. owed_by core P q k v)"
  proof (rule sum.mono_neutral_right)
    show "\<forall>q\<in>tkeys ?m \<union> tkeys P - tkeys P. owed_by core P q k v = 0"
    proof
      fix q assume "q \<in> tkeys ?m \<union> tkeys P - tkeys P"
      then have z: "prow core P q = zero_producer core q" by (auto simp: tbl.keys_dom prow_def split: option.split)
      have "l = 0" if "tfind ?m q = Some l" for l
        using v that z by (force simp: voter_ok_def zero_producer_def)
      then show "owed_by core P q k v = 0" using z by (auto simp: owed_by_def owed_def zero_producer_def split: option.split)
    qed
  qed (auto simp: tbl.finite_keys)
  finally show ?thesis .
qed

lemma owed_by_covered:
  assumes L: "ledger_ok core g V P D"
  shows "tsum (owed_by core P q) V \<le> allocating (prow core P q)"
proof -
  have "owed_by core P q k v * HIGH_PRECISION \<le> pending q (p_rewards_per_vote (prow core P q)) k v" if "tfind V k = Some v" for k v
  proof (cases "tfind (v_producers v) q")
    case (Some l)
    then have "voted_at v q l (v_votes v)" by (simp add: voted_at_def)
    from owed_bounds(5) [OF L that this] show ?thesis using Some by (simp add: owed_by_def)
  qed (simp add: owed_by_def pending_def)
  then have "tsum (\<lambda>k v. HIGH_PRECISION * owed_by core P q k v) V \<le> allocating (prow core P q) * HIGH_PRECISION"
    using ledger_pending [OF L, of q] ledger_tables [OF L]
      tsum_mono [of V "\<lambda>k v. HIGH_PRECISION * owed_by core P q k v" "pending q (p_rewards_per_vote (prow core P q))"]
    by (simp add: mult.commute)
  then show ?thesis using HP_pos by (simp add: tsum_cmult mult.commute)
qed

text \<open>What all producers owe to all voters is in the allocating pots.\<close>

lemma all_owed_covered:
  assumes L: "ledger_ok core g V P D"
  shows "tsum (\<lambda>k v. total_owed core P (v_votes v) (v_producers v)) V \<le> tsum (\<lambda>_. allocating) P"
proof -
  note wf = ledger_tables [OF L]
  have "tsum (\<lambda>k v. total_owed core P (v_votes v) (v_producers v)) V
      = tsum (\<lambda>k v. \<Sum>q\<in>tkeys P. owed_by core P q k v) V"
    using wf total_owed_by ledger_voter [OF L] by (intro tsum_cong) auto
  also have "\<dots> = (\<Sum>k\<in>tkeys V. \<Sum>q\<in>tkeys P. case tfind V k of None \<Rightarrow> 0 | Some v \<Rightarrow> owed_by core P q k v)"
    using wf by (auto simp: tsum_total tbl.total_def intro!: sum.cong split: option.split)
  also have "\<dots> = (\<Sum>q\<in>tkeys P. tsum (owed_by core P q) V)"
    using wf by (subst sum.swap) (simp add: tsum_total tbl.total_def)
  also have "\<dots> \<le> (\<Sum>q\<in>tkeys P. allocating (prow core P q))"
    by (rule sum_mono) (rule owed_by_covered [OF L])
  also have "\<dots> = tsum (\<lambda>_. allocating) P"
    using wf by (auto simp: tsum_total tbl.total_def prow_def tbl.keys_dom intro!: sum.cong)
  finally show ?thesis .
qed

text \<open>The claims of all voters together.\<close>

lemma claims_covered:
  assumes "reward_inv C s"
  shows "tsum (\<lambda>_. claimable (core_symbol s) (rs_producers s)) (rs_voters s)
      \<le> a_amount (gstate s) - tsum (\<lambda>_ v. a_amount (v_claimed_rewards v)) (rs_voters s)"
proof -
  have L: "ledger_ok (core_symbol s) (a_amount (gstate s)) (rs_voters s) (rs_producers s) (\<lambda>_. 0)"
    using assms by (simp add: reward_inv_def)
  show ?thesis
    using all_owed_covered [OF L] ledger_total [OF L]
    by (simp add: received_def [abs_def] claimable_def [abs_def] tsum_add)
qed

section \<open>A sample run\<close>

text \<open>A producer registers, two voters vote for it, it pays a reward of 1000.\<close>

fun reward_run :: "cdt \<Rightarrow> reward_action list \<Rightarrow> reward_state \<Rightarrow> reward_state option" where
  "reward_run C [] s = Some s"
| "reward_run C (a # as) s =
     (if admissible a s then case reward_exec C a s of Inl _ \<Rightarrow> None | Inr (s', _) \<Rightarrow> reward_run C as s'
      else None)"

lemma reward_run_reachable: "reward_run C as s = Some s' \<Longrightarrow> reward_reachable C s \<Longrightarrow> reward_reachable C s'"
  by (induction as arbitrary: s) (force split: if_splits sum.splits intro: reward_reachable.executed)+

definition demo_reward_actions :: "reward_action list" where
  "demo_reward_actions =
    [Init (demo_ctx reward_account [system_account]) demo_symbol,
     Regproducer (demo_ctx reward_account [bob]) bob,
     Addvote (demo_ctx reward_account [system_account, alice]) alice 300,
     Voteproducer (demo_ctx reward_account [system_account, alice]) alice [bob],
     Addvote (demo_ctx reward_account [system_account, carol]) carol 400,
     Voteproducer (demo_ctx reward_account [system_account, carol]) carol [bob],
     Ontransfer ((demo_ctx reward_account [bob])\<lparr>first_receiver := token_account\<rparr>) bob reward_account
       (mk_asset 1000 demo_symbol) []]"

definition demo_bob :: producer where
  "demo_bob = \<lparr>p_owner = bob, p_is_registered = True, p_total_rewards = mk_asset 1000 demo_symbol,
     p_allocating_rewards = mk_asset 1000 demo_symbol, p_allocated_rewards = mk_asset 0 demo_symbol,
     p_votes = 700, p_rewards_per_vote = 1428571428571428571, p_update_at = 1506630400\<rparr>"

definition demo_voter :: "name \<Rightarrow> int \<Rightarrow> voter" where
  "demo_voter n votes = \<lparr>v_owner = n, v_votes = votes, v_producers = [(bob, 0)],
     v_unclaimed_rewards = mk_asset 0 demo_symbol, v_claimed_rewards = mk_asset 0 demo_symbol,
     v_update_at = 1506630400\<rparr>"

definition demo_reward :: reward_state where
  "demo_reward = \<lparr>rs_global = Some (mk_asset 1000 demo_symbol),
     rs_voters = [(alice, demo_voter alice 300), (carol, demo_voter carol 400)],
     rs_producers = [(bob, demo_bob)]\<rparr>"

lemma demo_reward_run: "reward_run cdt_ref demo_reward_actions reward_empty = Some demo_reward"
  by code_simp

lemma demo_reward_reachable: "reward_reachable cdt_ref demo_reward"
  using reward_run_reachable [OF demo_reward_run reward_reachable.deployed] .

lemma demo_reward_init: "check_init cdt_ref demo_reward"
  by (simp add: check_init_def core_symbol_def gstate_def demo_reward_def)

section \<open>Properties\<close>

text \<open>A claim depends on its environment only through the contract account and the time.\<close>

lemma allocate_env:
  assumes "now y = now x"
  shows "allocate_producer_rewards C y ps vo d s out = allocate_producer_rewards C x ps vo d s out"
proof (induction ps arbitrary: s out)
  case (Cons a ps)
  have "allocate_one C y = allocate_one C x" unfolding allocate_one_def [abs_def] assms ..
  then show ?case using Cons.IH by (cases a) simp
qed simp

lemma claim_rewards_env:
  assumes "self y = self x" "now y = now x"
  shows "claim_rewards C y n s = claim_rewards C x n s"
  unfolding claim_rewards_def assms allocate_env [OF assms(2)] ..

lemma vote_share_mem: "vote_share q k v = (if q \<in> set (map fst (v_producers v)) then v_votes v else 0)"
  using map_of_eq_None_iff [of "v_producers v" q] by (auto simp: vote_share_def split: option.split)

text \<open>C25: in every reachable state the books balance and the contract is solvent: everything paid in
  is either already received by voters or still in the allocating pots, the votes of a producer are
  the votes of its voters, and what all voters together could claim right now is covered by what was
  paid in and has not been claimed.\<close>
theorem reward_solvency:
  assumes "cdt_laws C" "reward_reachable C s" "check_init C s"
  shows "a_amount (gstate s) = tsum (\<lambda>_ v. a_amount (v_unclaimed_rewards v)) (rs_voters s)
      + tsum (\<lambda>_ v. a_amount (v_claimed_rewards v)) (rs_voters s) + tsum (\<lambda>_. allocating) (rs_producers s)
    \<and> (\<forall>q p. tfind (rs_producers s) q = Some p \<longrightarrow> p_votes p = tsum (vote_share q) (rs_voters s))
    \<and> tsum (\<lambda>_. claimable (core_symbol s) (rs_producers s)) (rs_voters s)
      \<le> a_amount (gstate s) - tsum (\<lambda>_ v. a_amount (v_claimed_rewards v)) (rs_voters s)"
proof -
  have L: "ledger_ok (core_symbol s) (a_amount (gstate s)) (rs_voters s) (rs_producers s) (\<lambda>_. 0)"
    using reachable_init [OF assms] by (simp add: reward_inv_def)
  have eq: "a_amount (gstate s) = tsum (\<lambda>_ v. a_amount (v_unclaimed_rewards v)) (rs_voters s)
      + tsum (\<lambda>_ v. a_amount (v_claimed_rewards v)) (rs_voters s) + tsum (\<lambda>_. allocating) (rs_producers s)"
    using ledger_total [OF L] by (simp add: received_def [abs_def] tsum_add)
  have "p_votes p = tsum (vote_share q) (rs_voters s)" if "tfind (rs_producers s) q = Some p" for q p
    using ledger_votes [OF L, of q] that by (simp add: prow_def)
  then show ?thesis using eq claims_covered [OF reachable_init [OF assms]] by blast
qed

theorem reward_solvency_witness:
  "tsum (\<lambda>_. claimable demo_symbol (rs_producers demo_reward)) (rs_voters demo_reward) \<le> 1000
   \<and> p_votes demo_bob = tsum (vote_share bob) (rs_voters demo_reward)"
proof -
  have "core_symbol demo_reward = demo_symbol" "a_amount (gstate demo_reward) = 1000"
    "tsum (\<lambda>_ v. a_amount (v_claimed_rewards v)) (rs_voters demo_reward) = 0"
    "tfind (rs_producers demo_reward) bob = Some demo_bob"
    by (simp_all add: core_symbol_def gstate_def demo_reward_def demo_voter_def)
  then show ?thesis
    using reward_solvency [OF ref.laws demo_reward_reachable demo_reward_init] by simp
qed

text \<open>C26: in a reachable state the system contract can always change a voter's votes. Take a positive
  change that is authorized by the system account and the voter and that, when it adds votes, keeps the sum of all votes within the largest amount of a
  token; a fresh voter row starts with zero votes. It is refused exactly when more votes are
  withdrawn than the voter has; none of the internal assertions can fire. Afterwards the voter's
  votes and those of each of its producers have changed by exactly that amount, everything that was
  owed to the voter is on its unclaimed balance and nothing else is outstanding.\<close>
theorem change_vote_complete:
  assumes "cdt_laws C" "reward_reachable C s" "check_init C s" "indeterminate x = 0"
    "has_auth x system_account" "has_auth x n" "0 < votes"
    "is_adding \<Longrightarrow> tsum (\<lambda>_. v_votes) (rs_voters s) + votes \<le> max_amount"
  shows "if \<not> is_adding \<and> v_votes (vrow (core_symbol s) (rs_voters s) n) < votes
   then change_vote C x n votes is_adding s = Inl (Check ''voter's votes insufficent'')
   else \<exists>s' w. change_vote C x n votes is_adding s = Inr s'
     \<and> rs_voters s' = tput n w (rs_voters s) \<and> gstate s' = gstate s
     \<and> v_votes w = v_votes (vrow (core_symbol s) (rs_voters s) n) + (if is_adding then votes else - votes)
     \<and> map fst (v_producers w) = map fst (v_producers (vrow (core_symbol s) (rs_voters s) n))
     \<and> (\<forall>q. p_votes (prow (core_symbol s) (rs_producers s') q) = p_votes (prow (core_symbol s) (rs_producers s) q)
            + (if q \<in> set (map fst (v_producers w)) then if is_adding then votes else - votes else 0))
     \<and> a_amount (v_unclaimed_rewards w)
         = claimable (core_symbol s) (rs_producers s) (vrow (core_symbol s) (rs_voters s) n)
     \<and> claimable (core_symbol s') (rs_producers s') w = a_amount (v_unclaimed_rewards w)"
proof (cases "\<not> is_adding \<and> v_votes (vrow (core_symbol s) (rs_voters s) n) < votes")
  case True
  have "symbol_is_valid C (core_symbol s)" using reachable_init [OF assms(1-3)] by (simp add: reward_inv_def)
  from voter_row_vrow [OF assms(1) this assms(4), of n] True assms(5-7) show ?thesis by (simp add: change_vote_def)
next
  case False
  let ?core = "core_symbol s" and ?P = "rs_producers s" and ?v = "vrow (core_symbol s) (rs_voters s) n"
  let ?d = "if is_adding then votes else - votes"
  define w where "w = revoted ?core ?P ?d (to_slot C (now x)) ?v"
  have I: "reward_inv C s" by (rule reachable_init [OF assms(1-3)])
  have ok: "if is_adding then tsum (\<lambda>_. v_votes) (rs_voters s) + votes \<le> max_amount else votes \<le> v_votes ?v"
    using False assms(8) by auto
  obtain P' where run: "change_vote C x n votes is_adding s = Inr (s\<lparr>rs_producers := P', rs_voters := tput n w (rs_voters s)\<rparr>)"
    and rpv: "same_rpv ?core P' ?P"
    and I': "reward_inv C (s\<lparr>rs_producers := P', rs_voters := tput n w (rs_voters s)\<rparr>)"
    using change_vote_ok [OF assms(1) I assms(4-7) ok] unfolding w_def by blast
  have sym: "core_symbol (s\<lparr>rs_producers := P', rs_voters := tput n w (rs_voters s)\<rparr>) = ?core"
    by (simp add: core_symbol_def gstate_def)
  have L: "ledger_ok ?core (a_amount (gstate s)) (rs_voters s) ?P (\<lambda>_. 0)"
    and L': "ledger_ok ?core (a_amount (gstate s)) (tput n w (rs_voters s)) P' (\<lambda>_. 0)"
    using I I' sym by (simp_all add: reward_inv_def gstate_def)
  have keys: "map fst (v_producers w) = map fst (v_producers ?v)" by (auto simp: w_def revoted_def)
  have wv: "v_votes w = v_votes ?v + ?d" by (simp add: w_def revoted_def)
  have "vote_share q n w = vote_share q n ?v + (if q \<in> set (map fst (v_producers w)) then ?d else 0)" for q
    using wv unfolding vote_share_mem keys by simp
  then have votes: "p_votes (prow ?core P' q) = p_votes (prow ?core ?P q) + (if q \<in> set (map fst (v_producers w)) then ?d else 0)" for q
    using ledger_votes [OF L, of q] ledger_votes [OF L', of q] ledger_tables [OF L]
      tsum_tput_vrow [of "rs_voters s" "vote_share q" n ?core w] by simp
  show ?thesis
    unfolding if_not_P [OF False]
    using run sym keys votes revoted_claimable [OF rpv, of ?d "to_slot C (now x)" ?v]
    by (intro exI [of _ "s\<lparr>rs_producers := P', rs_voters := tput n w (rs_voters s)\<rparr>"] exI [of _ w])
      (simp add: w_def gstate_def, simp add: revoted_def claimable_def)
qed

lemma demo_reward_fields:
  "core_symbol demo_reward = demo_symbol" "vrow demo_symbol (rs_voters demo_reward) alice = demo_voter alice 300"
  "a_amount (gstate demo_reward) = 1000" "tfind (rs_voters demo_reward) alice = Some (demo_voter alice 300)"
  by (simp_all add: core_symbol_def gstate_def demo_reward_def vrow_def)

lemma demo_voter_simps [simp]:
  "v_votes (demo_voter n k) = k" "v_producers (demo_voter n k) = [(bob, 0)]"
  "a_amount (v_unclaimed_rewards (demo_voter n k)) = 0" "a_amount (v_claimed_rewards (demo_voter n k)) = 0"
  by (simp_all add: demo_voter_def)

lemma demo_claimable: "claimable demo_symbol (rs_producers demo_reward) (demo_voter alice 300) = 428"
  by code_simp

theorem change_vote_complete_witness:
  "\<exists>s' w. change_vote cdt_ref (demo_ctx reward_account [system_account, alice]) alice 100 False demo_reward = Inr s'
     \<and> rs_voters s' = tput alice w (rs_voters demo_reward)
     \<and> v_votes w = 200 \<and> a_amount (v_unclaimed_rewards w) = 428
     \<and> p_votes (prow demo_symbol (rs_producers s') bob) = 600"
proof -
  have b: "p_votes (prow demo_symbol (rs_producers demo_reward) bob) = 700" by code_simp
  have "100 \<le> v_votes (vrow (core_symbol demo_reward) (rs_voters demo_reward) alice)"
    by (simp add: demo_reward_fields)
  then obtain s' w where r: "change_vote cdt_ref (demo_ctx reward_account [system_account, alice]) alice 100 False demo_reward = Inr s'"
     "rs_voters s' = tput alice w (rs_voters demo_reward)" "v_votes w = 200" "a_amount (v_unclaimed_rewards w) = 428"
     "map fst (v_producers w) = [bob]"
     "\<And>q. p_votes (prow demo_symbol (rs_producers s') q) = p_votes (prow demo_symbol (rs_producers demo_reward) q)
            + (if q \<in> set (map fst (v_producers w)) then - 100 else 0)"
    using change_vote_complete [OF ref.laws demo_reward_reachable demo_reward_init,
        of "demo_ctx reward_account [system_account, alice]" alice 100 False]
    by (auto simp: demo_reward_fields demo_claimable)
  have "p_votes (prow demo_symbol (rs_producers s') bob) = 600" using r(5) r(6) [of bob] b by simp
  with r show ?thesis by blast
qed

text \<open>C27: voting never aborts once its arguments are checked. In a reachable state
  \<open>voteproducer\<close> with a strictly increasing list succeeds, the voter's map then holds exactly that
  list with the current rewards per vote of each producer, its votes are unchanged, everything
  that was owed to it is on its unclaimed balance, and the votes of every producer follow the
  lists before and after.\<close>
theorem voteproducer_complete:
  assumes "cdt_laws C" "reward_reachable C s" "check_init C s" "indeterminate x = 0"
    "has_auth x system_account" "has_auth x n" "ascending ns"
  shows "\<exists>s' w. voteproducer C x n ns s = Inr s'
     \<and> rs_voters s' = tput n w (rs_voters s) \<and> gstate s' = gstate s
     \<and> v_producers w = map (\<lambda>q. (q, p_rewards_per_vote (prow (core_symbol s) (rs_producers s) q))) ns
     \<and> v_votes w = v_votes (vrow (core_symbol s) (rs_voters s) n)
     \<and> a_amount (v_unclaimed_rewards w)
         = claimable (core_symbol s) (rs_producers s) (vrow (core_symbol s) (rs_voters s) n)
     \<and> (\<forall>q. p_votes (prow (core_symbol s) (rs_producers s') q) = p_votes (prow (core_symbol s) (rs_producers s) q)
            + (if q \<in> set ns then v_votes w else 0)
            - (if q \<in> set (map fst (v_producers (vrow (core_symbol s) (rs_voters s) n))) then v_votes w else 0))"
proof -
  let ?core = "core_symbol s" and ?P = "rs_producers s" and ?v = "vrow (core_symbol s) (rs_voters s) n"
  define w where "w = voted ?core ?P ns (to_slot C (now x)) ?v"
  have I: "reward_inv C s" by (rule reachable_init [OF assms(1-3)])
  obtain P' where run: "voteproducer C x n ns s = Inr (s\<lparr>rs_producers := P', rs_voters := tput n w (rs_voters s)\<rparr>)"
    and I': "reward_inv C (s\<lparr>rs_producers := P', rs_voters := tput n w (rs_voters s)\<rparr>)"
    using voteproducer_ok [OF assms(1) I assms(4-7)] unfolding w_def by blast
  have sym: "core_symbol (s\<lparr>rs_producers := P', rs_voters := tput n w (rs_voters s)\<rparr>) = ?core"
    by (simp add: core_symbol_def gstate_def)
  have L: "ledger_ok ?core (a_amount (gstate s)) (rs_voters s) ?P (\<lambda>_. 0)"
    and L': "ledger_ok ?core (a_amount (gstate s)) (tput n w (rs_voters s)) P' (\<lambda>_. 0)"
    using I I' sym by (simp_all add: reward_inv_def gstate_def)
  have w: "v_votes w = v_votes ?v" "map fst (v_producers w) = ns" by (simp_all add: w_def voted_def comp_def)
  have votes: "p_votes (prow ?core P' q) = p_votes (prow ?core ?P q) + (if q \<in> set ns then v_votes w else 0)
      - (if q \<in> set (map fst (v_producers ?v)) then v_votes w else 0)" for q
    using ledger_votes [OF L, of q] ledger_votes [OF L', of q] ledger_tables [OF L]
      tsum_tput_vrow [of "rs_voters s" "vote_share q" n ?core w]
    by (simp add: vote_share_mem [of q n w] vote_share_mem [of q n ?v] w del: set_map)
  show ?thesis
    using run sym votes
    by (intro exI [of _ "s\<lparr>rs_producers := P', rs_voters := tput n w (rs_voters s)\<rparr>"] exI [of _ w])
      (simp add: gstate_def del: set_map, simp add: w_def voted_def claimable_def)
qed

theorem voteproducer_complete_witness:
  "\<exists>s' w. voteproducer cdt_ref (demo_ctx reward_account [system_account, alice]) alice [carol] demo_reward = Inr s'
     \<and> rs_voters s' = tput alice w (rs_voters demo_reward)
     \<and> v_producers w = [(carol, 0)] \<and> a_amount (v_unclaimed_rewards w) = 428
     \<and> p_votes (prow demo_symbol (rs_producers s') bob) = 400
     \<and> p_votes (prow demo_symbol (rs_producers s') carol) = 300"
proof -
  have b: "p_votes (prow demo_symbol (rs_producers demo_reward) bob) = 700"
    "p_votes (prow demo_symbol (rs_producers demo_reward) carol) = 0"
    "p_rewards_per_vote (prow demo_symbol (rs_producers demo_reward) carol) = 0" by code_simp+
  obtain s' w where r: "voteproducer cdt_ref (demo_ctx reward_account [system_account, alice]) alice [carol] demo_reward = Inr s'"
     "rs_voters s' = tput alice w (rs_voters demo_reward)" "v_producers w = [(carol, 0)]"
     "v_votes w = 300" "a_amount (v_unclaimed_rewards w) = 428"
     "\<And>q. p_votes (prow demo_symbol (rs_producers s') q) = p_votes (prow demo_symbol (rs_producers demo_reward) q)
            + (if q \<in> set [carol] then v_votes w else 0) - (if q \<in> set [bob] then v_votes w else 0)"
    using voteproducer_complete [OF ref.laws demo_reward_reachable demo_reward_init,
        of "demo_ctx reward_account [system_account, alice]" alice "[carol]"]
    by (auto simp: demo_reward_fields demo_claimable b(3))
  have "p_votes (prow demo_symbol (rs_producers s') bob) = 400" "p_votes (prow demo_symbol (rs_producers s') carol) = 300"
    using r(4) r(6) [of bob] r(6) [of carol] b by simp_all
  with r show ?thesis by blast
qed

text \<open>C28: a claim pays a voter exactly what is owed to it, in one transfer of the core token from the
  contract to the voter, whoever triggers it, and a second claim right after it is refused.\<close>
theorem claim_pays_once:
  assumes "cdt_laws C" "reward_reachable C s" "check_init C s" "tfind (rs_voters s) n = Some v"
    "0 < claimable (core_symbol s) (rs_producers s) v" "has_auth x n" "has_auth y c" "self y = self x" "now y = now x"
  shows "\<exists>s' w. claimrewards C x n s = Inr (s', [Token_transfer [(self x, active_permission)] (self x) n
              (mk_asset (claimable (core_symbol s) (rs_producers s) v) (core_symbol s)) ''voted rewards''])
     \<and> claimfor C y c n s = claimrewards C x n s
     \<and> rs_voters s' = tput n w (rs_voters s) \<and> gstate s' = gstate s \<and> v_votes w = v_votes v
     \<and> a_amount (v_unclaimed_rewards w) = 0
     \<and> a_amount (v_claimed_rewards w) = a_amount (v_claimed_rewards v) + claimable (core_symbol s) (rs_producers s) v
     \<and> claimrewards C x n s' = Inl (Check ''no rewards to claim'')"
proof -
  let ?core = "core_symbol s" and ?P = "rs_producers s"
  define w where "w = claimed ?core ?P (to_slot C (now x)) v"
  let ?s = "\<lambda>P'. s\<lparr>rs_producers := P', rs_voters := tput n w (rs_voters s)\<rparr>"
  have I: "reward_inv C s" by (rule reachable_init [OF assms(1-3)])
  then have vv: "0 \<le> v_votes v" using ledger_voter [OF _ assms(4)] by (auto simp: reward_inv_def voter_ok_def)
  obtain P' where run: "claim_rewards C x n s = Inr (?s P', [Token_transfer [(self x, active_permission)] (self x) n
              (mk_asset (claimable ?core ?P v) ?core) ''voted rewards''])"
    and rpv: "same_rpv ?core P' ?P" and I': "reward_inv C (?s P')"
    using claim_rewards_ok [OF assms(1) I assms(4,5), of x] unfolding w_def by blast
  have sym: "core_symbol (?s P') = ?core" by (simp add: core_symbol_def gstate_def)
  have "claim_rewards C x n (?s P') = Inl (Check ''no rewards to claim'')"
    using claimed_claimable [OF rpv vv] sym
    by (intro claim_refused [OF assms(1) I']) (auto simp: tfind_tput w_def)
  moreover have "claim_rewards C y n s = claim_rewards C x n s" using claim_rewards_env assms(8,9) by blast
  ultimately show ?thesis
    using run assms(3,6,7) sym vv
    by (intro exI [of _ "?s P'"] exI [of _ w])
      (auto simp: claimrewards_def claimfor_def check_init_def gstate_def w_def claimed_def Let_def revoted_def
        claimable_def total_owed_no_votes)
qed

theorem claim_pays_once_witness:
  "\<exists>s'. claimrewards cdt_ref (demo_ctx reward_account [alice]) alice demo_reward
      = Inr (s', [Token_transfer [(reward_account, active_permission)] reward_account alice (mk_asset 428 demo_symbol) ''voted rewards''])
    \<and> claimfor cdt_ref (demo_ctx reward_account [bob]) bob alice demo_reward
      = claimrewards cdt_ref (demo_ctx reward_account [alice]) alice demo_reward
    \<and> claimrewards cdt_ref (demo_ctx reward_account [alice]) alice s' = Inl (Check ''no rewards to claim'')"
  using claim_pays_once [OF ref.laws demo_reward_reachable demo_reward_init, of alice "demo_voter alice 300"
      "demo_ctx reward_account [alice]" "demo_ctx reward_account [bob]" bob]
  by (auto simp: demo_reward_fields demo_claimable)

text \<open>C29: a payment of a registered producer raises the producer's rewards per vote so that all its
  votes together earn the payment up to rounding: never more than the payment, and short of it by
  less than one \<open>10^18\<close>-th of a unit per vote. The whole amount goes to the allocating pot and the
  running total.\<close>
theorem payment_shares:
  assumes "cdt_laws C" "reward_reachable C s" "check_init C s"
    "first_receiver x = token_account" "a_symbol quantity = core_symbol s" "from \<noteq> self x"
    "ontransfer C x from (self x) quantity memo s = Inr s'"
  shows "\<exists>p p'. tfind (rs_producers s) from = Some p \<and> p_is_registered p \<and> 0 \<le> a_amount quantity
     \<and> rs_producers s' = tput from p' (rs_producers s) \<and> rs_voters s' = rs_voters s
     \<and> a_amount (gstate s') = a_amount (gstate s) + a_amount quantity
     \<and> allocating p' = allocating p + a_amount quantity \<and> p_votes p' = p_votes p
     \<and> p_votes p * (p_rewards_per_vote p' - p_rewards_per_vote p) \<le> a_amount quantity * HIGH_PRECISION
     \<and> (0 < p_votes p \<longrightarrow> a_amount quantity * HIGH_PRECISION
            < p_votes p * (p_rewards_per_vote p' - p_rewards_per_vote p) + p_votes p)"
proof -
  have I: "reward_inv C s" by (rule reachable_init [OF assms(1-3)])
  obtain p where p: "tfind (rs_producers s) from = Some p" "p_is_registered p" "0 \<le> a_amount quantity"
    and s': "s' = s\<lparr>rs_global := Some (mk_asset (a_amount (gstate s) + a_amount quantity) (core_symbol s)),
             rs_producers := tput from (credited (a_amount quantity) (core_symbol s) (to_slot C (now x)) p) (rs_producers s)\<rparr>"
    using ontransfer_ok [OF assms(1) I assms(7,4-6)] by blast
  have pok: "producer_ok (core_symbol s) from p"
    using I ledger_producer [of "core_symbol s" "a_amount (gstate s)" "rs_voters s" "rs_producers s" "\<lambda>_. 0" "from"] p
    by (simp add: reward_inv_def prow_def)
  have "x < v * (x div v) + v" if "0 < v" for x v :: int
    using that pos_mod_bound [of v x] mult_div_mod_eq [of v x] by linarith
  then show ?thesis
    using p s' credited_ok(2) [OF pok p(3), of "to_slot C (now x)"]
    by (intro exI [of _ p] exI [of _ "credited (a_amount quantity) (core_symbol s) (to_slot C (now x)) p"])
      (simp add: gstate_def, simp add: credited_def)
qed

theorem payment_shares_witness:
  "\<exists>s' p'. ontransfer cdt_ref ((demo_ctx reward_account [bob])\<lparr>first_receiver := token_account\<rparr>) bob reward_account
        (mk_asset 7 demo_symbol) [] demo_reward = Inr s'
     \<and> rs_producers s' = tput bob p' (rs_producers demo_reward)
     \<and> allocating p' = 1007 \<and> a_amount (gstate s') = 1007"
proof -
  let ?x = "(demo_ctx reward_account [bob])\<lparr>first_receiver := token_account\<rparr>"
  have "isl (ontransfer cdt_ref ?x bob reward_account (mk_asset 7 demo_symbol) [] demo_reward) = False" by code_simp
  then obtain s' where r: "ontransfer cdt_ref ?x bob (self ?x) (mk_asset 7 demo_symbol) [] demo_reward = Inr s'"
    by (cases "ontransfer cdt_ref ?x bob reward_account (mk_asset 7 demo_symbol) [] demo_reward") auto
  have n: "bob \<noteq> reward_account" by (simp add: bob_def reward_account_def)
  have b: "tfind (rs_producers demo_reward) bob = Some demo_bob" "allocating demo_bob = 1000"
    by (simp_all add: demo_reward_def demo_bob_def)
  show ?thesis
    using payment_shares [OF ref.laws demo_reward_reachable demo_reward_init _ _ _ r] r n b
    by (auto simp: demo_reward_fields)
qed

text \<open>The single pass over the sorted old map and the sorted new list splits them exactly: the
  kept entries are the old ones still voted for, the removed entries the old ones no longer voted
  for, the added entries the new names that were not voted for before.\<close>
lemma merge_producers_splits:
  assumes "twf m" "ascending ns"
  shows "merge_producers m ns = (filter (\<lambda>(q, _). q \<in> set ns) m, filter (\<lambda>(q, _). q \<notin> set ns) m,
     map (\<lambda>n. (n, 0)) (filter (\<lambda>n. n \<notin> fst ` set m) ns))"
  using merge_producers_spec [OF assms(1), of ns] assms(2)
  by (simp add: ascending_iff kept_of_def removed_of_def added_of_def)

lemma merge_producers_splits_example:
  "merge_producers [(alice, 5), (bob, 7)] [bob, carol] = ([(bob, 7)], [(alice, 5)], [(carol, 0)])"
proof -
  have "twf [(alice, 5 :: int), (bob, 7)]" "ascending [bob, carol]"
    by (simp_all add: twf_def alice_def bob_def carol_def)
  from merge_producers_splits [OF this] show ?thesis by simp
qed

end
