(* ===== verification/System_State.thy ===== *)
theory System_State
  imports Reward
begin

text \<open>
  The tables and the global state of \<open>flon.system\<close>, one record per table row in the order of
  \<open>flon.system.hpp\<close>, and what the contract asks of the chain. \<open>host\<close> collects the functions of
  the node and of the development kit whose code is not part of the repository (keys, hashes,
  the text of a name, the answer of the schedule proposal); they are parameters of the actions
  that call them. The calls that change the chain are recorded as effects, in order, together
  with the inline actions.
\<close>

section \<open>Text of numbers\<close>

text \<open>\<open>std::to_string\<close> of an unsigned number.\<close>

fun dec :: "nat \<Rightarrow> string" where
  "dec n = (if n < 10 then [char_of (48 + n)] else dec (n div 10) @ [char_of (48 + n mod 10)])"

declare dec.simps [simp del]

section \<open>Rows\<close>

text \<open>Constants of \<open>flon.system.hpp\<close>.\<close>

definition seconds_per_day :: int where "seconds_per_day = 24 * 3600"
definition seconds_per_year :: int where "seconds_per_year = 365 * 24 * 3600"
definition useconds_per_day :: int where "useconds_per_day = seconds_per_day * 1000000"
definition blocks_per_day :: "32 word" where "blocks_per_day = 2 * 86400"
definition refund_delay_sec :: int where "refund_delay_sec = 3 * seconds_per_day"
definition ratio_boost :: "32 word" where "ratio_boost = 10000"
definition reward_halving_period_seconds :: int where "reward_halving_period_seconds = 5 * seconds_per_year"
definition max_vote_producer_count :: nat where "max_vote_producer_count = 30"
definition VOTE_REFUND_ERROR :: nat where "VOTE_REFUND_ERROR = 101"
definition VOTE_CHANGE_ERROR :: nat where "VOTE_CHANGE_ERROR = 102"

record block_signing_authority =
  bsa_threshold :: "32 word"
  bsa_keys :: "(public_key \<times> 16 word) list"

definition empty_authority :: block_signing_authority where
  "empty_authority = \<lparr>bsa_threshold = 0, bsa_keys = []\<rparr>"

definition convert_to_block_signing_authority :: "public_key \<Rightarrow> block_signing_authority" where
  "convert_to_block_signing_authority k = \<lparr>bsa_threshold = 1, bsa_keys = [(k, 1)]\<rparr>"

record name_bid =
  nb_newname :: name
  nb_high_bidder :: name
  nb_high_bid :: int
  nb_last_bid_time :: time_point

definition by_high_bid :: "name_bid \<Rightarrow> 64 word" where
  "by_high_bid b = word_of_int (- nb_high_bid b)"

record bid_refund =
  br_bidder :: name
  br_amount :: asset

text \<open>
  The parameters the chain lets the contract set. The contract looks at one of them; the sixteen
  before it and the four after it are kept as their serialised values, in the order of their ids.
\<close>

record blockchain_parameters =
  parameters_before :: "bytes list"
  max_authority_depth :: "16 word"
  parameters_after :: "bytes list"

record eosio_global_state =
  g_params :: blockchain_parameters
  g_total_vote_stake :: asset
  g_max_ram_size :: "64 word"
  g_total_ram_bytes_reserved :: "64 word"
  g_total_ram_stake :: int
  g_election_activated_time :: time_point
  g_reward_started_time :: time_point
  g_initial_rewards_per_block :: asset
  g_total_produced_rewards :: asset
  g_total_unclaimed_rewards :: asset
  g_last_producer_schedule_size :: "16 word"
  g_last_producer_schedule_update :: block_timestamp
  g_last_name_close :: block_timestamp
  g_revision :: "8 word"

record account_creator =
  ac_owner :: name
  ac_creator :: name

record producer_info =
  pi_owner :: name
  pi_total_votes :: int
  pi_producer_key :: public_key
  pi_is_active :: bool
  pi_url :: string
  pi_unclaimed_rewards :: asset
  pi_last_claim_time :: time_point
  pi_location :: "16 word"
  pi_producer_authority :: block_signing_authority
  pi_reward_shared_ratio :: "32 word"
  pi_revision :: "8 word"

definition by_votes :: "producer_info \<Rightarrow> 64 word" where
  "by_votes p = (if pi_is_active p then word_of_int (2 ^ 63 - 1 - pi_total_votes p)
                 else - 1 - word_of_int (pi_total_votes p))"

record finalizer_key_info =
  fk_id :: "64 word"
  fk_finalizer_name :: name
  fk_finalizer_key :: string
  fk_finalizer_key_binary :: bytes

record finalizer_info =
  fi_finalizer_name :: name
  fi_active_key_id :: "64 word"
  fi_active_key_binary :: bytes
  fi_finalizer_key_count :: "32 word"

record finalizer_authority =
  fa_description :: string
  fa_weight :: "64 word"
  fa_public_key :: bytes

record finalizer_auth_info =
  fai_key_id :: "64 word"
  fai_fin_authority :: finalizer_authority

record voter_info =
  vi_owner :: name
  vi_producers :: "name list"
  vi_votes :: int
  vi_last_unvoted_time :: block_timestamp
  vi_revision :: "8 word"

record vote_refund =
  vr_owner :: name
  vr_request_time :: "32 word"        \<comment> \<open>\<open>time_point_sec\<close>\<close>
  vr_vote_staked :: asset

record limit_auth_change =
  la_version :: "8 word"
  la_account :: name
  la_allow_perms :: "name list"
  la_disallow_perms :: "name list"

record block_info_record =
  bi_version :: "8 word"
  bi_block_height :: "32 word"
  bi_block_timestamp :: time_point

section \<open>State, host and effects\<close>

record sys_state =
  sg :: "eosio_global_state option"                        \<comment> \<open>the stored singleton\<close>
  s_voters :: "(name, voter_info) table"
  s_producers :: "(name, producer_info) table"
  s_vote_refunds :: "(name, vote_refund) table"            \<comment> \<open>scope and key are the owner\<close>
  s_finalizer_keys :: "(64 word, finalizer_key_info) table"
  s_finalizers :: "(name, finalizer_info) table"
  s_last_prop_finalizers :: "finalizer_auth_info list option"
  s_fin_key_id_generator :: "64 word option"
  s_name_bids :: "(name, name_bid) table"
  s_bid_refunds :: "(scoped, bid_refund) table"            \<comment> \<open>scope: the name bid on\<close>
  s_block_info :: "(64 word, block_info_record) table"
  s_creators :: "(name, account_creator) table"
  s_abi_hash :: "(name, bytes) table"
  s_limit_auth :: "(name, limit_auth_change) table"
  s_idle_block_interval_ms :: "64 word option"

record host =
  default_parameters :: blockchain_parameters              \<comment> \<open>\<open>get_blockchain_parameters\<close>\<close>
  name_string :: "name \<Rightarrow> string"                           \<comment> \<open>\<open>name::to_string\<close>\<close>
  null_key :: public_key                                   \<comment> \<open>a value-initialised \<open>public_key\<close>\<close>
  authority_is_valid :: "block_signing_authority \<Rightarrow> bool"
  proposed_version :: "(name \<times> block_signing_authority) list \<Rightarrow> int"   \<comment> \<open>\<open>set_proposed_producers\<close>\<close>
  sha256 :: "bytes \<Rightarrow> bytes"
  decode_bls_public_key :: "string \<Rightarrow> bytes res"
  decode_bls_signature :: "string \<Rightarrow> bytes res"
  bls_pop_verify :: "bytes \<Rightarrow> bytes \<Rightarrow> bool"
  disengaged_finalizers :: "finalizer_auth_info list"      \<comment> \<open>what reading an empty \<open>std::optional\<close> yields\<close>
  resource_limits :: "name \<Rightarrow> 64 word \<times> bool"             \<comment> \<open>\<open>get_resource_limits\<close>\<close>

datatype effect =
    Send inline_action
  | Propose_producers "(name \<times> block_signing_authority) list"
  | Set_finalizers "64 word" "finalizer_authority list"
  | Deferred_voterefund name int                            \<comment> \<open>voter and delay in seconds\<close>
  | Set_resource_limits name "64 word" bool
  | Set_privileged name "8 word"
  | Preactivate_feature bytes
  | Set_parameters_packed bytes
  | Set_wasm_parameters_packed bytes

text \<open>The constructor loads the stored global state or the defaults.\<close>

definition default_gstate :: "host \<Rightarrow> eosio_global_state" where
  "default_gstate H = \<lparr>g_params = default_parameters H, g_total_vote_stake = null_asset,
     g_max_ram_size = 64 * 1024 * 1024 * 1024, g_total_ram_bytes_reserved = 0, g_total_ram_stake = 0,
     g_election_activated_time = 0, g_reward_started_time = 0, g_initial_rewards_per_block = null_asset,
     g_total_produced_rewards = null_asset, g_total_unclaimed_rewards = null_asset,
     g_last_producer_schedule_size = 0, g_last_producer_schedule_update = 0, g_last_name_close = 0,
     g_revision = 0\<rparr>"

definition gs :: "host \<Rightarrow> sys_state \<Rightarrow> eosio_global_state" where
  "gs H s = (case sg s of Some g \<Rightarrow> g | None \<Rightarrow> default_gstate H)"

definition core_symbol :: "cdt \<Rightarrow> host \<Rightarrow> sys_state \<Rightarrow> symbol res" where
  "core_symbol C H s =
     (let y = a_symbol (g_total_vote_stake (gs H s)) in
      if symbol_is_valid C y then Inr y else Inl (Check ''system contract must first be initialized''))"

definition system_empty :: sys_state where
  "system_empty = \<lparr>sg = None, s_voters = [], s_producers = [], s_vote_refunds = [], s_finalizer_keys = [],
     s_finalizers = [], s_last_prop_finalizers = None, s_fin_key_id_generator = None, s_name_bids = [],
     s_bid_refunds = [], s_block_info = [], s_creators = [], s_abi_hash = [], s_limit_auth = [],
     s_idle_block_interval_ms = None\<rparr>"

text \<open>A sample host for the evaluation of the properties.\<close>

definition demo_host :: host where
  "demo_host = \<lparr>default_parameters = \<lparr>parameters_before = replicate 16 [0],
       max_authority_depth = 6, parameters_after = replicate 4 [0]\<rparr>,
     name_string = (\<lambda>_. ''account''), null_key = [], authority_is_valid = (\<lambda>a. bsa_keys a \<noteq> []),
     proposed_version = (\<lambda>_. 1), sha256 = (\<lambda>b. b), decode_bls_public_key = (\<lambda>s. Inr (map of_char s)),
     decode_bls_signature = (\<lambda>s. Inr (map of_char s)), bls_pop_verify = (\<lambda>_ _. True),
     disengaged_finalizers = [], resource_limits = (\<lambda>_. (0, False))\<rparr>"

lemma gs_simps [simp]:
  "gs H (s\<lparr>sg := Some g\<rparr>) = g" "gs H (s\<lparr>s_voters := V\<rparr>) = gs H s" "gs H (s\<lparr>s_producers := P\<rparr>) = gs H s"
  "gs H (s\<lparr>s_vote_refunds := R\<rparr>) = gs H s" "gs H (s\<lparr>s_finalizer_keys := K\<rparr>) = gs H s"
  "gs H (s\<lparr>s_finalizers := F\<rparr>) = gs H s" "gs H (s\<lparr>s_last_prop_finalizers := L\<rparr>) = gs H s"
  "gs H (s\<lparr>s_fin_key_id_generator := G\<rparr>) = gs H s" "gs H (s\<lparr>s_name_bids := N\<rparr>) = gs H s"
  "gs H (s\<lparr>s_bid_refunds := B\<rparr>) = gs H s" "gs H (s\<lparr>s_block_info := I\<rparr>) = gs H s"
  by (simp_all add: gs_def)

lemma core_symbol_eq_Inr [simp, res_simps]:
  "core_symbol C H s = Inr y \<longleftrightarrow> y = a_symbol (g_total_vote_stake (gs H s)) \<and> symbol_is_valid C y"
  by (auto simp: core_symbol_def Let_def)

end
