(* ===== verification/Voting.thy ===== *)
theory Voting
  imports System_State
begin

text \<open>
  Producer registration and voting of \<open>flon.system\<close> (\<open>voting.cpp\<close> and \<open>rmvproducer\<close>). An action
  returns the new tables and the effects it has on the chain and on the other contracts, in the
  order the code issues them.
\<close>

type_synonym 'a outcome = "('a \<times> effect list) res"

section \<open>Registration\<close>

text \<open>The legacy key of an authority: its only key, or the null key.\<close>

definition single_key :: "host \<Rightarrow> block_signing_authority \<Rightarrow> public_key" where
  "single_key H a = (case bsa_keys a of [(k, _)] \<Rightarrow> k | _ \<Rightarrow> null_key H)"

text \<open>\<open>R\<close> is the state of the reward contract, whose table the action reads.\<close>

definition register_producer ::
  "cdt \<Rightarrow> host \<Rightarrow> ctx \<Rightarrow> reward_state \<Rightarrow> name \<Rightarrow> block_signing_authority \<Rightarrow> string \<Rightarrow> 16 word \<Rightarrow> 32 word option
     \<Rightarrow> sys_state \<Rightarrow> sys_state outcome" where
  "register_producer C H x R producer authority url location ratio s =
     (if \<not> length url < 512 then Inl (Check ''url too long'')
      else if \<not> (case ratio of Some r \<Rightarrow> r \<le> ratio_boost | None \<Rightarrow> True)
        then Inl (Check (''reward_shared_ratio is too large than '' @ dec (unat ratio_boost)))
      else rbind (core_symbol C H s) (\<lambda>core_sym.
        let key = single_key H authority;
            effects = (if is_producer_registered R producer then []
                       else [Send (Reward_regproducer [(producer, active_permission)] producer)])
        in case tfind (s_producers s) producer of
          Some info \<Rightarrow>
            Inr (s\<lparr>s_producers := tput producer
              (info\<lparr>pi_producer_key := key, pi_is_active := True, pi_url := url, pi_location := location,
                pi_producer_authority := authority,
                pi_last_claim_time := (if pi_last_claim_time info = 0 then now x else pi_last_claim_time info),
                pi_reward_shared_ratio := (case ratio of Some r \<Rightarrow> r | None \<Rightarrow> pi_reward_shared_ratio info)\<rparr>)
              (s_producers s)\<rparr>, effects)
        | None \<Rightarrow>
            rbind (asset_make C 0 core_sym) (\<lambda>z.
            Inr (s\<lparr>s_producers := tput producer
              \<lparr>pi_owner = producer, pi_total_votes = 0, pi_producer_key = key, pi_is_active = True,
               pi_url = url, pi_unclaimed_rewards = z, pi_last_claim_time = now x, pi_location = location,
               pi_producer_authority = authority,
               pi_reward_shared_ratio = (case ratio of Some r \<Rightarrow> r | None \<Rightarrow> 0), pi_revision = 0\<rparr>
              (s_producers s)\<rparr>, effects))))"

definition regproducer ::
  "cdt \<Rightarrow> host \<Rightarrow> ctx \<Rightarrow> reward_state \<Rightarrow> name \<Rightarrow> public_key \<Rightarrow> string \<Rightarrow> 16 word \<Rightarrow> 32 word option
     \<Rightarrow> sys_state \<Rightarrow> sys_state outcome" where
  "regproducer C H x R producer key url location ratio s =
     (if \<not> has_auth x producer then Inl (MissingAuth producer)
      else if \<not> length url < 512 then Inl (Check ''url too long'')
      else register_producer C H x R producer (convert_to_block_signing_authority key) url location ratio s)"

definition regproducer2 ::
  "cdt \<Rightarrow> host \<Rightarrow> ctx \<Rightarrow> reward_state \<Rightarrow> name \<Rightarrow> block_signing_authority \<Rightarrow> string \<Rightarrow> 16 word \<Rightarrow> 32 word option
     \<Rightarrow> sys_state \<Rightarrow> sys_state outcome" where
  "regproducer2 C H x R producer authority url location ratio s =
     (if \<not> has_auth x producer then Inl (MissingAuth producer)
      else if \<not> length url < 512 then Inl (Check ''url too long'')
      else if \<not> authority_is_valid H authority then Inl (Check ''invalid producer authority'')
      else register_producer C H x R producer authority url location ratio s)"

definition deactivate :: "host \<Rightarrow> producer_info \<Rightarrow> producer_info" where
  "deactivate H p = p\<lparr>pi_producer_key := null_key H, pi_producer_authority := empty_authority, pi_is_active := False\<rparr>"

definition unregprod :: "host \<Rightarrow> ctx \<Rightarrow> name \<Rightarrow> sys_state \<Rightarrow> sys_state outcome" where
  "unregprod H x producer s =
     (if \<not> has_auth x producer then Inl (MissingAuth producer)
      else case tfind (s_producers s) producer of
        None \<Rightarrow> Inl (Check ''producer not found'')
      | Some p \<Rightarrow> Inr (s\<lparr>s_producers := tput producer (deactivate H p) (s_producers s)\<rparr>, []))"

definition rmvproducer :: "host \<Rightarrow> ctx \<Rightarrow> name \<Rightarrow> sys_state \<Rightarrow> sys_state outcome" where
  "rmvproducer H x producer s =
     (if \<not> has_auth x (self x) then Inl (MissingAuth (self x))
      else case tfind (s_producers s) producer of
        None \<Rightarrow> Inl (Check ''producer not found'')
      | Some p \<Rightarrow> Inr (s\<lparr>s_producers := tput producer (deactivate H p) (s_producers s)\<rparr>, []))"

section \<open>Votes\<close>

text \<open>One iteration of \<open>update_producer_votes\<close>, and the loop.\<close>

definition update_one ::
  "host \<Rightarrow> int \<Rightarrow> name \<Rightarrow> (name, producer_info) table \<Rightarrow> (name, producer_info) table res" where
  "update_one H votes_delta p P =
     (case tfind P p of
        None \<Rightarrow> Inl (Check (''producer '' @ name_string H p @ '' is not registered''))
      | Some info \<Rightarrow>
          if 0 < votes_delta \<and> \<not> pi_is_active info
            then Inl (Check (''producer '' @ name_string H (pi_owner info) @ '' is not active''))
          else let total = i64 (pi_total_votes info + votes_delta) in
            if \<not> 0 \<le> total then Inl (Check ''producer's elected votes can not be negative'')
            else Inr (tput p (info\<lparr>pi_total_votes := total\<rparr>) P))"

definition update_producer_votes ::
  "host \<Rightarrow> name list \<Rightarrow> int \<Rightarrow> (name, producer_info) table \<Rightarrow> (name, producer_info) table res" where
  "update_producer_votes H producers votes_delta P = rfold (update_one H votes_delta) producers P"

text \<open>
  The loop of \<open>voteproducer\<close> that sorts the old and the new producers into removed, modified and
  added ones. The source compares the two iterators themselves, that is the addresses of the
  elements: \<open>po\<close> and \<open>pn\<close> are the addresses of the current elements of the two vectors, eight
  bytes apart from their neighbours.
\<close>

fun diff_loop :: "nat \<Rightarrow> nat \<Rightarrow> name list \<Rightarrow> name list \<Rightarrow> name list \<times> name list \<times> name list" where
  "diff_loop po pn (q # qs) (n # ns) =
     (if po < pn then
        (let (removed, modified, added) = diff_loop (po + 8) pn qs (n # ns) in (q # removed, modified, added))
      else if pn < po then
        (let (removed, modified, added) = diff_loop po (pn + 8) (q # qs) ns in (removed, modified, n # added))
      else
        (let (removed, modified, added) = diff_loop (po + 8) (pn + 8) qs ns in (removed, q # modified, added)))"
| "diff_loop po pn (q # qs) [] =
     (let (removed, modified, added) = diff_loop (po + 8) pn qs [] in (q # removed, modified, added))"
| "diff_loop po pn [] (n # ns) =
     (let (removed, modified, added) = diff_loop po (pn + 8) [] ns in (removed, modified, n # added))"
| "diff_loop po pn [] [] = ([], [], [])"

definition voteproducer ::
  "cdt \<Rightarrow> host \<Rightarrow> ctx \<Rightarrow> nat \<Rightarrow> nat \<Rightarrow> name \<Rightarrow> name list \<Rightarrow> sys_state \<Rightarrow> sys_state outcome" where
  "voteproducer C H x po pn voter_name producers s =
     (if \<not> has_auth x voter_name then Inl (MissingAuth voter_name)
      else if \<not> length producers \<le> max_vote_producer_count
        then Inl (Check ''attempt to vote for too many producers'')
      else if \<not> ascending producers then Inl (Check ''producer votes must be unique and sorted'')
      else case tfind (s_voters s) voter_name of
        None \<Rightarrow> Inl (Check ''voter not found'')
      | Some v \<Rightarrow>
          if \<not> 0 \<le> vi_votes v then Inl (Check ''voter_itr->votes >= 0'')
          else if vi_producers v = producers
            then Inl (CheckC VOTE_CHANGE_ERROR ''producers no change'')
          else let (removed, modified, added) = diff_loop po pn (vi_producers v) producers in
            rbind (update_producer_votes H removed (i64 (- vi_votes v)) (s_producers s)) (\<lambda>P1.
            rbind (update_producer_votes H modified 0 P1) (\<lambda>P2.
            rbind (update_producer_votes H added (vi_votes v) P2) (\<lambda>P3.
              Inr (s\<lparr>s_producers := P3,
                     s_voters := tput voter_name
                       (v\<lparr>vi_producers := producers, vi_last_unvoted_time := to_slot C (now x)\<rparr>) (s_voters s)\<rparr>,
                   [Send (Reward_voteproducer [(self x, active_permission), (voter_name, active_permission)]
                      voter_name producers)])))))"

definition addvote ::
  "cdt \<Rightarrow> host \<Rightarrow> ctx \<Rightarrow> name \<Rightarrow> asset \<Rightarrow> sys_state \<Rightarrow> sys_state outcome" where
  "addvote C H x voter vote_staked s =
     (if \<not> has_auth x voter then Inl (MissingAuth voter)
      else rbind (core_symbol C H s) (\<lambda>core.
        if a_symbol vote_staked \<noteq> core then Inl (Check ''vote_staked must be core symbol'')
        else if \<not> 0 < a_amount vote_staked then Inl (Check ''vote_staked must be positive'')
        else rbind (if a_amount (g_total_vote_stake (gs H s)) = 0 then Inr vote_staked
                    else asset_add C (g_total_vote_stake (gs H s)) vote_staked) (\<lambda>total.
        let votes = a_amount vote_staked;
            s1 = s\<lparr>sg := Some ((gs H s)\<lparr>g_total_vote_stake := total\<rparr>)\<rparr>;
            effects = [Send (Token_transfer [(voter, active_permission)] voter vote_account vote_staked ''addvote''),
                       Send (Reward_addvote [(self x, active_permission), (voter, active_permission)] voter votes)]
        in case tfind (s_voters s) voter of
          Some v \<Rightarrow>
            rbind (if vi_producers v \<noteq> [] then update_producer_votes H (vi_producers v) votes (s_producers s)
                   else Inr (s_producers s)) (\<lambda>P1.
            Inr (s1\<lparr>s_producers := P1,
                    s_voters := tput voter (v\<lparr>vi_votes := i64 (vi_votes v + votes)\<rparr>) (s_voters s)\<rparr>, effects))
        | None \<Rightarrow>
            Inr (s1\<lparr>s_voters := tput voter
                    \<lparr>vi_owner = voter, vi_producers = [], vi_votes = votes, vi_last_unvoted_time = 0,
                     vi_revision = 0\<rparr> (s_voters s)\<rparr>, effects))))"

definition subvote ::
  "cdt \<Rightarrow> host \<Rightarrow> ctx \<Rightarrow> name \<Rightarrow> asset \<Rightarrow> sys_state \<Rightarrow> sys_state outcome" where
  "subvote C H x voter vote_staked s =
     (if \<not> has_auth x voter then Inl (MissingAuth voter)
      else if \<not> (g_election_activated_time (gs H s) \<noteq> 0 \<and> g_election_activated_time (gs H s) \<le> now x)
        then Inl (Check ''cannot subvote until the election is activated'')
      else rbind (core_symbol C H s) (\<lambda>core.
        if a_symbol vote_staked \<noteq> core then Inl (Check ''vote_staked must be core symbol'')
        else if \<not> 0 < a_amount vote_staked then Inl (Check ''vote_staked must be positive'')
        else let votes = a_amount vote_staked in
        case tfind (s_voters s) voter of
          None \<Rightarrow> Inl (Check ''voter not found'')
        | Some v \<Rightarrow>
            if \<not> votes \<le> vi_votes v then Inl (Check ''votes insufficent'')
            else rbind (asset_ge C (g_total_vote_stake (gs H s)) vote_staked) (\<lambda>enough.
            if \<not> enough then Inl (Check ''Total vote stake insufficent'')
            else rbind (asset_sub C (g_total_vote_stake (gs H s)) vote_staked) (\<lambda>total.
            if tfind (s_vote_refunds s) voter \<noteq> None
              then Inl (CheckC VOTE_REFUND_ERROR ''This account already has a vote refund'')
            else rbind (update_producer_votes H (vi_producers v) (i64 (- votes)) (s_producers s)) (\<lambda>P1.
              Inr (s\<lparr>sg := Some ((gs H s)\<lparr>g_total_vote_stake := total\<rparr>), s_producers := P1,
                     s_voters := tput voter
                       (v\<lparr>vi_votes := i64 (vi_votes v - votes), vi_last_unvoted_time := to_slot C (now x)\<rparr>)
                       (s_voters s),
                     s_vote_refunds := tput voter
                       \<lparr>vr_owner = voter, vr_request_time = to_sec (now x), vr_vote_staked = vote_staked\<rparr>
                       (s_vote_refunds s)\<rparr>,
                   [Send (Reward_subvote [(self x, active_permission), (voter, active_permission)] voter votes),
                    Deferred_voterefund voter refund_delay_sec]))))))"

definition voterefund :: "ctx \<Rightarrow> name \<Rightarrow> sys_state \<Rightarrow> sys_state outcome" where
  "voterefund x owner s =
     (case tfind (s_vote_refunds s) owner of
        None \<Rightarrow> Inl (Check ''no vote refund found'')
      | Some r \<Rightarrow>
          if \<not> uint (vr_request_time r) * 1000000 + refund_delay_sec * 1000000 \<le> now x
            then Inl (Check ''refund period not mature yet'')
          else Inr (s\<lparr>s_vote_refunds := terase owner (s_vote_refunds s)\<rparr>,
                    [Send (Token_transfer [(vote_account, active_permission)] vote_account (vr_owner r)
                       (vr_vote_staked r) ''voterefund'')]))"

end
