(* ===== verification/Voting_Props.thy ===== *)
theory Voting_Props
  imports Voting
begin

text \<open>
  The voting books of \<open>flon.system\<close>. \<open>voting_inv\<close>: the total vote stake is the sum of the voters'
  votes and the votes of each producer are the votes of the voters that list it. Every action keeps
  it, and the stake held for voters and pending refunds changes exactly by the token transfers the
  actions order.
\<close>

section \<open>The vote update loop\<close>

definition bump :: "int \<Rightarrow> producer_info \<Rightarrow> producer_info" where
  "bump d p = p\<lparr>pi_total_votes := pi_total_votes p + d\<rparr>"

lemma bump_simps [simp]:
  "pi_total_votes (bump d p) = pi_total_votes p + d" "pi_owner (bump d p) = pi_owner p"
  "pi_is_active (bump d p) = pi_is_active p" "bump 0 p = p" "map_option (bump 0) z = z" "bump e (bump d p) = bump (d + e) p"
  by (simp_all add: bump_def) (cases z; simp add: bump_def)

definition bumped :: "name list \<Rightarrow> int \<Rightarrow> (name, producer_info) table \<Rightarrow> (name, producer_info) table" where
  "bumped ns d P = map (\<lambda>(q, p). (q, bump (if q \<in> set ns then d else 0) p)) P"

lemma tfind_bumped: "tfind (bumped ns d P) q = map_option (bump (if q \<in> set ns then d else 0)) (tfind P q)"
  by (induction P) (auto simp: bumped_def)

lemma tfind_bumped_Some:
  "tfind (bumped ns d P) q = Some p \<longleftrightarrow> (\<exists>p0. tfind P q = Some p0 \<and> p = bump (if q \<in> set ns then d else 0) p0)"
  by (auto simp: tfind_bumped)

lemma twf_bumped: "twf P \<Longrightarrow> twf (bumped ns d P)"
  by (simp add: twf_def bumped_def comp_def split_beta)

lemma bumped_Nil [simp]: "bumped [] d P = P"
  by (simp add: bumped_def split_beta)

lemma bumped_one: "twf P \<Longrightarrow> tfind P q = Some p \<Longrightarrow> tput q (bump d p) P = bumped [q] d P"
  by (rule twf_ext) (auto simp: twf_tput twf_bumped tfind_tput tfind_bumped fun_eq_iff option.map_ident
      split: option.split)

lemma bumped_Cons: "q \<notin> set ns \<Longrightarrow> bumped ns d (bumped [q] d P) = bumped (q # ns) d P"
  by (auto simp: bumped_def)

definition bumpable :: "name list \<Rightarrow> int \<Rightarrow> (name, producer_info) table \<Rightarrow> bool" where
  "bumpable ns d P \<longleftrightarrow> (\<forall>q \<in> set ns. \<exists>p. tfind P q = Some p \<and> (0 < d \<longrightarrow> pi_is_active p)
     \<and> 0 \<le> pi_total_votes p + d)"

definition small_votes :: "name list \<Rightarrow> int \<Rightarrow> (name, producer_info) table \<Rightarrow> bool" where
  "small_votes ns d P \<longleftrightarrow> (\<forall>q \<in> set ns. \<forall>p. tfind P q = Some p \<longrightarrow> \<bar>pi_total_votes p + d\<bar> \<le> max_amount)"

lemma i64_small: "\<bar>x\<bar> \<le> max_amount \<Longrightarrow> i64 x = x"
  by (rule i64_id) (auto simp: max_amount_def)

lemma bumped_other: "a \<notin> set ns \<Longrightarrow> tfind (bumped ns d P) a = tfind P a"
  by (cases "tfind P a") (simp_all add: tfind_bumped)

lemma bumped_all: "q \<notin> set ns \<Longrightarrow> \<forall>a \<in> set ns. tfind (bumped [q] d P) a = tfind P a"
  by (auto intro: bumped_other)

lemma bumpable_Cons:
  "q \<notin> set ns \<Longrightarrow> bumpable (q # ns) d P \<longleftrightarrow>
     (\<exists>p. tfind P q = Some p \<and> (0 < d \<longrightarrow> pi_is_active p) \<and> 0 \<le> pi_total_votes p + d) \<and> bumpable ns d (bumped [q] d P)"
  using bumped_all [of q ns d P] by (simp add: bumpable_def)

lemma update_one_Inr:
  assumes "twf P" "small_votes (q # ns) d P"
  shows "update_one H d q P = Inr P' \<longleftrightarrow>
    (\<exists>p. tfind P q = Some p \<and> (0 < d \<longrightarrow> pi_is_active p) \<and> 0 \<le> pi_total_votes p + d) \<and> P' = bumped [q] d P"
proof (cases "tfind P q")
  case (Some p)
  then have "i64 (pi_total_votes p + d) = pi_total_votes p + d" using assms(2) by (simp add: small_votes_def i64_small)
  then show ?thesis using Some bumped_one [OF assms(1) Some, of d] by (auto simp: update_one_def Let_def bump_def)
qed (simp add: update_one_def)

text \<open>The loop succeeds exactly when every producer is registered, active if votes are added, and
  stays non-negative; then it adds the votes to each of them.\<close>

lemma update_Inr:
  "distinct ns \<Longrightarrow> twf P \<Longrightarrow> small_votes ns d P \<Longrightarrow>
     update_producer_votes H ns d P = Inr P' \<longleftrightarrow> bumpable ns d P \<and> P' = bumped ns d P"
proof (induction ns arbitrary: P)
  case Nil
  then show ?case by (auto simp: update_producer_votes_def bumpable_def)
next
  case (Cons q ns)
  have q: "q \<notin> set ns" "distinct ns" using Cons.prems(1) by auto
  have sm: "small_votes ns d (bumped [q] d P)"
    using Cons.prems(3) bumped_all [OF q(1), of d P] by (simp add: small_votes_def)
  have "update_producer_votes H (q # ns) d P = Inr P' \<longleftrightarrow>
      (\<exists>P1. update_one H d q P = Inr P1 \<and> update_producer_votes H ns d P1 = Inr P')"
    by (simp add: update_producer_votes_def)
  then show ?case
    using update_one_Inr [OF Cons.prems(2,3)] bumpable_Cons [OF q(1), of d P] bumped_Cons [OF q(1), of d P]
      Cons.IH [OF q(2) twf_bumped [OF Cons.prems(2)] sm] by auto
qed

section \<open>The two vectors of voteproducer\<close>

definition disjoint_buffers :: "nat \<Rightarrow> name list \<Rightarrow> nat \<Rightarrow> name list \<Rightarrow> bool" where
  "disjoint_buffers po qs pn ns \<longleftrightarrow> po + 8 * length qs \<le> pn \<or> pn + 8 * length ns \<le> po"

lemma diff_loop_low: "po + 8 * length qs \<le> pn \<Longrightarrow> diff_loop po pn qs ns = (qs, [], ns)"
  by (induction po pn qs ns rule: diff_loop.induct) auto

lemma diff_loop_high: "pn + 8 * length ns \<le> po \<Longrightarrow> diff_loop po pn qs ns = (qs, [], ns)"
  by (induction po pn qs ns rule: diff_loop.induct) auto

lemma diff_loop_disjoint: "disjoint_buffers po qs pn ns \<Longrightarrow> diff_loop po pn qs ns = (qs, [], ns)"
  by (auto simp: disjoint_buffers_def diff_loop_low diff_loop_high)

section \<open>The books\<close>

definition backing :: "name \<Rightarrow> name \<Rightarrow> voter_info \<Rightarrow> int" where
  "backing q k v = (if q \<in> set (vi_producers v) then vi_votes v else 0)"

definition voter_row_ok :: "(name, producer_info) table \<Rightarrow> name \<Rightarrow> voter_info \<Rightarrow> bool" where
  "voter_row_ok P k v \<longleftrightarrow> vi_owner v = k \<and> 0 \<le> vi_votes v \<and> ascending (vi_producers v)
     \<and> (\<forall>q \<in> set (vi_producers v). tfind P q \<noteq> None)"

definition votes_ok :: "(name, voter_info) table \<Rightarrow> (name, producer_info) table \<Rightarrow> int \<Rightarrow> bool" where
  "votes_ok V P stk \<longleftrightarrow> twf V \<and> twf P
   \<and> (\<forall>k v. tfind V k = Some v \<longrightarrow> voter_row_ok P k v)
   \<and> (\<forall>q p. tfind P q = Some p \<longrightarrow> pi_owner p = q \<and> pi_total_votes p = tsum (backing q) V)
   \<and> tsum (\<lambda>_. vi_votes) V = stk \<and> stk \<le> max_amount"

definition refunds_ok :: "cdt \<Rightarrow> symbol \<Rightarrow> (name, vote_refund) table \<Rightarrow> bool" where
  "refunds_ok C core R \<longleftrightarrow> twf R \<and> (\<forall>k r. tfind R k = Some r \<longrightarrow> vr_owner r = k
     \<and> symbol_is_valid C core \<and> a_symbol (vr_vote_staked r) = core \<and> 0 < a_amount (vr_vote_staked r))"

abbreviation stake :: "host \<Rightarrow> sys_state \<Rightarrow> asset" where
  "stake H s \<equiv> g_total_vote_stake (gs H s)"

definition voting_inv :: "cdt \<Rightarrow> host \<Rightarrow> sys_state \<Rightarrow> bool" where
  "voting_inv C H s \<longleftrightarrow> votes_ok (s_voters s) (s_producers s) (a_amount (stake H s))
     \<and> refunds_ok C (a_symbol (stake H s)) (s_vote_refunds s)"

text \<open>The stake held for the voters: what is voting and what waits for its refund.\<close>

definition held :: "host \<Rightarrow> sys_state \<Rightarrow> int" where
  "held H s = a_amount (stake H s) + tsum (\<lambda>_ r. a_amount (vr_vote_staked r)) (s_vote_refunds s)"

lemma backing_bounds:
  assumes "votes_ok V P stk"
  shows "0 \<le> tsum (backing q) V" "tsum (backing q) V \<le> stk"
    "tfind V k = Some v \<Longrightarrow> backing q k v \<le> tsum (backing q) V"
    "tfind V k = Some v \<Longrightarrow> tsum (backing q) V - backing q k v + vi_votes v \<le> stk"
proof -
  have rows: "0 \<le> vi_votes v" if "tfind V k = Some v" for k v
    using assms that by (auto simp: votes_ok_def voter_row_ok_def)
  have wf: "twf V" and tot: "tsum (\<lambda>_. vi_votes) V = stk" using assms by (auto simp: votes_ok_def)
  show "0 \<le> tsum (backing q) V" using wf rows by (intro tsum_nonneg) (auto simp: backing_def)
  show "tfind V k = Some v \<Longrightarrow> backing q k v \<le> tsum (backing q) V"
    using wf rows by (intro tsum_row_le) (auto simp: backing_def)
  have le: "tsum (backing q) V \<le> tsum (\<lambda>_. vi_votes) V" using wf rows by (intro tsum_mono) (auto simp: backing_def)
  then show "tsum (backing q) V \<le> stk" using tot by simp
  assume k: "tfind V k = Some v"
  have "vi_votes v - backing q k v \<le> tsum (\<lambda>k v. vi_votes v - backing q k v) V"
    using wf rows k by (intro tsum_row_le [where f = "\<lambda>k v. vi_votes v - backing q k v"]) (auto simp: backing_def)
  then show "tsum (backing q) V - backing q k v + vi_votes v \<le> stk"
    using tsum_add [of "\<lambda>k v. vi_votes v - backing q k v" "backing q" V] tot by simp
qed

lemma votes_ok_row: "votes_ok V P stk \<Longrightarrow> tfind V k = Some v \<Longrightarrow> voter_row_ok P k v"
  by (simp add: votes_ok_def)

lemma votes_ok_producer:
  "votes_ok V P stk \<Longrightarrow> tfind P q = Some p \<Longrightarrow> pi_owner p = q \<and> pi_total_votes p = tsum (backing q) V"
  by (simp add: votes_ok_def)

lemma ascending_distinct: "ascending ns \<Longrightarrow> distinct ns"
  by (simp add: ascending_iff strict_sorted_iff)

text \<open>Replacing one voter's row and moving the producers' votes along.\<close>

lemma votes_ok_revote:
  assumes ok: "votes_ok V P stk" and P': "twf P'" "\<And>q. tfind P' q = None \<longleftrightarrow> tfind P q = None"
    and rows: "\<And>q p. tfind P' q = Some p \<Longrightarrow> pi_owner p = q
       \<and> pi_total_votes p = tsum (backing q) V - (case tfind V n of None \<Rightarrow> 0 | Some v \<Rightarrow> backing q n v) + backing q n w"
    and w: "voter_row_ok P' n w"
    and stk: "stk' = stk - (case tfind V n of None \<Rightarrow> 0 | Some v \<Rightarrow> vi_votes v) + vi_votes w" "stk' \<le> max_amount"
  shows "votes_ok (tput n w V) P' stk'"
proof -
  have wf: "twf V" and tot: "tsum (\<lambda>_. vi_votes) V = stk" using ok by (auto simp: votes_ok_def)
  have "voter_row_ok P' k v" if "tfind (tput n w V) k = Some v" for k v
    using that w ok P'(2) by (auto simp: tfind_tput votes_ok_def voter_row_ok_def split: if_splits)
  moreover have "tsum (backing q) (tput n w V)
      = tsum (backing q) V - (case tfind V n of None \<Rightarrow> 0 | Some v \<Rightarrow> backing q n v) + backing q n w" for q
    using wf by (simp add: tsum_tput)
  moreover have "tsum (\<lambda>_. vi_votes) (tput n w V) = stk'" using wf tot stk by (simp add: tsum_tput)
  ultimately show ?thesis
    using wf P'(1) rows stk(2) unfolding votes_ok_def by (simp add: twf_tput)
qed

text \<open>The same producers with unchanged owners and votes.\<close>

lemma votes_ok_producers:
  assumes "votes_ok V P stk" "tfind P n = None \<longrightarrow> pi_total_votes p = tsum (backing n) V" "pi_owner p = n"
    "\<And>p0. tfind P n = Some p0 \<Longrightarrow> pi_total_votes p = pi_total_votes p0"
  shows "votes_ok V (tput n p P) stk"
proof -
  have "voter_row_ok (tput n p P) k v" if "tfind V k = Some v" for k v
    using votes_ok_row [OF assms(1) that] by (auto simp: voter_row_ok_def tfind_tput)
  moreover have "pi_owner p' = q \<and> pi_total_votes p' = tsum (backing q) V" if "tfind (tput n p P) q = Some p'" for q p'
    using that assms by (cases "tfind P n") (auto simp: tfind_tput votes_ok_def split: if_splits)
  ultimately show ?thesis using assms(1) by (simp add: votes_ok_def twf_tput)
qed

text \<open>A producer nobody can vote for has no votes.\<close>

lemma unregistered_unbacked:
  assumes "votes_ok V P stk" "tfind P q = None"
  shows "tsum (backing q) V = 0"
proof -
  have "backing q k v = 0" if "tfind V k = Some v" for k v
    using votes_ok_row [OF assms(1) that] assms(2) by (auto simp: voter_row_ok_def backing_def)
  then have "tsum (backing q) V = tsum (\<lambda>_ _. 0) V" using assms(1) by (intro tsum_cong) (auto simp: votes_ok_def)
  then show ?thesis by simp
qed

section \<open>Actions\<close>

text \<open>The votes of one voter taken from, or given to, the producers it lists.\<close>

lemma withdraw_votes:
  assumes ok: "votes_ok V P stk" and v: "tfind V n = Some v" and d: "0 \<le> d" "d \<le> vi_votes v"
  shows "update_producer_votes H (vi_producers v) (i64 (- d)) P = Inr (bumped (vi_producers v) (- d) P)"
proof -
  have row: "voter_row_ok P n v" by (rule votes_ok_row [OF ok v])
  have "vi_votes v \<le> stk" using backing_bounds(3,4) [OF ok v, of undefined] by linarith
  moreover have m: "stk \<le> max_amount" using ok by (simp add: votes_ok_def)
  ultimately have neg: "i64 (- d) = - d" using d by (intro i64_small) auto
  have rng: "\<exists>p. tfind P q = Some p \<and> d \<le> pi_total_votes p \<and> pi_total_votes p \<le> stk" if q: "q \<in> set (vi_producers v)" for q
  proof -
    obtain p where p: "tfind P q = Some p" using row q unfolding voter_row_ok_def by blast
    have "backing q n v = vi_votes v" using q by (simp add: backing_def)
    then show ?thesis
      using p votes_ok_producer [OF ok p] backing_bounds(2) [OF ok, of q] backing_bounds(3) [OF ok v, of q] d by auto
  qed
  have "bumpable (vi_producers v) (- d) P"
    unfolding bumpable_def using rng d by (metis add_uminus_conv_diff diff_ge_0_iff_ge neg_0_less_iff_less not_le)
  moreover have "small_votes (vi_producers v) (- d) P"
    unfolding small_votes_def
  proof (intro ballI allI impI)
    fix q p assume "q \<in> set (vi_producers v)" "tfind P q = Some p"
    then show "\<bar>pi_total_votes p + - d\<bar> \<le> max_amount" using rng [of q] d m by auto
  qed
  ultimately show ?thesis
    using update_Inr [of "vi_producers v" P "- d"] ok row neg
    by (simp add: votes_ok_def voter_row_ok_def ascending_distinct)
qed

definition votable :: "(name, producer_info) table \<Rightarrow> int \<Rightarrow> name list \<Rightarrow> bool" where
  "votable P d ns \<longleftrightarrow> (\<forall>q \<in> set ns. \<exists>p. tfind P q = Some p \<and> (0 < d \<longrightarrow> pi_is_active p))"

lemma give_votes:
  assumes P: "twf P" and ns: "ascending ns" and d: "0 \<le> d"
    and rng: "\<And>q p. q \<in> set ns \<Longrightarrow> tfind P q = Some p \<Longrightarrow> 0 \<le> pi_total_votes p \<and> pi_total_votes p + d \<le> max_amount"
  shows "update_producer_votes H ns d P = Inr P' \<longleftrightarrow> votable P d ns \<and> P' = bumped ns d P"
proof -
  have "small_votes ns d P" using rng d unfolding small_votes_def by fastforce
  moreover have "bumpable ns d P \<longleftrightarrow> votable P d ns"
    using rng d unfolding bumpable_def votable_def by fastforce
  ultimately show ?thesis using update_Inr [OF ascending_distinct [OF ns] P] by simp
qed

lemma votable_bumped: "votable (bumped qs e P) d ns \<longleftrightarrow> votable P d ns"
  unfolding votable_def tfind_bumped_Some by (rule ball_cong [OF refl]) auto

definition revoted_state ::
  "cdt \<Rightarrow> ctx \<Rightarrow> name \<Rightarrow> voter_info \<Rightarrow> name list \<Rightarrow> sys_state \<Rightarrow> sys_state" where
  "revoted_state C x n v ns s =
     s\<lparr>s_producers := bumped ns (vi_votes v) (bumped (vi_producers v) (- vi_votes v) (s_producers s)),
       s_voters := tput n (v\<lparr>vi_producers := ns, vi_last_unvoted_time := to_slot C (now x)\<rparr>) (s_voters s)\<rparr>"

lemma voteproducer_Inr:
  assumes I: "voting_inv C H s" and v: "tfind (s_voters s) n = Some v"
    and dis: "disjoint_buffers po (vi_producers v) pn ns"
  shows "voteproducer C H x po pn n ns s = Inr r \<longleftrightarrow>
     has_auth x n \<and> length ns \<le> max_vote_producer_count \<and> ascending ns \<and> vi_producers v \<noteq> ns
     \<and> votable (s_producers s) (vi_votes v) ns
     \<and> r = (revoted_state C x n v ns s,
         [Send (Reward_voteproducer [(self x, active_permission), (n, active_permission)] n ns)])"
proof (cases "ascending ns")
  case True
  let ?P = "s_producers s" and ?P1 = "bumped (vi_producers v) (- vi_votes v) (s_producers s)"
  have ok: "votes_ok (s_voters s) ?P (a_amount (stake H s))" using I by (simp add: voting_inv_def)
  have row: "voter_row_ok ?P n v" by (rule votes_ok_row [OF ok v])
  have nn: "0 \<le> vi_votes v" using row by (simp add: voter_row_ok_def)
  note w = withdraw_votes [OF ok v nn order_refl, of H]
  have "0 \<le> pi_total_votes p \<and> pi_total_votes p + vi_votes v \<le> max_amount" if q: "tfind ?P1 q = Some p" for q p
  proof -
    obtain p0 where p0: "tfind ?P q = Some p0" "pi_total_votes p = pi_total_votes p0 - backing q n v"
      using q by (auto simp: tfind_bumped_Some backing_def)
    then show ?thesis
      using votes_ok_producer [OF ok p0(1)] backing_bounds(3,4) [OF ok v, of q] ok by (auto simp: votes_ok_def)
  qed
  then have g: "update_producer_votes H ns (vi_votes v) ?P1 = Inr P3 \<longleftrightarrow>
      votable ?P (vi_votes v) ns \<and> P3 = bumped ns (vi_votes v) ?P1" for P3
    using give_votes [OF twf_bumped True nn] ok votable_bumped by (simp add: votes_ok_def)
  have "update_producer_votes H [] 0 ?P1 = Inr ?P1" by (simp add: update_producer_votes_def)
  then show ?thesis
    using True v nn w g diff_loop_disjoint [OF dis] by (auto simp: voteproducer_def revoted_state_def)
next
  case False
  then show ?thesis by (simp add: voteproducer_def)
qed

lemma voteproducer_inv:
  assumes I: "voting_inv C H s" and v: "tfind (s_voters s) n = Some v" and ns: "ascending ns"
    and vot: "votable (s_producers s) (vi_votes v) ns"
  shows "voting_inv C H (revoted_state C x n v ns s)"
proof -
  let ?P = "s_producers s"
  let ?P' = "bumped ns (vi_votes v) (bumped (vi_producers v) (- vi_votes v) ?P)"
  let ?w = "v\<lparr>vi_producers := ns, vi_last_unvoted_time := to_slot C (now x)\<rparr>"
  have ok: "votes_ok (s_voters s) ?P (a_amount (stake H s))" using I by (simp add: voting_inv_def)
  have row: "voter_row_ok ?P n v" by (rule votes_ok_row [OF ok v])
  have "votes_ok (tput n ?w (s_voters s)) ?P' (a_amount (stake H s))"
  proof (rule votes_ok_revote [OF ok])
    show "twf ?P'" using ok by (simp add: twf_bumped votes_ok_def)
    show "tfind ?P' q = None \<longleftrightarrow> tfind ?P q = None" for q by (simp add: tfind_bumped)
    show "voter_row_ok ?P' n ?w" using row ns vot by (auto simp: voter_row_ok_def tfind_bumped votable_def)
    show "pi_owner p = q \<and> pi_total_votes p = tsum (backing q) (s_voters s)
        - (case tfind (s_voters s) n of None \<Rightarrow> 0 | Some v \<Rightarrow> backing q n v) + backing q n ?w"
      if "tfind ?P' q = Some p" for q p
      using that v votes_ok_producer [OF ok, of q] by (auto simp: tfind_bumped_Some backing_def)
  qed (use v ok in \<open>auto simp: votes_ok_def\<close>)
  then show ?thesis using I by (simp add: voting_inv_def revoted_state_def gs_def)
qed

text \<open>Adding a stake.\<close>

definition voter_of :: "name \<Rightarrow> sys_state \<Rightarrow> voter_info" where
  "voter_of n s = (case tfind (s_voters s) n of Some v \<Rightarrow> v
     | None \<Rightarrow> \<lparr>vi_owner = n, vi_producers = [], vi_votes = 0, vi_last_unvoted_time = 0, vi_revision = 0\<rparr>)"

lemma voter_of_simps [simp]: "tfind (s_voters s) n = Some v \<Longrightarrow> voter_of n s = v"
  by (simp add: voter_of_def)

definition staked_state :: "host \<Rightarrow> name \<Rightarrow> int \<Rightarrow> symbol \<Rightarrow> sys_state \<Rightarrow> sys_state" where
  "staked_state H n votes core s =
     s\<lparr>sg := Some ((gs H s)\<lparr>g_total_vote_stake := mk_asset (a_amount (stake H s) + votes) core\<rparr>),
       s_producers := bumped (vi_producers (voter_of n s)) votes (s_producers s),
       s_voters := tput n ((voter_of n s)\<lparr>vi_votes := vi_votes (voter_of n s) + votes\<rparr>) (s_voters s)\<rparr>"

lemma voter_of_ok:
  assumes "votes_ok (s_voters s) (s_producers s) stk"
  shows "voter_row_ok (s_producers s) n (voter_of n s)" "vi_votes (voter_of n s) \<le> stk"
    "\<And>q. (case tfind (s_voters s) n of None \<Rightarrow> 0 | Some v \<Rightarrow> backing q n v) = backing q n (voter_of n s)"
    "(case tfind (s_voters s) n of None \<Rightarrow> 0 | Some v \<Rightarrow> vi_votes v) = vi_votes (voter_of n s)"
proof -
  show "voter_row_ok (s_producers s) n (voter_of n s)"
    using votes_ok_row [OF assms, of n] by (auto simp: voter_of_def voter_row_ok_def split: option.split)
  show "vi_votes (voter_of n s) \<le> stk"
    using backing_bounds(1,2) [OF assms, of undefined] backing_bounds(3,4) [OF assms, of n _ undefined]
    by (auto simp: voter_of_def split: option.split)
qed (auto simp: voter_of_def backing_def split: option.split)

lemma gs_sg [simp]: "sg s = Some g \<Longrightarrow> gs H s = g"
  by (simp add: gs_def)

lemma addvote_Inr:
  assumes C: "cdt_laws C" and I: "voting_inv C H s" and q: "amount_ok (a_amount q)"
  shows "addvote C H x n q s = Inr r \<longleftrightarrow>
     has_auth x n \<and> symbol_is_valid C (a_symbol q) \<and> a_symbol q = a_symbol (stake H s) \<and> 0 < a_amount q
     \<and> a_amount (stake H s) + a_amount q \<le> max_amount
     \<and> votable (s_producers s) (a_amount q) (vi_producers (voter_of n s))
     \<and> r = (staked_state H n (a_amount q) (a_symbol q) s,
         [Send (Token_transfer [(n, active_permission)] n vote_account q ''addvote''),
          Send (Reward_addvote [(self x, active_permission), (n, active_permission)] n (a_amount q))])"
proof (cases "symbol_is_valid C (a_symbol q) \<and> a_symbol q = a_symbol (stake H s) \<and> 0 < a_amount q")
  case True
  have ok: "votes_ok (s_voters s) (s_producers s) (a_amount (stake H s))" using I by (simp add: voting_inv_def)
  note vr = voter_of_ok [OF ok, where n = n]
  have st: "0 \<le> a_amount (stake H s)" using backing_bounds(1,2) [OF ok, of undefined] by linarith
  have total: "(if a_amount (stake H s) = 0 then Inr q else asset_add C (stake H s) q) = Inr t \<longleftrightarrow>
      a_amount (stake H s) + a_amount q \<le> max_amount \<and> t = mk_asset (a_amount (stake H s) + a_amount q) (a_symbol q)" for t
    using True q st C max_amount_pos by (cases q) (auto simp: cdt_inv amount_ok_def)
  have upd: "update_producer_votes H (vi_producers (voter_of n s)) (a_amount q) (s_producers s) = Inr P' \<longleftrightarrow>
      votable (s_producers s) (a_amount q) (vi_producers (voter_of n s))
      \<and> P' = bumped (vi_producers (voter_of n s)) (a_amount q) (s_producers s)"
    if "a_amount (stake H s) + a_amount q \<le> max_amount" for P'
  proof (rule give_votes)
    show "0 \<le> pi_total_votes p \<and> pi_total_votes p + a_amount q \<le> max_amount" if "tfind (s_producers s) a = Some p" for a p
      using votes_ok_producer [OF ok that] backing_bounds(1,2) [OF ok, of a] \<open>a_amount (stake H s) + a_amount q \<le> max_amount\<close>
      by linarith
  qed (use ok vr True in \<open>auto simp: votes_ok_def voter_row_ok_def\<close>)
  have w: "i64 (vi_votes (voter_of n s) + a_amount q) = vi_votes (voter_of n s) + a_amount q"
    if "a_amount (stake H s) + a_amount q \<le> max_amount"
    using that vr(1,2) True by (intro i64_small) (auto simp: voter_row_ok_def)
  show ?thesis
  proof (cases "tfind (s_voters s) n")
    case None
    then show ?thesis
      using True total by (auto simp: addvote_def Let_def staked_state_def voter_of_def votable_def)
  next
    case (Some v)
    have if_upd: "(if vi_producers v \<noteq> [] then update_producer_votes H (vi_producers v) (a_amount q) (s_producers s)
        else Inr (s_producers s)) = update_producer_votes H (vi_producers v) (a_amount q) (s_producers s)"
      by (simp add: update_producer_votes_def)
    show ?thesis
    proof (cases "a_amount (stake H s) + a_amount q \<le> max_amount")
      case room: True
      have t: "(if a_amount (stake H s) = 0 then Inr q else asset_add C (stake H s) q)
          = Inr (mk_asset (a_amount (stake H s) + a_amount q) (a_symbol q))" using total room by blast
      show ?thesis
        unfolding addvote_def Let_def t if_upd staked_state_def
        using Some True w [OF room] upd [OF room] room
        by (auto simp: if_upd)
    next
      case False
      then show ?thesis using total True unfolding addvote_def Let_def by auto
    qed
  qed
qed (auto simp: addvote_def)

lemma staked_inv:
  assumes I: "voting_inv C H s" and "0 < votes" "a_amount (stake H s) + votes \<le> max_amount"
    and sy: "a_symbol (stake H s) = core"
  shows "voting_inv C H (staked_state H n votes core s)"
    "held H (staked_state H n votes core s) = held H s + votes"
proof -
  let ?v = "voter_of n s" and ?P = "s_producers s" and ?P' = "bumped (vi_producers (voter_of n s)) votes (s_producers s)"
  let ?w = "?v\<lparr>vi_votes := vi_votes ?v + votes\<rparr>"
  have ok: "votes_ok (s_voters s) ?P (a_amount (stake H s))" using I by (simp add: voting_inv_def)
  note vr = voter_of_ok [OF ok, where n = n]
  have "votes_ok (tput n ?w (s_voters s)) ?P' (a_amount (stake H s) + votes)"
  proof (rule votes_ok_revote [OF ok])
    show "twf ?P'" using ok by (simp add: twf_bumped votes_ok_def)
    show "tfind ?P' q = None \<longleftrightarrow> tfind ?P q = None" for q by (simp add: tfind_bumped)
    show "voter_row_ok ?P' n ?w" using vr(1) assms(2) by (auto simp: voter_row_ok_def tfind_bumped)
    show "pi_owner p = q \<and> pi_total_votes p = tsum (backing q) (s_voters s)
        - (case tfind (s_voters s) n of None \<Rightarrow> 0 | Some v \<Rightarrow> backing q n v) + backing q n ?w"
      if "tfind ?P' q = Some p" for q p
      using that vr(3) [of q] votes_ok_producer [OF ok, of q] by (auto simp: tfind_bumped_Some backing_def)
  qed (use vr(4) assms in auto)
  then show "voting_inv C H (staked_state H n votes core s)"
    using I sy by (simp add: voting_inv_def staked_state_def)
  show "held H (staked_state H n votes core s) = held H s + votes"
    by (simp add: held_def staked_state_def)
qed

text \<open>Withdrawing a stake.\<close>

definition unstaked_state :: "cdt \<Rightarrow> host \<Rightarrow> ctx \<Rightarrow> name \<Rightarrow> voter_info \<Rightarrow> asset \<Rightarrow> sys_state \<Rightarrow> sys_state" where
  "unstaked_state C H x n v q s =
     s\<lparr>sg := Some ((gs H s)\<lparr>g_total_vote_stake := mk_asset (a_amount (stake H s) - a_amount q) (a_symbol q)\<rparr>),
       s_producers := bumped (vi_producers v) (- a_amount q) (s_producers s),
       s_voters := tput n (v\<lparr>vi_votes := vi_votes v - a_amount q, vi_last_unvoted_time := to_slot C (now x)\<rparr>) (s_voters s),
       s_vote_refunds := tput n \<lparr>vr_owner = n, vr_request_time = to_sec (now x), vr_vote_staked = q\<rparr> (s_vote_refunds s)\<rparr>"

definition election_active :: "host \<Rightarrow> ctx \<Rightarrow> sys_state \<Rightarrow> bool" where
  "election_active H x s \<longleftrightarrow> g_election_activated_time (gs H s) \<noteq> 0 \<and> g_election_activated_time (gs H s) \<le> now x"

lemma subvote_Inr:
  assumes C: "cdt_laws C" and I: "voting_inv C H s"
  shows "subvote C H x n q s = Inr r \<longleftrightarrow>
     has_auth x n \<and> election_active H x s \<and> symbol_is_valid C (a_symbol q) \<and> a_symbol q = a_symbol (stake H s)
     \<and> 0 < a_amount q \<and> tfind (s_vote_refunds s) n = None
     \<and> (\<exists>v. tfind (s_voters s) n = Some v \<and> a_amount q \<le> vi_votes v
         \<and> r = (unstaked_state C H x n v q s,
             [Send (Reward_subvote [(self x, active_permission), (n, active_permission)] n (a_amount q)),
              Deferred_voterefund n refund_delay_sec]))"
proof (cases "\<exists>v. tfind (s_voters s) n = Some v \<and> symbol_is_valid C (a_symbol q) \<and> a_symbol q = a_symbol (stake H s)
      \<and> 0 < a_amount q \<and> a_amount q \<le> vi_votes v")
  case True
  then obtain v where v: "tfind (s_voters s) n = Some v" and g: "symbol_is_valid C (a_symbol q)"
      "a_symbol q = a_symbol (stake H s)" "0 < a_amount q" "a_amount q \<le> vi_votes v" by blast
  have ok: "votes_ok (s_voters s) (s_producers s) (a_amount (stake H s))" using I by (simp add: voting_inv_def)
  have vs: "vi_votes v \<le> a_amount (stake H s)" "a_amount (stake H s) \<le> max_amount"
    using voter_of_ok(2) [OF ok, of n] v ok by (auto simp: votes_ok_def)
  have sub: "asset_sub C (stake H s) q = Inr (mk_asset (a_amount (stake H s) - a_amount q) (a_symbol q))"
    using C g vs by (simp add: cdt_inv) (auto intro!: amount_okI)
  have ge: "asset_ge C (stake H s) q = Inr True" using C g vs by (simp add: cdt_inv)
  have w: "i64 (vi_votes v - a_amount q) = vi_votes v - a_amount q" using g vs by (intro i64_small) auto
  have upd: "update_producer_votes H (vi_producers v) (i64 (- a_amount q)) (s_producers s)
      = Inr (bumped (vi_producers v) (- a_amount q) (s_producers s))"
    using withdraw_votes [OF ok v, of "a_amount q" H] g by simp
  show ?thesis
    unfolding subvote_def Let_def
    using v g sub ge w upd by (auto simp: unstaked_state_def election_active_def)
next
  case False
  then show ?thesis unfolding subvote_def Let_def by (auto split: option.splits)
qed

lemma unstaked_inv:
  assumes I: "voting_inv C H s" and v: "tfind (s_voters s) n = Some v" and sy: "a_symbol q = a_symbol (stake H s)"
    "symbol_is_valid C (a_symbol q)" and q: "0 < a_amount q" "a_amount q \<le> vi_votes v" and r: "tfind (s_vote_refunds s) n = None"
  shows "voting_inv C H (unstaked_state C H x n v q s)" "held H (unstaked_state C H x n v q s) = held H s"
proof -
  let ?P = "s_producers s" and ?P' = "bumped (vi_producers v) (- a_amount q) (s_producers s)"
  let ?w = "v\<lparr>vi_votes := vi_votes v - a_amount q, vi_last_unvoted_time := to_slot C (now x)\<rparr>"
  have ok: "votes_ok (s_voters s) ?P (a_amount (stake H s))" and rok: "refunds_ok C (a_symbol (stake H s)) (s_vote_refunds s)"
    using I by (simp_all add: voting_inv_def)
  have row: "voter_row_ok ?P n v" by (rule votes_ok_row [OF ok v])
  have "votes_ok (tput n ?w (s_voters s)) ?P' (a_amount (stake H s) - a_amount q)"
  proof (rule votes_ok_revote [OF ok])
    show "twf ?P'" using ok by (simp add: twf_bumped votes_ok_def)
    show "tfind ?P' q = None \<longleftrightarrow> tfind ?P q = None" for q by (simp add: tfind_bumped)
    show "voter_row_ok ?P' n ?w" using row q by (auto simp: voter_row_ok_def tfind_bumped)
    show "pi_owner p = a \<and> pi_total_votes p = tsum (backing a) (s_voters s)
        - (case tfind (s_voters s) n of None \<Rightarrow> 0 | Some v \<Rightarrow> backing a n v) + backing a n ?w"
      if "tfind ?P' a = Some p" for a p
      using that v votes_ok_producer [OF ok, of a] by (auto simp: tfind_bumped_Some backing_def)
    show "a_amount (stake H s) - a_amount q \<le> max_amount" using ok q by (simp add: votes_ok_def)
  qed (use v in simp)
  then show "voting_inv C H (unstaked_state C H x n v q s)"
    using rok sy q by (auto simp: voting_inv_def unstaked_state_def refunds_ok_def table_simps)
  show "held H (unstaked_state C H x n v q s) = held H s"
    using rok r by (simp add: held_def unstaked_state_def refunds_ok_def tsum_tput)
qed

text \<open>Refunds and registration.\<close>

lemma voterefund_inv:
  assumes I: "voting_inv C H s" and r: "tfind (s_vote_refunds s) n = Some r"
  shows "voting_inv C H (s\<lparr>s_vote_refunds := terase n (s_vote_refunds s)\<rparr>)"
    "held H (s\<lparr>s_vote_refunds := terase n (s_vote_refunds s)\<rparr>) = held H s - a_amount (vr_vote_staked r)"
    "vr_owner r = n" "a_symbol (vr_vote_staked r) = a_symbol (stake H s)"
  using I r by (auto simp: voting_inv_def refunds_ok_def table_simps held_def tsum_terase)

lemma registered_inv:
  assumes I: "voting_inv C H s" and p: "pi_owner p = n"
    "pi_total_votes p = (case tfind (s_producers s) n of None \<Rightarrow> 0 | Some p0 \<Rightarrow> pi_total_votes p0)"
  shows "voting_inv C H (s\<lparr>s_producers := tput n p (s_producers s)\<rparr>)"
proof -
  have ok: "votes_ok (s_voters s) (s_producers s) (a_amount (stake H s))" using I by (simp add: voting_inv_def)
  have "votes_ok (s_voters s) (tput n p (s_producers s)) (a_amount (stake H s))"
    using p unregistered_unbacked [OF ok, of n] by (intro votes_ok_producers [OF ok]) auto
  then show ?thesis using I by (simp add: voting_inv_def)
qed

lemma register_producer_inv:
  assumes I: "voting_inv C H s" and run: "register_producer C H x R n a url loc ratio s = Inr (s', es)"
  shows "voting_inv C H s'" "held H s' = held H s"
proof -
  have ok: "votes_ok (s_voters s) (s_producers s) (a_amount (stake H s))" using I by (simp add: voting_inv_def)
  obtain p where s': "s' = s\<lparr>s_producers := tput n p (s_producers s)\<rparr>" "pi_owner p = n"
    "pi_total_votes p = (case tfind (s_producers s) n of None \<Rightarrow> 0 | Some p0 \<Rightarrow> pi_total_votes p0)"
  proof (cases "tfind (s_producers s) n")
    case None
    then show ?thesis using run by (auto simp: register_producer_def Let_def intro!: that)
  next
    case (Some p0)
    then show ?thesis
      using run votes_ok_producer [OF ok Some] by (auto simp: register_producer_def Let_def intro!: that)
  qed
  then show "voting_inv C H s'" "held H s' = held H s"
    using registered_inv [OF I s'(2,3)] by (simp_all add: held_def)
qed

lemma deactivated_inv:
  assumes I: "voting_inv C H s" and p: "tfind (s_producers s) n = Some p"
  shows "voting_inv C H (s\<lparr>s_producers := tput n (deactivate H p) (s_producers s)\<rparr>)"
    "held H (s\<lparr>s_producers := tput n (deactivate H p) (s_producers s)\<rparr>) = held H s"
proof -
  have "pi_owner p = n" using I p votes_ok_producer by (auto simp: voting_inv_def)
  then show "voting_inv C H (s\<lparr>s_producers := tput n (deactivate H p) (s_producers s)\<rparr>)"
    using p by (intro registered_inv [OF I]) (simp_all add: deactivate_def)
qed (simp add: held_def)

section \<open>A sample state\<close>

definition demo_producer :: "name \<Rightarrow> int \<Rightarrow> bool \<Rightarrow> producer_info" where
  "demo_producer n votes active = \<lparr>pi_owner = n, pi_total_votes = votes, pi_producer_key = [1], pi_is_active = active,
     pi_url = [], pi_unclaimed_rewards = mk_asset 0 demo_symbol, pi_last_claim_time = 1, pi_location = 0,
     pi_producer_authority = convert_to_block_signing_authority [1], pi_reward_shared_ratio = 0, pi_revision = 0\<rparr>"

definition demo_gstate :: eosio_global_state where
  "demo_gstate = (default_gstate demo_host)\<lparr>g_total_vote_stake := mk_asset 300 demo_symbol,
     g_election_activated_time := 1600000000000000\<rparr>"

text \<open>Alice votes for Bob and Carol with a stake of 300; Carol has been deactivated since.\<close>

definition demo_vote :: voter_info where
  "demo_vote = \<lparr>vi_owner = alice, vi_producers = [bob, carol], vi_votes = 300, vi_last_unvoted_time = 0, vi_revision = 0\<rparr>"

definition demo_system :: sys_state where
  "demo_system = system_empty\<lparr>sg := Some demo_gstate, s_voters := [(alice, demo_vote)],
     s_producers := [(alice, demo_producer alice 0 True), (bob, demo_producer bob 300 True),
       (carol, demo_producer carol 300 False)]\<rparr>"

lemma demo_order [simp]: "alice < bob" "bob < carol" "alice < carol"
  by (simp_all add: alice_def bob_def carol_def)

lemma demo_system_simps [simp]:
  "s_voters demo_system = [(alice, demo_vote)]" "s_vote_refunds demo_system = []"
  "s_producers demo_system = [(alice, demo_producer alice 0 True), (bob, demo_producer bob 300 True),
       (carol, demo_producer carol 300 False)]"
  "gs demo_host demo_system = demo_gstate" "g_total_vote_stake demo_gstate = mk_asset 300 demo_symbol"
  "g_election_activated_time demo_gstate = 1600000000000000"
  "s_last_prop_finalizers demo_system = None" "s_finalizers demo_system = []"
  by (simp_all add: demo_system_def system_empty_def gs_def demo_gstate_def)

lemma demo_producer_simps [simp]:
  "pi_owner (demo_producer n k b) = n" "pi_total_votes (demo_producer n k b) = k" "pi_is_active (demo_producer n k b) = b"
  by (simp_all add: demo_producer_def)

lemma demo_vote_simps [simp]:
  "vi_owner demo_vote = alice" "vi_producers demo_vote = [bob, carol]" "vi_votes demo_vote = 300"
  by (simp_all add: demo_vote_def)

lemma demo_system_inv: "voting_inv cdt_ref demo_host demo_system"
  by (auto simp: voting_inv_def votes_ok_def refunds_ok_def twf_def voter_row_ok_def backing_def max_amount_def
      split: if_splits)

end
