(* ===== verification/Finalizers.thy ===== *)
theory Finalizers
  imports Voting
begin

text \<open>
  Finalizer keys (\<open>finalizer_key.cpp\<close>) and the election of the block producers
  (\<open>update_elected_producers\<close> of \<open>voting.cpp\<close>). The cache of the last proposed finalizers lives as
  long as one action and always agrees with the stored row, so it is read from the row; when there
  is no row, the source dereferences an empty \<open>std::optional\<close>, and what that yields is the
  parameter \<open>disengaged_finalizers\<close> of the host.
\<close>

definition finalizer_auth :: "host \<Rightarrow> finalizer_info \<Rightarrow> finalizer_auth_info" where
  "finalizer_auth H f = \<lparr>fai_key_id = fi_active_key_id f,
     fai_fin_authority = \<lparr>fa_description = name_string H (fi_finalizer_name f), fa_weight = 1,
                         fa_public_key = fi_active_key_binary f\<rparr>\<rparr>"

text \<open>\<open>operator==\<close>: weight and description are not compared.\<close>

definition same_auth :: "finalizer_auth_info \<Rightarrow> finalizer_auth_info \<Rightarrow> bool" where
  "same_auth a b \<longleftrightarrow> fai_key_id a = fai_key_id b
     \<and> fa_public_key (fai_fin_authority a) = fa_public_key (fai_fin_authority b)"

definition get_last_proposed_finalizers :: "host \<Rightarrow> sys_state \<Rightarrow> finalizer_auth_info list" where
  "get_last_proposed_finalizers H s =
     (case s_last_prop_finalizers s of Some l \<Rightarrow> l | None \<Rightarrow> disengaged_finalizers H)"

definition is_savanna_consensus :: "host \<Rightarrow> sys_state \<Rightarrow> bool" where
  "is_savanna_consensus H s \<longleftrightarrow> get_last_proposed_finalizers H s \<noteq> []"

definition to_binary :: "host \<Rightarrow> string \<Rightarrow> bytes res" where
  "to_binary H key =
     (if take 7 key \<noteq> ''PUB_BLS'' then Inl (Check (''finalizer key does not start with PUB_BLS: '' @ key))
      else decode_bls_public_key H key)"

text \<open>Lookup in the secondary index over the hash of the binary key.\<close>

definition find_key_by_hash ::
  "host \<Rightarrow> bytes \<Rightarrow> (64 word, finalizer_key_info) table \<Rightarrow> finalizer_key_info option" where
  "find_key_by_hash H h K = map_option snd (find (\<lambda>(_, k). sha256 H (fk_finalizer_key_binary k) = h) K)"

definition get_finalizer_key_hash :: "host \<Rightarrow> string \<Rightarrow> bytes res" where
  "get_finalizer_key_hash H key = rbind (to_binary H key) (\<lambda>b. Inr (sha256 H b))"

definition get_finalizer_itr :: "host \<Rightarrow> name \<Rightarrow> sys_state \<Rightarrow> finalizer_info res" where
  "get_finalizer_itr H n s =
     (case tfind (s_finalizers s) n of
        None \<Rightarrow> Inl (Check (''finalizer '' @ name_string H n @ '' has not registered any finalizer keys''))
      | Some f \<Rightarrow>
          if \<not> 0 < fi_finalizer_key_count f
            then Inl (Check (''finalizer '' @ name_string H n @ ''  must have at least one registered finalizer keys, has ''
                        @ dec (unat (fi_finalizer_key_count f))))
          else Inr f)"

definition set_proposed_finalizers ::
  "host \<Rightarrow> finalizer_auth_info list \<Rightarrow> sys_state \<Rightarrow> sys_state \<times> effect list" where
  "set_proposed_finalizers H proposed s =
     (let proposed = sort_key fai_key_id proposed in
      if list_all2 same_auth proposed (get_last_proposed_finalizers H s) then (s, [])
      else let authorities = map fai_fin_authority proposed in
        (s\<lparr>s_last_prop_finalizers := Some proposed\<rparr>,
         [Set_finalizers (word_of_nat ((length authorities * 2) div 3 + 1)) authorities]))"

definition get_next_finalizer_key_id :: "sys_state \<Rightarrow> 64 word \<times> sys_state" where
  "get_next_finalizer_key_id s =
     (let next_id = (case s_fin_key_id_generator s of None \<Rightarrow> 0 | Some k \<Rightarrow> k + 1)
      in (next_id, s\<lparr>s_fin_key_id_generator := Some next_id\<rparr>))"

section \<open>The election\<close>

text \<open>The producers in the order of the index over their votes; equal keys in the order of names.\<close>

definition by_vote_order :: "(name, producer_info) table \<Rightarrow> producer_info list" where
  "by_vote_order P = map snd (sort_key (\<lambda>(_, p). by_votes p) P)"

text \<open>
  The loop over that index: it stops at the first producer without votes or inactive, and once
  \<open>room\<close> producers are chosen; after the switch to Savanna it skips producers without a key.
\<close>

fun elect ::
  "host \<Rightarrow> bool \<Rightarrow> (name, finalizer_info) table \<Rightarrow> nat \<Rightarrow> producer_info list
     \<Rightarrow> producer_info list \<times> finalizer_auth_info list" where
  "elect H sav F 0 ps = ([], [])"
| "elect H sav F (Suc room) [] = ([], [])"
| "elect H sav F (Suc room) (p # ps) =
     (if \<not> (0 < pi_total_votes p \<and> pi_is_active p) then ([], [])
      else if sav then
        (case tfind F (pi_owner p) of
           None \<Rightarrow> elect H sav F (Suc room) ps
         | Some f \<Rightarrow>
             if fi_active_key_binary f = [] then elect H sav F (Suc room) ps
             else let (top, fins) = elect H sav F room ps in (p # top, finalizer_auth H f # fins))
      else let (top, fins) = elect H sav F room ps in (p # top, fins))"

definition update_elected_producers ::
  "host \<Rightarrow> block_timestamp \<Rightarrow> sys_state \<Rightarrow> sys_state \<times> effect list" where
  "update_elected_producers H block_time s =
     (let s = s\<lparr>sg := Some ((gs H s)\<lparr>g_last_producer_schedule_update := block_time\<rparr>)\<rparr>;
          savanna = is_savanna_consensus H s;
          (top, fins) = elect H savanna (s_finalizers s) 21 (by_vote_order (s_producers s))
      in if top = [] \<or> length top < unat (g_last_producer_schedule_size (gs H s)) then (s, [])
         else let producers = map (\<lambda>p. (pi_owner p, pi_producer_authority p)) (sort_key pi_owner top);
                  s = (if 0 \<le> proposed_version H producers
                       then s\<lparr>sg := Some ((gs H s)\<lparr>g_last_producer_schedule_size := word_of_nat (length producers)\<rparr>)\<rparr>
                       else s);
                  (s, es) = (if savanna then set_proposed_finalizers H fins s else (s, []))
              in (s, Propose_producers producers # es))"

section \<open>Actions\<close>

definition switchtosvnn :: "host \<Rightarrow> ctx \<Rightarrow> sys_state \<Rightarrow> sys_state outcome" where
  "switchtosvnn H x s =
     (if \<not> has_auth x (self x) then Inl (MissingAuth (self x))
      else if is_savanna_consensus H s then Inl (Check ''switchtosvnn can be run only once'')
      else let size = unat (g_last_producer_schedule_size (gs H s));
               fins = snd (elect H True (s_finalizers s) size (by_vote_order (s_producers s)))
        in if length fins \<noteq> size
             then Inl (Check (''not enough top producers have registered finalizer keys, has '' @ dec (length fins)
                         @ '', require '' @ dec size))
           else let (s1, es) = set_proposed_finalizers H fins s in
             if \<not> is_savanna_consensus H s1 then Inl (Check ''switching to Savanna failed'')
             else Inr (s1, es))"

definition regfinkey :: "host \<Rightarrow> ctx \<Rightarrow> name \<Rightarrow> string \<Rightarrow> string \<Rightarrow> sys_state \<Rightarrow> sys_state outcome" where
  "regfinkey H x finalizer_name finalizer_key proof_of_possession s =
     (if \<not> has_auth x finalizer_name then Inl (MissingAuth finalizer_name)
      else if tfind (s_producers s) finalizer_name = None
        then Inl (Check (''finalizer '' @ name_string H finalizer_name @ '' is not a registered producer''))
      else if take 7 proof_of_possession \<noteq> ''SIG_BLS''
        then Inl (Check (''proof of possession signature does not start with SIG_BLS: '' @ proof_of_possession))
      else rbind (to_binary H finalizer_key) (\<lambda>g1.
        rbind (decode_bls_signature H proof_of_possession) (\<lambda>g2.
        if find_key_by_hash H (sha256 H g1) (s_finalizer_keys s) \<noteq> None
          then Inl (Check (''duplicate finalizer key: '' @ finalizer_key))
        else if \<not> bls_pop_verify H g1 g2 then Inl (Check ''proof of possession check failed'')
        else let (key_id, s1) = get_next_finalizer_key_id s in
          rbind (templace DuplicateKey key_id
                   \<lparr>fk_id = key_id, fk_finalizer_name = finalizer_name, fk_finalizer_key = finalizer_key,
                    fk_finalizer_key_binary = g1\<rparr> (s_finalizer_keys s1)) (\<lambda>K.
          let f = (case tfind (s_finalizers s1) finalizer_name of
                     None \<Rightarrow> \<lparr>fi_finalizer_name = finalizer_name, fi_active_key_id = key_id,
                              fi_active_key_binary = g1, fi_finalizer_key_count = 1\<rparr>
                   | Some f \<Rightarrow> f\<lparr>fi_finalizer_key_count := fi_finalizer_key_count f + 1\<rparr>)
          in Inr (s1\<lparr>s_finalizer_keys := K, s_finalizers := tput finalizer_name f (s_finalizers s1)\<rparr>, [])))))"

text \<open>\<open>std::lower_bound\<close> over the sorted vector.\<close>

fun lower_bound_id :: "64 word \<Rightarrow> finalizer_auth_info list \<Rightarrow> nat" where
  "lower_bound_id i [] = 0"
| "lower_bound_id i (a # as) = (if fai_key_id a < i then Suc (lower_bound_id i as) else 0)"

definition actfinkey :: "host \<Rightarrow> ctx \<Rightarrow> name \<Rightarrow> string \<Rightarrow> sys_state \<Rightarrow> sys_state outcome" where
  "actfinkey H x finalizer_name finalizer_key s =
     (if \<not> has_auth x finalizer_name then Inl (MissingAuth finalizer_name)
      else rbind (get_finalizer_itr H finalizer_name s) (\<lambda>finalizer.
        rbind (get_finalizer_key_hash H finalizer_key) (\<lambda>hash.
        case find_key_by_hash H hash (s_finalizer_keys s) of
          None \<Rightarrow> Inl (Check (''finalizer key was not registered: '' @ finalizer_key))
        | Some k \<Rightarrow>
            if fk_finalizer_name k \<noteq> finalizer_name
              then Inl (Check (''finalizer key was not registered by the finalizer: '' @ finalizer_key))
            else if fk_id k = fi_active_key_id finalizer
              then Inl (Check (''finalizer key was already active: '' @ finalizer_key))
            else let active_key_id = fi_active_key_id finalizer;
                     s1 = s\<lparr>s_finalizers := tput finalizer_name
                              (finalizer\<lparr>fi_active_key_id := fk_id k,
                                 fi_active_key_binary := fk_finalizer_key_binary k\<rparr>) (s_finalizers s)\<rparr>;
                     last_prop = get_last_proposed_finalizers H s1;
                     i = lower_bound_id active_key_id last_prop
              in if last_prop = [] then Inr (s1, [])
                 else if i < length last_prop \<and> fai_key_id (last_prop ! i) = active_key_id then
                   Inr (set_proposed_finalizers H
                     (last_prop[i := (last_prop ! i)\<lparr>fai_key_id := fk_id k,
                        fai_fin_authority := (fai_fin_authority (last_prop ! i))\<lparr>fa_public_key := fk_finalizer_key_binary k\<rparr>\<rparr>])
                     s1)
                 else Inr (s1, []))))"

definition delfinkey :: "host \<Rightarrow> ctx \<Rightarrow> name \<Rightarrow> string \<Rightarrow> sys_state \<Rightarrow> sys_state outcome" where
  "delfinkey H x finalizer_name finalizer_key s =
     (if \<not> has_auth x finalizer_name then Inl (MissingAuth finalizer_name)
      else rbind (get_finalizer_itr H finalizer_name s) (\<lambda>finalizer.
        rbind (get_finalizer_key_hash H finalizer_key) (\<lambda>hash.
        case find_key_by_hash H hash (s_finalizer_keys s) of
          None \<Rightarrow> Inl (Check (''finalizer key was not registered: '' @ finalizer_key))
        | Some k \<Rightarrow>
            if fk_finalizer_name k \<noteq> finalizer_name
              then Inl (Check (''finalizer key '' @ finalizer_key @ '' was not registered by the finalizer ''
                          @ name_string H finalizer_name))
            else if fk_id k = fi_active_key_id finalizer \<and> fi_finalizer_key_count finalizer \<noteq> 1
              then Inl (Check (''cannot delete an active key unless it is the last registered finalizer key, has ''
                          @ dec (unat (fi_finalizer_key_count finalizer)) @ '' keys''))
            else Inr (s\<lparr>s_finalizers :=
                          (if fi_finalizer_key_count finalizer = 1 then terase finalizer_name (s_finalizers s)
                           else tput finalizer_name
                             (finalizer\<lparr>fi_finalizer_key_count := fi_finalizer_key_count finalizer - 1\<rparr>)
                             (s_finalizers s)),
                        s_finalizer_keys := terase (fk_id k) (s_finalizer_keys s)\<rparr>, []))))"

end
