(* ===== verification/Election_Props.thy ===== *)
theory Election_Props
  imports Finalizers Voting_Props
begin

text \<open>
  The election picks the eligible producers with the most votes. The loop over the vote index
  stops at the first producer without votes or inactive; because the index puts those last, it
  still sees every eligible one.
\<close>

section \<open>The vote index\<close>

definition electable :: "producer_info \<Rightarrow> bool" where
  "electable p \<longleftrightarrow> 0 < pi_total_votes p \<and> pi_is_active p"

definition eligible :: "bool \<Rightarrow> (name, finalizer_info) table \<Rightarrow> producer_info \<Rightarrow> bool" where
  "eligible sav F p \<longleftrightarrow> electable p
     \<and> (sav \<longrightarrow> (\<exists>f. tfind F (pi_owner p) = Some f \<and> fi_active_key_binary f \<noteq> []))"

definition votes_in_range :: "producer_info \<Rightarrow> bool" where
  "votes_in_range p \<longleftrightarrow> 0 \<le> pi_total_votes p \<and> pi_total_votes p \<le> max_amount"

lemma uint_by_votes:
  assumes "votes_in_range p"
  shows "uint (by_votes p) = (if pi_is_active p then 2 ^ 63 - 1 else 2 ^ 64 - 1) - pi_total_votes p"
proof (cases "pi_is_active p")
  case True
  have "uint (word_of_int (2 ^ 63 - 1 - pi_total_votes p) :: 64 word) = 2 ^ 63 - 1 - pi_total_votes p"
    using assms by (intro word_of_int_inverse [OF refl]) (auto simp: votes_in_range_def max_amount_def)
  then show ?thesis using True by (simp add: by_votes_def)
next
  case False
  have e: "(- 1 - word_of_int (pi_total_votes p) :: 64 word) = word_of_int (2 ^ 64 - 1 - pi_total_votes p)"
    by (simp add: word_of_int_minus [symmetric])
  have "uint (word_of_int (2 ^ 64 - 1 - pi_total_votes p) :: 64 word) = 2 ^ 64 - 1 - pi_total_votes p"
    using assms by (intro word_of_int_inverse [OF refl]) (auto simp: votes_in_range_def max_amount_def)
  then show ?thesis using False by (simp only: by_votes_def if_False e)
qed

lemma electable_index:
  assumes "votes_in_range p"
  shows "electable p \<longleftrightarrow> uint (by_votes p) < 2 ^ 63 - 1"
  using uint_by_votes [OF assms] assms by (auto simp: electable_def votes_in_range_def max_amount_def)

lemma index_order:
  assumes "votes_in_range a" "votes_in_range b" "by_votes a \<le> by_votes b"
  shows "electable b \<Longrightarrow> electable a \<and> pi_total_votes b \<le> pi_total_votes a"
proof -
  assume b: "electable b"
  have le: "uint (by_votes a) \<le> uint (by_votes b)" using assms(3) by (simp add: word_le_def)
  then have "electable a" using b electable_index [OF assms(1)] electable_index [OF assms(2)] by linarith
  then show ?thesis using b le uint_by_votes [OF assms(1)] uint_by_votes [OF assms(2)] by (simp add: electable_def)
qed

lemma by_vote_order_sorted:
  assumes "\<And>q p. (q, p) \<in> set P \<Longrightarrow> votes_in_range p"
  shows "sorted_wrt (\<lambda>a b. electable b \<longrightarrow> electable a \<and> pi_total_votes b \<le> pi_total_votes a) (by_vote_order P)"
proof -
  have "sorted_wrt (\<lambda>a b. (case a of (_, p) \<Rightarrow> by_votes p) \<le> (case b of (_, p) \<Rightarrow> by_votes p))
      (sort_key (\<lambda>(_, p). by_votes p) P)"
    using sorted_sort_key [of "\<lambda>(_, p). by_votes p" P] by (simp add: sorted_wrt_map)
  then have "sorted_wrt (\<lambda>a b. electable (snd b) \<longrightarrow> electable (snd a) \<and> pi_total_votes (snd b) \<le> pi_total_votes (snd a))
      (sort_key (\<lambda>(_, p). by_votes p) P)"
    by (rule sorted_wrt_mono_rel [rotated]) (use assms index_order in force)
  then show ?thesis by (simp add: by_vote_order_def sorted_wrt_map)
qed

lemma set_by_vote_order: "set (by_vote_order P) = snd ` set P"
  by (simp add: by_vote_order_def)

lemma distinct_by_vote_order:
  assumes "twf P" "\<And>q p. (q, p) \<in> set P \<Longrightarrow> pi_owner p = q"
  shows "distinct (map pi_owner (by_vote_order P))"
proof -
  have "map pi_owner (by_vote_order P) = map fst (sort_key (\<lambda>(_, p). by_votes p) P)"
    using assms(2) by (auto simp: by_vote_order_def)
  moreover have "distinct (map fst (sort_key (\<lambda>(_, p). by_votes p) P))"
    using twf_distinct [OF assms(1)] by (simp add: distinct_map)
  ultimately show ?thesis by simp
qed

section \<open>The loop\<close>

lemma elect_stop:
  assumes "\<forall>b \<in> set ps. \<not> electable b"
  shows "elect H sav F room ps = ([], [])"
  using assms by (cases "(H, sav, F, room, ps)" rule: elect.cases) (auto simp: electable_def)

lemma elect_take:
  "sorted_wrt (\<lambda>a b. electable b \<longrightarrow> electable a) ps \<Longrightarrow>
     fst (elect H sav F room ps) = take room (filter (eligible sav F) ps)"
proof (induction H sav F room ps rule: elect.induct)
  case (3 H sav F room p ps)
  show ?case
  proof (cases "electable p")
    case False
    then have "\<forall>b \<in> set (p # ps). \<not> electable b" using "3.prems" by auto
    then show ?thesis using elect_stop [of "p # ps"] by (auto simp: eligible_def filter_empty_conv)
  next
    case True
    then show ?thesis
      using "3.IH" "3.prems" by (auto simp: electable_def eligible_def split_beta split: option.splits if_splits)
  qed
qed auto

lemma elect_finalizers:
  "snd (elect H sav F room ps) =
     (if sav then map (\<lambda>p. finalizer_auth H (the (tfind F (pi_owner p)))) (fst (elect H sav F room ps)) else [])"
  by (induction H sav F room ps rule: elect.induct) (auto simp: split_beta split: option.splits)

section \<open>What is elected\<close>

text \<open>The producers elected for a schedule.\<close>

definition elected :: "host \<Rightarrow> sys_state \<Rightarrow> producer_info list" where
  "elected H s = fst (elect H (is_savanna_consensus H s) (s_finalizers s) 21 (by_vote_order (s_producers s)))"

lemma voting_rows:
  assumes "voting_inv C H s" "(q, p) \<in> set (s_producers s)"
  shows "pi_owner p = q" "votes_in_range p" "tfind (s_producers s) q = Some p"
proof -
  have ok: "votes_ok (s_voters s) (s_producers s) (a_amount (stake H s))" using assms(1) by (simp add: voting_inv_def)
  show f: "tfind (s_producers s) q = Some p" using ok assms(2) by (simp add: votes_ok_def tfind_in_set)
  show "pi_owner p = q" "votes_in_range p"
    using votes_ok_producer [OF ok f] backing_bounds(1,2) [OF ok, of q] ok by (auto simp: votes_in_range_def votes_ok_def)
qed

lemma elected_eq:
  assumes "voting_inv C H s"
  shows "elected H s = take 21 (filter (eligible (is_savanna_consensus H s) (s_finalizers s)) (by_vote_order (s_producers s)))"
  unfolding elected_def
  by (rule elect_take, rule sorted_wrt_mono_rel [OF _ by_vote_order_sorted])
    (use voting_rows(2) [OF assms] in auto)

lemma take_filter_best:
  assumes "sorted_wrt R xs" "x \<in> set xs" "f x" "x \<notin> set (take k (filter f xs))"
  shows "length (take k (filter f xs)) = k" "\<forall>y \<in> set (take k (filter f xs)). R y x"
proof -
  let ?ys = "filter f xs"
  have so: "sorted_wrt R ?ys" using assms(1) by (rule sorted_wrt_filter)
  have x: "x \<in> set (drop k ?ys)"
    using assms(2-4) set_append [of "take k ?ys" "drop k ?ys"] by auto
  then show "length (take k ?ys) = k" by (cases "k \<le> length ?ys") auto
  show "\<forall>y \<in> set (take k ?ys). R y x"
    using so x sorted_wrt_append [of R "take k ?ys" "drop k ?ys"] by simp
qed

lemma elected_range:
  assumes "voting_inv C H s"
  shows "length (elected H s) \<le> 21" "distinct (map pi_owner (elected H s))"
proof -
  have wf: "twf (s_producers s)" using assms by (simp add: voting_inv_def votes_ok_def)
  have "distinct (map pi_owner (by_vote_order (s_producers s)))" using distinct_by_vote_order [OF wf voting_rows(1) [OF assms]] .
  then show "distinct (map pi_owner (elected H s))"
    unfolding elected_eq [OF assms] by (simp add: take_map [symmetric] distinct_map_filter)
  show "length (elected H s) \<le> 21" unfolding elected_eq [OF assms] length_take by (rule min.cobounded2)
qed

text \<open>C30: the election is by votes. With consistent voting books, at most 21 producers are elected,
  all different, registered, active and with a positive number of votes, and after the switch to
  Savanna with an active finalizer key. An eligible producer is left out only when all 21 places go
  to producers with at least as many votes.\<close>
theorem election_by_votes:
  assumes "voting_inv C H s"
  shows "length (elected H s) \<le> 21 \<and> distinct (map pi_owner (elected H s))
   \<and> (\<forall>p \<in> set (elected H s). tfind (s_producers s) (pi_owner p) = Some p
        \<and> eligible (is_savanna_consensus H s) (s_finalizers s) p)
   \<and> (\<forall>q p. tfind (s_producers s) q = Some p \<and> eligible (is_savanna_consensus H s) (s_finalizers s) p
        \<and> p \<notin> set (elected H s) \<longrightarrow>
        length (elected H s) = 21 \<and> (\<forall>e \<in> set (elected H s). pi_total_votes p \<le> pi_total_votes e))"
proof -
  let ?el = "eligible (is_savanna_consensus H s) (s_finalizers s)" and ?xs = "by_vote_order (s_producers s)"
  have wf: "twf (s_producers s)" using assms by (simp add: voting_inv_def votes_ok_def)
  have so: "sorted_wrt (\<lambda>a b. electable b \<longrightarrow> electable a \<and> pi_total_votes b \<le> pi_total_votes a) ?xs"
    by (rule by_vote_order_sorted) (rule voting_rows(2) [OF assms])
  have mem: "p \<in> set ?xs \<longleftrightarrow> (\<exists>q. tfind (s_producers s) q = Some p)" for p
    using wf by (force simp: set_by_vote_order tfind_in_set image_iff)
  have "tfind (s_producers s) (pi_owner p) = Some p \<and> ?el p" if p: "p \<in> set (elected H s)" for p
  proof -
    have x: "p \<in> set ?xs" "?el p" using p unfolding elected_eq [OF assms] by (auto dest: in_set_takeD)
    then obtain q where "tfind (s_producers s) q = Some p" using mem by blast
    then show ?thesis using x voting_rows(1) [OF assms, of q p] wf by (simp add: tfind_in_set)
  qed
  moreover have "length (elected H s) = 21 \<and> (\<forall>e \<in> set (elected H s). pi_total_votes p \<le> pi_total_votes e)"
    if p: "tfind (s_producers s) q = Some p" "?el p" "p \<notin> set (elected H s)" for q p
  proof -
    have "p \<in> set ?xs" using mem p(1) by blast
    from take_filter_best [OF so this, of ?el 21, folded elected_eq [OF assms], OF p(2,3)] p(2)
    show ?thesis unfolding eligible_def by blast
  qed
  ultimately show ?thesis using elected_range [OF assms] by blast
qed

theorem election_by_votes_witness:
  "length (elected demo_host demo_system) \<le> 21
   \<and> tfind (s_producers demo_system) (pi_owner (hd (elected demo_host demo_system))) = Some (hd (elected demo_host demo_system))
   \<and> elected demo_host demo_system = [demo_producer bob 300 True]"
proof -
  have e: "elected demo_host demo_system = [demo_producer bob 300 True]" by code_simp
  then have "hd (elected demo_host demo_system) \<in> set (elected demo_host demo_system)" by simp
  then show ?thesis using election_by_votes [OF demo_system_inv] e by blast
qed

section \<open>Proposals\<close>

text \<open>C31: once a minute the contract proposes the elected producers, in the order of their names and
  with their signing authorities. It proposes nothing when nobody is electable or when fewer are
  electable than in the last schedule the chain accepted. When the chain accepts the proposal, its length is recorded as the size of
  the last schedule, otherwise the recorded size stays; so that size never falls and no later proposal is shorter. Nothing else
  of the global state changes but the time of the election. After the switch to
  Savanna the finalizers proposed with it are the elected producers' active keys.\<close>
theorem schedule_proposal:
  assumes "voting_inv C H s" "update_elected_producers H block_time s = (s', es)"
  shows "s_producers s' = s_producers s \<and> s_voters s' = s_voters s \<and> s_finalizers s' = s_finalizers s
   \<and> gs H s' = (gs H s)\<lparr>g_last_producer_schedule_update := block_time, g_last_producer_schedule_size :=
        if es \<noteq> [] \<and> 0 \<le> proposed_version H (map (\<lambda>p. (pi_owner p, pi_producer_authority p)) (sort_key pi_owner (elected H s)))
        then word_of_nat (length (elected H s)) else g_last_producer_schedule_size (gs H s)\<rparr>
   \<and> unat (g_last_producer_schedule_size (gs H s)) \<le> unat (g_last_producer_schedule_size (gs H s'))
   \<and> (if elected H s = [] \<or> length (elected H s) < unat (g_last_producer_schedule_size (gs H s)) then es = []
      else \<exists>fs. es = Propose_producers (map (\<lambda>p. (pi_owner p, pi_producer_authority p)) (sort_key pi_owner (elected H s))) # fs
         \<and> sorted_wrt (<) (map pi_owner (sort_key pi_owner (elected H s)))
         \<and> (if is_savanna_consensus H s
            then fs = snd (set_proposed_finalizers H
                   (map (\<lambda>p. finalizer_auth H (the (tfind (s_finalizers s) (pi_owner p)))) (elected H s)) s)
            else fs = []))"
proof -
  let ?s0 = "s\<lparr>sg := Some ((gs H s)\<lparr>g_last_producer_schedule_update := block_time\<rparr>)\<rparr>"
  let ?sav = "is_savanna_consensus H s"
  have sav: "is_savanna_consensus H (t\<lparr>sg := g\<rparr>) = is_savanna_consensus H t" for t g
    by (simp add: is_savanna_consensus_def get_last_proposed_finalizers_def)
  have el: "elect H ?sav (s_finalizers s) 21 (by_vote_order (s_producers s)) = (elected H s,
      if ?sav then map (\<lambda>p. finalizer_auth H (the (tfind (s_finalizers s) (pi_owner p)))) (elected H s) else [])"
    using elect_finalizers [of H ?sav "s_finalizers s" 21 "by_vote_order (s_producers s)"]
    by (simp add: elected_def prod_eq_iff)
  have el_sav: "snd (elect H True (s_finalizers s) 21 (by_vote_order (s_producers s)))
      = map (\<lambda>p. finalizer_auth H (the (tfind (s_finalizers s) (pi_owner p)))) (elected H s)" if "?sav"
    using el that by simp
  have spf: "fst (set_proposed_finalizers H l t) = t\<lparr>s_last_prop_finalizers := s_last_prop_finalizers (fst (set_proposed_finalizers H l t))\<rparr>"
    "snd (set_proposed_finalizers H l (t\<lparr>sg := g\<rparr>)) = snd (set_proposed_finalizers H l t)" for l t g
    by (auto simp: set_proposed_finalizers_def Let_def get_last_proposed_finalizers_def)
  have keep: "s_producers (fst (set_proposed_finalizers H l t)) = s_producers t"
    "s_voters (fst (set_proposed_finalizers H l t)) = s_voters t"
    "s_finalizers (fst (set_proposed_finalizers H l t)) = s_finalizers t"
    "gs H (fst (set_proposed_finalizers H l t)) = gs H t" for l t
    by (auto simp: set_proposed_finalizers_def Let_def)
  note range = elected_range [OF assms(1)]
  then have so: "sorted_wrt (<) (map pi_owner (sort_key pi_owner (elected H s)))"
    by (simp add: strict_sorted_iff distinct_map)
  have len: "unat (word_of_nat (length (elected H s)) :: 16 word) = length (elected H s)"
    unfolding unat_of_nat using range(1) by (intro mod_less) simp
  let ?skip = "elected H s = [] \<or> length (elected H s) < unat (g_last_producer_schedule_size (gs H s))"
  have tables: "s_producers s' = s_producers s \<and> s_voters s' = s_voters s \<and> s_finalizers s' = s_finalizers s"
    and glob: "gs H s' = (gs H s)\<lparr>g_last_producer_schedule_update := block_time, g_last_producer_schedule_size :=
        if es \<noteq> [] \<and> 0 \<le> proposed_version H (map (\<lambda>p. (pi_owner p, pi_producer_authority p)) (sort_key pi_owner (elected H s)))
        then word_of_nat (length (elected H s)) else g_last_producer_schedule_size (gs H s)\<rparr>"
    and skip: "es \<noteq> [] \<longleftrightarrow> \<not> ?skip"
    using assms(2) by (auto simp: update_elected_producers_def Let_def sav el el_sav keep split_beta split: if_splits)
  have "unat (g_last_producer_schedule_size (gs H s)) \<le> unat (g_last_producer_schedule_size (gs H s'))"
    unfolding glob using skip len by (simp split: if_split)
  then show ?thesis
    using assms(2) so tables glob
    by (auto simp: update_elected_producers_def Let_def sav el el_sav keep spf(2) split_beta split: if_splits)
qed

theorem schedule_proposal_witness:
  "\<exists>s'. update_elected_producers demo_host 7 demo_system
     = (s', [Propose_producers [(bob, convert_to_block_signing_authority [1])]])
     \<and> g_last_producer_schedule_update (gs demo_host s') = 7 \<and> g_last_producer_schedule_size (gs demo_host s') = 1"
proof -
  obtain s' es where run: "update_elected_producers demo_host 7 demo_system = (s', es)" by (cases "update_elected_producers demo_host 7 demo_system")
  have e: "elected demo_host demo_system = [demo_producer bob 300 True]" by code_simp
  have n: "\<not> is_savanna_consensus demo_host demo_system"
    by (simp add: is_savanna_consensus_def get_last_proposed_finalizers_def demo_host_def)
  have z: "g_last_producer_schedule_size demo_gstate = 0" by (simp add: demo_gstate_def default_gstate_def)
  have "pi_producer_authority (demo_producer bob 300 True) = convert_to_block_signing_authority [1]"
    by (simp add: demo_producer_def)
  moreover have "0 \<le> proposed_version demo_host ps" for ps by (simp add: demo_host_def)
  ultimately show ?thesis using schedule_proposal [OF demo_system_inv run] run e n z by auto
qed

text \<open>C32: a finalizer policy needs the agreement of more than two thirds of the finalizers, and can
  reach it: the threshold is more than two thirds and at most all of them. The policy lists the
  proposed finalizers in the order of their key ids, and proposing the same finalizers again
  changes nothing and calls nothing.\<close>
theorem finalizer_quorum:
  assumes "set_proposed_finalizers H fins s = (s', es)" "length fins < 2 ^ 31"
  shows "(\<forall>t as. Set_finalizers t as \<in> set es \<longrightarrow> as = map fai_fin_authority (sort_key fai_key_id fins)
        \<and> 2 * length fins < 3 * unat t \<and> (fins \<noteq> [] \<longrightarrow> unat t \<le> length fins)
        \<and> s_last_prop_finalizers s' = Some (sort_key fai_key_id fins))
     \<and> set_proposed_finalizers H fins s' = (s', [])"
proof -
  have u: "unat (word_of_nat (length fins * 2 div 3 + 1) :: 64 word) = length fins * 2 div 3 + 1"
    unfolding unat_of_nat using assms(2) by (intro mod_less) simp
  have q: "2 * n < 3 * (n * 2 div 3 + 1)" "0 < n \<Longrightarrow> n * 2 div 3 + 1 \<le> n" for n :: nat by presburger+
  have refl: "list_all2 same_auth l l" for l by (simp add: list_all2_refl same_auth_def)
  show ?thesis
    using assms(1) u q [of "length fins"] refl
    by (auto simp: set_proposed_finalizers_def Let_def get_last_proposed_finalizers_def split: if_splits)
qed

definition demo_auth_info :: "64 word \<Rightarrow> finalizer_auth_info" where
  "demo_auth_info i = \<lparr>fai_key_id = i, fai_fin_authority = \<lparr>fa_description = [], fa_weight = 1, fa_public_key = [ucast i]\<rparr>\<rparr>"

theorem finalizer_quorum_witness:
  "\<exists>s' t as. set_proposed_finalizers demo_host [demo_auth_info 5, demo_auth_info 2, demo_auth_info 9] demo_system
      = (s', [Set_finalizers t as]) \<and> 6 < 3 * unat t \<and> unat t \<le> 3
      \<and> set_proposed_finalizers demo_host [demo_auth_info 5, demo_auth_info 2, demo_auth_info 9] s' = (s', [])"
proof -
  let ?l = "[demo_auth_info 5, demo_auth_info 2, demo_auth_info 9]"
  obtain s' es where run: "set_proposed_finalizers demo_host ?l demo_system = (s', es)"
    by (cases "set_proposed_finalizers demo_host ?l demo_system")
  then have "es = [Set_finalizers 3 (map fai_fin_authority (sort_key fai_key_id ?l))]"
    by (auto simp: set_proposed_finalizers_def Let_def get_last_proposed_finalizers_def demo_host_def)
  then show ?thesis using finalizer_quorum [OF run] run by auto
qed

end
