(* ===== verification/Finalizer_Props.thy ===== *)
theory Finalizer_Props
  imports Election_Props
begin

text \<open>
  The registry of finalizer keys. \<open>finkey_inv\<close>: every finalizer row counts exactly its registered
  keys and names one of them as active, no two registered keys share a hash, and the id generator
  is ahead of every id in use.
\<close>

definition owned :: "name \<Rightarrow> 64 word \<Rightarrow> finalizer_key_info \<Rightarrow> int" where
  "owned n i k = (if fk_finalizer_name k = n then 1 else 0)"

definition active_ok :: "(64 word, finalizer_key_info) table \<Rightarrow> name \<Rightarrow> finalizer_info \<Rightarrow> bool" where
  "active_ok K n f \<longleftrightarrow> fi_finalizer_name f = n \<and> (\<exists>k. tfind K (fi_active_key_id f) = Some k
     \<and> fk_finalizer_name k = n \<and> fk_finalizer_key_binary k = fi_active_key_binary f)"

definition key_count :: "(name, finalizer_info) table \<Rightarrow> name \<Rightarrow> int" where
  "key_count F n = (case tfind F n of None \<Rightarrow> 0 | Some f \<Rightarrow> uint (fi_finalizer_key_count f))"

definition finkey_inv :: "host \<Rightarrow> sys_state \<Rightarrow> bool" where
  "finkey_inv H s \<longleftrightarrow> twf (s_finalizer_keys s) \<and> twf (s_finalizers s)
   \<and> (\<forall>i k. tfind (s_finalizer_keys s) i = Some k \<longrightarrow> fk_id k = i
        \<and> (\<exists>g. s_fin_key_id_generator s = Some g \<and> i \<le> g))
   \<and> (\<forall>i j k l. tfind (s_finalizer_keys s) i = Some k \<and> tfind (s_finalizer_keys s) j = Some l
        \<and> sha256 H (fk_finalizer_key_binary k) = sha256 H (fk_finalizer_key_binary l) \<longrightarrow> i = j)
   \<and> (\<forall>n f. tfind (s_finalizers s) n = Some f \<longrightarrow> active_ok (s_finalizer_keys s) n f)
   \<and> (\<forall>n. key_count (s_finalizers s) n = tsum (owned n) (s_finalizer_keys s))"

lemma owned_total_pos:
  assumes "twf K" "tfind K i = Some k" "fk_finalizer_name k = n"
  shows "1 \<le> tsum (owned n) K"
  using tsum_row_le [OF assms(1), of "owned n" i k] assms by (simp add: owned_def)

lemma find_key_Some:
  assumes "twf K" "find_key_by_hash H h K = Some k"
  shows "\<exists>i. tfind K i = Some k \<and> sha256 H (fk_finalizer_key_binary k) = h"
proof -
  obtain i where "find (\<lambda>(_, k). sha256 H (fk_finalizer_key_binary k) = h) K = Some (i, k)"
    using assms(2) by (auto simp: find_key_by_hash_def)
  then have "(i, k) \<in> set K" "sha256 H (fk_finalizer_key_binary k) = h"
    by (auto simp: find_Some_iff dest: nth_mem)
  then show ?thesis using assms(1) by (auto simp: tfind_in_set)
qed

lemma find_key_None:
  assumes "twf K" "find_key_by_hash H h K = None" "tfind K i = Some k"
  shows "sha256 H (fk_finalizer_key_binary k) \<noteq> h"
  using assms by (auto simp: find_key_by_hash_def find_None_iff tfind_in_set)

section \<open>Preservation\<close>

text \<open>The id generator does not wrap around and no finalizer holds \<open>2^32 - 1\<close> keys.\<close>

definition ids_left :: "sys_state \<Rightarrow> name \<Rightarrow> bool" where
  "ids_left s n \<longleftrightarrow> s_fin_key_id_generator s \<noteq> Some (- 1)
     \<and> (\<forall>f. tfind (s_finalizers s) n = Some f \<longrightarrow> fi_finalizer_key_count f \<noteq> - 1)"

lemma next_id_fresh:
  assumes "finkey_inv H s" "s_fin_key_id_generator s \<noteq> Some (- 1)" "get_next_finalizer_key_id s = (i, s1)"
  shows "tfind (s_finalizer_keys s) i = None" "s1 = s\<lparr>s_fin_key_id_generator := Some i\<rparr>"
    "tfind (s_finalizer_keys s) j = Some k \<Longrightarrow> j \<le> i"
proof -
  have rows: "\<exists>g. s_fin_key_id_generator s = Some g \<and> j \<le> g" if "tfind (s_finalizer_keys s) j = Some k" for j k
    using assms(1) that by (simp add: finkey_inv_def)
  have lt: "g < g + 1" if "s_fin_key_id_generator s = Some g" for g :: "64 word"
    using assms(2) that inc_less_eq_self_iff_eq [of g] by auto
  show "s1 = s\<lparr>s_fin_key_id_generator := Some i\<rparr>" using assms(3) by (auto simp: get_next_finalizer_key_id_def Let_def)
  show "tfind (s_finalizer_keys s) i = None"
  proof (rule ccontr)
    assume "tfind (s_finalizer_keys s) i \<noteq> None"
    then obtain k where "tfind (s_finalizer_keys s) i = Some k" by auto
    from rows [OF this] show False using lt assms(3) by (auto simp: get_next_finalizer_key_id_def Let_def)
  qed
  show "j \<le> i" if "tfind (s_finalizer_keys s) j = Some k"
    using rows [OF that] lt assms(3) by (auto simp: get_next_finalizer_key_id_def Let_def)
qed

lemma regfinkey_inv:
  assumes I: "finkey_inv H s" and left: "ids_left s n" and run: "regfinkey H x n key pop s = Inr (s', es)"
  shows "finkey_inv H s'"
proof -
  let ?K = "s_finalizer_keys s" and ?F = "s_finalizers s"
  obtain i s1 where n: "get_next_finalizer_key_id s = (i, s1)" by (cases "get_next_finalizer_key_id s")
  obtain g1 where dup: "find_key_by_hash H (sha256 H g1) ?K = None"
    and run': "s' = s1\<lparr>s_finalizer_keys := tput i \<lparr>fk_id = i, fk_finalizer_name = n, fk_finalizer_key = key,
                    fk_finalizer_key_binary = g1\<rparr> (s_finalizer_keys s1),
         s_finalizers := tput n (case tfind (s_finalizers s1) n of
                     None \<Rightarrow> \<lparr>fi_finalizer_name = n, fi_active_key_id = i, fi_active_key_binary = g1, fi_finalizer_key_count = 1\<rparr>
                   | Some f \<Rightarrow> f\<lparr>fi_finalizer_key_count := fi_finalizer_key_count f + 1\<rparr>) (s_finalizers s1)\<rparr>"
    using run n by (auto simp: regfinkey_def Let_def)
  note fresh = next_id_fresh [OF I _ n]
  have gen: "s_fin_key_id_generator s \<noteq> Some (- 1)" using left by (simp add: ids_left_def)
  have s1: "s1 = s\<lparr>s_fin_key_id_generator := Some i\<rparr>" using fresh(2) gen by blast
  let ?k = "\<lparr>fk_id = i, fk_finalizer_name = n, fk_finalizer_key = key, fk_finalizer_key_binary = g1\<rparr>"
  let ?f = "case tfind ?F n of
                     None \<Rightarrow> \<lparr>fi_finalizer_name = n, fi_active_key_id = i, fi_active_key_binary = g1, fi_finalizer_key_count = 1\<rparr>
                   | Some f \<Rightarrow> f\<lparr>fi_finalizer_key_count := fi_finalizer_key_count f + 1\<rparr>"
  have s': "s' = s\<lparr>s_fin_key_id_generator := Some i, s_finalizer_keys := tput i ?k ?K, s_finalizers := tput n ?f ?F\<rparr>"
    using run' by (simp add: s1)
  have wf: "twf ?K" "twf ?F" and cnt: "\<And>m. key_count ?F m = tsum (owned m) ?K"
    and act: "\<And>m f. tfind ?F m = Some f \<Longrightarrow> active_ok ?K m f" using I by (auto simp: finkey_inv_def)
  have free: "tfind ?K i = None" using fresh(1) gen by blast
  have count: "key_count (tput n ?f ?F) m = key_count ?F m + (if m = n then 1 else 0)" for m
  proof -
    have "uint (fi_finalizer_key_count f + 1) = uint (fi_finalizer_key_count f) + 1" if "tfind ?F n = Some f" for f
      using left that by (intro uint_inc) (auto simp: ids_left_def)
    then show ?thesis by (auto simp: key_count_def tfind_tput split: option.split)
  qed
  have sums: "tsum (owned m) (tput i ?k ?K) = tsum (owned m) ?K + (if m = n then 1 else 0)" for m
    using tsum_tput_new [OF wf(1) free] by (simp add: owned_def)
  have act': "active_ok (tput i ?k ?K) m f" if "tfind (tput n ?f ?F) m = Some f" for m f
  proof (cases "m = n")
    case True
    then show ?thesis
      using that act [of n] free by (auto simp: tfind_tput active_ok_def split: option.splits)
  next
    case False
    then show ?thesis using that act [of m f] free by (auto simp: tfind_tput active_ok_def)
  qed
  have ids: "fk_id k = j \<and> j \<le> i" if "tfind (tput i ?k ?K) j = Some k" for j k
    using that fresh(3) [of j k] gen I by (auto simp: tfind_tput finkey_inv_def split: if_splits)
  have inj: "a = b" if "tfind (tput i ?k ?K) a = Some k" "tfind (tput i ?k ?K) b = Some l"
      "sha256 H (fk_finalizer_key_binary k) = sha256 H (fk_finalizer_key_binary l)" for a b k l
    using that find_key_None [OF wf(1) dup, of a k] find_key_None [OF wf(1) dup, of b l] I
    by (auto simp: tfind_tput finkey_inv_def split: if_splits)
  show ?thesis
    unfolding finkey_inv_def
  proof (intro conjI allI impI)
    show "key_count (s_finalizers s') m = tsum (owned m) (s_finalizer_keys s')" for m
      using count [of m] sums [of m] cnt [of m] by (simp add: s')
    show "a = b" if "tfind (s_finalizer_keys s') a = Some k \<and> tfind (s_finalizer_keys s') b = Some l \<and>
        sha256 H (fk_finalizer_key_binary k) = sha256 H (fk_finalizer_key_binary l)" for a b k l
      using that inj [of a k b l] by (simp add: s')
  qed (use wf act' ids in \<open>auto simp: s' twf_tput\<close>)
qed

lemma finalizer_lookup:
  assumes I: "finkey_inv H s" and f: "get_finalizer_itr H n s = Inr f"
    and k: "find_key_by_hash H h (s_finalizer_keys s) = Some k" and n: "fk_finalizer_name k = n"
  shows "tfind (s_finalizers s) n = Some f" "tfind (s_finalizer_keys s) (fk_id k) = Some k"
    "active_ok (s_finalizer_keys s) n f" "fi_finalizer_key_count f \<noteq> 0"
proof -
  show ff: "tfind (s_finalizers s) n = Some f" and "fi_finalizer_key_count f \<noteq> 0"
    using f by (auto simp: get_finalizer_itr_def split: option.splits if_splits)
  obtain i where "tfind (s_finalizer_keys s) i = Some k" using find_key_Some [OF _ k] I by (auto simp: finkey_inv_def)
  then show "tfind (s_finalizer_keys s) (fk_id k) = Some k" using I by (auto simp: finkey_inv_def)
  show "active_ok (s_finalizer_keys s) n f" using I ff by (simp add: finkey_inv_def)
qed

lemma set_proposed_keys: "finkey_inv H (fst (set_proposed_finalizers H l s)) \<longleftrightarrow> finkey_inv H s"
  by (auto simp: set_proposed_finalizers_def Let_def finkey_inv_def)

lemma actfinkey_inv:
  assumes I: "finkey_inv H s" and run: "actfinkey H x n key s = Inr (s', es)"
  shows "finkey_inv H s'"
proof -
  obtain f h k where f: "get_finalizer_itr H n s = Inr f" and hash: "get_finalizer_key_hash H key = Inr h"
    and k: "find_key_by_hash H h (s_finalizer_keys s) = Some k" and n: "fk_finalizer_name k = n"
    using run by (auto simp: actfinkey_def split: option.splits if_splits)
  note l = finalizer_lookup [OF I f k n]
  let ?f = "f\<lparr>fi_active_key_id := fk_id k, fi_active_key_binary := fk_finalizer_key_binary k\<rparr>"
  let ?s = "s\<lparr>s_finalizers := tput n ?f (s_finalizers s)\<rparr>"
  have "key_count (tput n ?f (s_finalizers s)) m = key_count (s_finalizers s) m" for m
    using l(1) by (simp add: key_count_def tfind_tput)
  moreover have "active_ok (s_finalizer_keys s) n ?f" using l(2,3) n by (simp add: active_ok_def)
  then have "active_ok (s_finalizer_keys s) m e" if "tfind (tput n ?f (s_finalizers s)) m = Some e" for m e
    using that I by (cases "m = n") (auto simp: tfind_tput finkey_inv_def)
  ultimately have "finkey_inv H ?s" using I unfolding finkey_inv_def by (simp add: twf_tput)
  moreover have "s' = ?s \<or> (\<exists>as. s' = fst (set_proposed_finalizers H as ?s))"
  proof (cases "es = [] \<and> s' = ?s")
    case False
    then have "\<exists>as. set_proposed_finalizers H as ?s = (s', es)"
      using run f hash k n unfolding actfinkey_def Let_def by (simp split: if_splits) blast+
    then show ?thesis by (metis fst_conv)
  qed blast
  ultimately show ?thesis using set_proposed_keys by blast
qed

lemma delfinkey_inv:
  assumes I: "finkey_inv H s" and run: "delfinkey H x n key s = Inr (s', es)"
  shows "finkey_inv H s'"
proof -
  let ?K = "s_finalizer_keys s" and ?F = "s_finalizers s"
  obtain f h k where f: "get_finalizer_itr H n s = Inr f" and hash: "get_finalizer_key_hash H key = Inr h"
    and k: "find_key_by_hash H h ?K = Some k" and n: "fk_finalizer_name k = n"
    and act: "fk_id k = fi_active_key_id f \<Longrightarrow> fi_finalizer_key_count f = 1"
    using run by (auto simp: delfinkey_def split: option.splits if_splits)
  note l = finalizer_lookup [OF I f k n]
  let ?F' = "if fi_finalizer_key_count f = 1 then terase n ?F
             else tput n (f\<lparr>fi_finalizer_key_count := fi_finalizer_key_count f - 1\<rparr>) ?F"
  have s': "s' = s\<lparr>s_finalizers := ?F', s_finalizer_keys := terase (fk_id k) ?K\<rparr>"
    using run f hash k n act by (auto simp: delfinkey_def split: if_splits)
  have wf: "twf ?K" "twf ?F" and cnt: "\<And>m. key_count ?F m = tsum (owned m) ?K"
    and acts: "\<And>m f. tfind ?F m = Some f \<Longrightarrow> active_ok ?K m f" using I by (auto simp: finkey_inv_def)
  have sums: "tsum (owned m) (terase (fk_id k) ?K) = tsum (owned m) ?K - (if m = n then 1 else 0)" for m
    using tsum_terase [OF wf(1) l(2)] n by (simp add: owned_def)
  have count: "key_count ?F' m = key_count ?F m - (if m = n then 1 else 0)" for m
    using l(1,4) uint_dec [OF l(4)] by (auto simp: key_count_def table_simps)
  have act': "active_ok (terase (fk_id k) ?K) m e" if e: "tfind ?F' m = Some e" for m e
  proof (cases "m = n")
    case True
    then have c: "fi_finalizer_key_count f \<noteq> 1" "e = f\<lparr>fi_finalizer_key_count := fi_finalizer_key_count f - 1\<rparr>"
      using e by (auto simp: table_simps split: if_splits)
    then have "fi_active_key_id f \<noteq> fk_id k" using act by auto
    then show ?thesis using l(3) c True by (auto simp: active_ok_def table_simps)
  next
    case False
    then have "tfind ?F m = Some e" using e by (auto simp: table_simps split: if_splits)
    then have "active_ok ?K m e" by (rule acts)
    then show ?thesis using False n l(2) by (auto simp: active_ok_def table_simps)
  qed
  show ?thesis
    unfolding finkey_inv_def
  proof (intro conjI allI impI)
    show "key_count (s_finalizers s') m = tsum (owned m) (s_finalizer_keys s')" for m
      using count [of m] sums [of m] cnt [of m] by (simp add: s')
    show "twf (s_finalizers s')" using wf by (simp add: s' twf_terase twf_tput)
    show "active_ok (s_finalizer_keys s') m e" if "tfind (s_finalizers s') m = Some e" for m e
      using act' [of m e] that by (simp add: s')
  qed (use wf I in \<open>auto simp: s' table_simps finkey_inv_def split: if_splits\<close>)
qed

section \<open>The registry over time\<close>

text \<open>Any interleaving of the three key actions with steps that leave the registry alone.\<close>

inductive finkey_run :: "host \<Rightarrow> sys_state \<Rightarrow> bool" for H where
  start: "s_finalizer_keys s = [] \<Longrightarrow> s_finalizers s = [] \<Longrightarrow> finkey_run H s"
| reg: "finkey_run H s \<Longrightarrow> ids_left s n \<Longrightarrow> regfinkey H x n key pop s = Inr (s', es) \<Longrightarrow> finkey_run H s'"
| act: "finkey_run H s \<Longrightarrow> actfinkey H x n key s = Inr (s', es) \<Longrightarrow> finkey_run H s'"
| del: "finkey_run H s \<Longrightarrow> delfinkey H x n key s = Inr (s', es) \<Longrightarrow> finkey_run H s'"
| other: "finkey_run H s \<Longrightarrow> s_finalizer_keys s' = s_finalizer_keys s \<Longrightarrow> s_finalizers s' = s_finalizers s \<Longrightarrow>
    s_fin_key_id_generator s' = s_fin_key_id_generator s \<Longrightarrow> finkey_run H s'"

lemma finkey_run_inv: "finkey_run H s \<Longrightarrow> finkey_inv H s"
proof (induction rule: finkey_run.induct)
  case (start s)
  then show ?case by (simp add: finkey_inv_def key_count_def)
next
  case (other s s')
  then show ?case by (simp add: finkey_inv_def)
qed (erule (2) regfinkey_inv, erule (1) actfinkey_inv, erule (1) delfinkey_inv)

text \<open>C33: however keys are registered, activated and deleted, in any order and by any finalizers,
  every finalizer row counts exactly the keys registered by that finalizer, its active key is one
  of them and the row holds that key's binary form, and no key is registered twice.\<close>
theorem finalizer_registry:
  assumes "finkey_run H s"
  shows "(\<forall>n f. tfind (s_finalizers s) n = Some f \<longrightarrow>
        uint (fi_finalizer_key_count f) = int (length (filter (\<lambda>(_, k). fk_finalizer_name k = n) (s_finalizer_keys s)))
        \<and> (\<exists>k. tfind (s_finalizer_keys s) (fi_active_key_id f) = Some k
             \<and> fk_finalizer_name k = n \<and> fk_finalizer_key_binary k = fi_active_key_binary f))
     \<and> (\<forall>i j k l. tfind (s_finalizer_keys s) i = Some k \<and> tfind (s_finalizer_keys s) j = Some l \<and> i \<noteq> j \<longrightarrow>
        sha256 H (fk_finalizer_key_binary k) \<noteq> sha256 H (fk_finalizer_key_binary l))"
proof -
  have I: "finkey_inv H s" by (rule finkey_run_inv [OF assms])
  have sum: "tsum (owned n) K = int (length (filter (\<lambda>(_, k). fk_finalizer_name k = n) K))" for n K
    by (induction K) (auto simp: owned_def)
  have "uint (fi_finalizer_key_count f) = int (length (filter (\<lambda>(_, k). fk_finalizer_name k = n) (s_finalizer_keys s)))"
    if "tfind (s_finalizers s) n = Some f" for n f
  proof -
    have "key_count (s_finalizers s) n = tsum (owned n) (s_finalizer_keys s)" using I by (simp add: finkey_inv_def)
    then show ?thesis using that by (simp add: key_count_def sum)
  qed
  moreover have "active_ok (s_finalizer_keys s) n f" if "tfind (s_finalizers s) n = Some f" for n f
    using I that by (simp add: finkey_inv_def)
  moreover have "i = j" if "tfind (s_finalizer_keys s) i = Some k" "tfind (s_finalizer_keys s) j = Some l"
      "sha256 H (fk_finalizer_key_binary k) = sha256 H (fk_finalizer_key_binary l)" for i j k l
    using I that unfolding finkey_inv_def by blast
  ultimately show ?thesis unfolding active_ok_def by blast
qed

theorem finalizer_registry_witness:
  "\<exists>s' f. regfinkey demo_host (demo_ctx system_account [bob]) bob ''PUB_BLS_b'' ''SIG_BLS_b'' demo_system = Inr (s', [])
     \<and> tfind (s_finalizers s') bob = Some f
     \<and> uint (fi_finalizer_key_count f) = int (length (filter (\<lambda>(_, k). fk_finalizer_name k = bob) (s_finalizer_keys s')))"
proof -
  let ?r = "regfinkey demo_host (demo_ctx system_account [bob]) bob ''PUB_BLS_b'' ''SIG_BLS_b'' demo_system"
  have k: "s_finalizer_keys demo_system = []" "s_fin_key_id_generator demo_system = None"
    by (simp_all add: demo_system_def system_empty_def)
  obtain s' f where r: "?r = Inr (s', [])" and f: "tfind (s_finalizers s') bob = Some f"
    using k by (simp add: regfinkey_def to_binary_def demo_host_def find_key_by_hash_def get_next_finalizer_key_id_def templace_def)
  have "finkey_run demo_host demo_system" using k by (intro finkey_run.start) simp_all
  moreover have "ids_left demo_system bob" using k by (simp add: ids_left_def)
  ultimately have "finkey_run demo_host s'" using r by (rule finkey_run.reg)
  from finalizer_registry [OF this] r f show ?thesis by blast
qed

end
