(* ===== verification/Block_Info.thy ===== *)
theory Block_Info
  imports System_State
begin

text \<open>
  The rolling window of recent blocks (\<open>block_info.cpp\<close>) and the query other contracts run on it
  (\<open>block_info.hpp\<close>). Block heights are 32 bit, the table key is the height as 64 bit value.
\<close>

unbundle bit_operations_syntax

section \<open>Recording blocks\<close>

definition rolling_window_size :: "32 word" where
  "rolling_window_size = 10"

text \<open>The height of a block: the first four bytes of its id, most significant first.\<close>

definition block_height_from_id :: "bytes \<Rightarrow> 32 word" where
  "block_height_from_id arr =
     (push_bit 24 (ucast (arr ! 0)) OR push_bit 16 (ucast (arr ! 1)) OR push_bit 8 (ucast (arr ! 2)) OR ucast (arr ! 3))"

text \<open>The loop that erases at most \<open>count\<close> outdated rows from the front.\<close>

fun prune :: "nat \<Rightarrow> 32 word \<Rightarrow> (64 word, block_info_record) table \<Rightarrow> (64 word, block_info_record) table" where
  "prune count last_prunable [] = []"
| "prune 0 last_prunable t = t"
| "prune (Suc count) last_prunable ((k, r) # t) =
     (if bi_block_height r \<le> last_prunable then prune count last_prunable t else (k, r) # t)"

definition add_to_blockinfo_table ::
  "cdt \<Rightarrow> bytes \<Rightarrow> block_timestamp \<Rightarrow> (64 word, block_info_record) table \<Rightarrow> (64 word, block_info_record) table res" where
  "add_to_blockinfo_table C previous_block_id timestamp t =
     (let height = block_height_from_id previous_block_id + 1;
          row = \<lparr>bi_version = 0, bi_block_height = height, bi_block_timestamp = slot_time C timestamp\<rparr>
      in rbind (if rolling_window_size > 0 then templace DuplicateKey (ucast height) row t else Inr t) (\<lambda>t1.
           let last_prunable = max height rolling_window_size - rolling_window_size
           in Inr (prune 2 last_prunable t1)))"

section \<open>The latest batch\<close>

record block_batch_info =
  batch_start_height :: "32 word"
  batch_start_timestamp :: time_point
  batch_current_end_height :: "32 word"
  batch_current_end_timestamp :: time_point

datatype batch_error = No_error | Invalid_input | Unsupported_version | Insufficient_data

definition get_latest_block_batch_info ::
  "32 word \<Rightarrow> 32 word \<Rightarrow> (64 word, block_info_record) table \<Rightarrow> block_batch_info option \<times> batch_error" where
  "get_latest_block_batch_info offset batch_size t =
     (if batch_size = 0 then (None, Invalid_input)
      else if t = [] then (None, Insufficient_data)
      else let latest = snd (last t) in
      if bi_version latest \<noteq> 0 then (None, Unsupported_version)
      else let end_height = bi_block_height latest in
      if end_height < offset then (None, Insufficient_data)
      else let start_height = end_height - ((end_height - offset) mod batch_size) in
      if start_height = end_height then
        (Some \<lparr>batch_start_height = start_height, batch_start_timestamp = bi_block_timestamp latest,
           batch_current_end_height = end_height, batch_current_end_timestamp = bi_block_timestamp latest\<rparr>, No_error)
      else case tfind t (ucast start_height) of
        None \<Rightarrow> (None, Insufficient_data)
      | Some start \<Rightarrow>
          if bi_block_height start \<noteq> start_height then (None, Insufficient_data)
          else if bi_version start \<noteq> 0 then (None, Unsupported_version)
          else (Some \<lparr>batch_start_height = start_height, batch_start_timestamp = bi_block_timestamp start,
             batch_current_end_height = end_height, batch_current_end_timestamp = bi_block_timestamp latest\<rparr>, No_error))"

section \<open>The window\<close>

text \<open>A table of consecutive blocks.\<close>

definition consecutive :: "nat \<Rightarrow> nat \<Rightarrow> (64 word, block_info_record) table \<Rightarrow> bool" where
  "consecutive first len t \<longleftrightarrow> map (\<lambda>(k, r). (k, bi_block_height r, bi_version r)) t
     = map (\<lambda>i. (word_of_nat i, word_of_nat i, 0)) [first..<first + len] \<and> first + len < 2 ^ 32"

lemma consecutive_Cons:
  "consecutive f (Suc n) ((k, r) # t) \<longleftrightarrow> k = word_of_nat f \<and> bi_block_height r = word_of_nat f \<and> bi_version r = 0
     \<and> consecutive (Suc f) n t"
  by (auto simp: consecutive_def upt_conv_Cons simp del: upt_Suc)

lemma consecutive_length: "consecutive f n t \<Longrightarrow> length t = n"
  by (auto simp: consecutive_def dest: arg_cong [where f = length])

lemma word64_of_32: "i < 2 ^ 32 \<Longrightarrow> (ucast (word_of_nat i :: 32 word) :: 64 word) = word_of_nat i"
  by (simp add: unsigned_of_nat take_bit_nat_eq_self)

lemma word_of_nat_less64: "i < j \<Longrightarrow> j < 2 ^ 32 \<Longrightarrow> (word_of_nat i :: 64 word) < word_of_nat j"
  by (simp add: word_less_nat_alt unat_of_nat)

lemma word_of_nat_le32: "i < 2 ^ 32 \<Longrightarrow> j < 2 ^ 32 \<Longrightarrow> (word_of_nat i :: 32 word) \<le> word_of_nat j \<longleftrightarrow> i \<le> j"
  by (simp add: word_le_nat_alt unat_of_nat)

lemma consecutive_append:
  assumes "consecutive f n t" "m = f + n" "m + 1 < 2 ^ 32" "bi_block_height r = word_of_nat m" "bi_version r = 0"
  shows "tput (word_of_nat m) r t = t @ [(word_of_nat m, r)]"
    "tfind t (word_of_nat m) = None" "consecutive f (Suc n) (t @ [(word_of_nat m, r)])"
proof -
  have eq: "map (\<lambda>(k, r). (k, bi_block_height r, bi_version r)) t = map (\<lambda>i. (word_of_nat i, word_of_nat i, 0)) [f..<m]"
    using assms(1,2) by (simp add: consecutive_def)
  have keys: "\<forall>k \<in> fst ` set t. k < word_of_nat m"
  proof
    fix k assume "k \<in> fst ` set t"
    then have "k \<in> fst ` set (map (\<lambda>(k, r). (k, bi_block_height r, bi_version r)) t)" by force
    then have "k \<in> word_of_nat ` set [f..<m]" unfolding eq by (simp add: image_image)
    then show "k < word_of_nat m" using word_of_nat_less64 assms(3) by auto
  qed
  then show "tput (word_of_nat m) r t = t @ [(word_of_nat m, r)]"
    by (induction t) force+
  show "tfind t (word_of_nat m) = None" using keys by (force simp: map_of_eq_None_iff)
  show "consecutive f (Suc n) (t @ [(word_of_nat m, r)])"
    using assms eq by (simp add: consecutive_def)
qed

lemma prune_consecutive:
  assumes "consecutive f n t" "m < 2 ^ 32"
  shows "prune c (word_of_nat m) t = drop (min c (Suc m - f)) t"
  using assms
proof (induction c "word_of_nat m :: 32 word" t arbitrary: f n rule: prune.induct)
  case (3 c k r t)
  obtain n' where n: "n = Suc n'" using 3(2) by (cases n) (auto simp: consecutive_def)
  have r: "bi_block_height r = word_of_nat f" and t: "consecutive (Suc f) n' t" and f: "f < 2 ^ 32"
    using 3(2) by (auto simp: n consecutive_Cons) (auto simp: consecutive_def)
  have le: "bi_block_height r \<le> word_of_nat m \<longleftrightarrow> f \<le> m" using r word_of_nat_le32 [OF f 3(3)] by simp
  show ?case
  proof (cases "f \<le> m")
    case True
    then show ?thesis using 3(1) [OF _ t 3(3)] le by (simp add: Suc_diff_le min_def)
  qed (simp add: le)
qed auto

text \<open>Recording the next block of a consecutive window.\<close>

lemma prunable:
  assumes "m < 2 ^ 32"
  shows "max (word_of_nat m) rolling_window_size - rolling_window_size = word_of_nat (m - 10)"
proof (cases "10 \<le> m")
  case True
  have "rolling_window_size \<le> word_of_nat m" using True word_of_nat_le32 [of 10 m] assms by (simp add: rolling_window_size_def)
  moreover have "word_of_nat (m - 10) = (word_of_nat m - 10 :: 32 word)" using True by (simp add: of_nat_diff)
  ultimately show ?thesis by (simp add: max_def rolling_window_size_def)
next
  case False
  then have "(word_of_nat m :: 32 word) \<le> rolling_window_size" using word_of_nat_le32 [of m 10] assms by (simp add: rolling_window_size_def)
  then show ?thesis using False by (simp add: max_absorb2)
qed

lemma add_consecutive:
  assumes t: "consecutive f n t" "0 < f" "n \<le> 10" and prev: "block_height_from_id prev + 1 = word_of_nat m"
    and m: "m = f + n" and room: "m + 1 < 2 ^ 32"
  shows "\<exists>t'. add_to_blockinfo_table C prev ts t = Inr t'
     \<and> (if n < 10 then consecutive f (Suc n) t' else consecutive (Suc f) n t')
     \<and> last t' = (word_of_nat m, \<lparr>bi_version = 0, bi_block_height = word_of_nat m, bi_block_timestamp = slot_time C ts\<rparr>)"
proof -
  let ?r = "\<lparr>bi_version = 0, bi_block_height = word_of_nat m, bi_block_timestamp = slot_time C ts\<rparr>"
  have key: "(ucast (word_of_nat m :: 32 word) :: 64 word) = word_of_nat m" using room by (intro word64_of_32) simp
  note ap = consecutive_append [OF t(1) m room, of ?r, simplified]
  have "add_to_blockinfo_table C prev ts t = Inr (prune 2 (word_of_nat (m - 10)) (t @ [(word_of_nat m, ?r)]))"
    using prev key ap(1,2) prunable [of m] room by (simp add: add_to_blockinfo_table_def Let_def templace_def rolling_window_size_def)
  moreover have "prune 2 (word_of_nat (m - 10)) (t @ [(word_of_nat m, ?r)])
      = drop (min 2 (Suc (m - 10) - f)) (t @ [(word_of_nat m, ?r)])"
    using prune_consecutive [OF ap(3)] room by simp
  moreover have "min 2 (Suc (m - 10) - f) = (if n < 10 then 0 else 1)" using m t(2,3) by auto
  moreover have "consecutive (Suc f) n (drop 1 (t @ [(word_of_nat m, ?r)]))
      \<and> last (drop 1 (t @ [(word_of_nat m, ?r)])) = (word_of_nat m, ?r)" if n: "n = 10"
  proof -
    obtain a b l where "t = (a, b) # l" using consecutive_length [OF t(1)] n by (cases t) auto
    then show ?thesis using ap(3) consecutive_Cons [of f n a b "l @ [(word_of_nat m, ?r)]"] by simp
  qed
  ultimately show ?thesis using ap(3) t(3) by (cases "n < 10") auto
qed

text \<open>The blocks of a chain recorded one after the other, starting after height \<open>h\<close>.\<close>

fun record_blocks ::
  "cdt \<Rightarrow> (bytes \<times> block_timestamp) list \<Rightarrow> (64 word, block_info_record) table \<Rightarrow> (64 word, block_info_record) table res" where
  "record_blocks C [] t = Inr t"
| "record_blocks C ((prev, ts) # bs) t = rbind (add_to_blockinfo_table C prev ts t) (record_blocks C bs)"

definition heights_from :: "nat \<Rightarrow> (bytes \<times> block_timestamp) list \<Rightarrow> bool" where
  "heights_from h bs \<longleftrightarrow> h + length bs + 1 < 2 ^ 32
     \<and> (\<forall>i < length bs. block_height_from_id (fst (bs ! i)) + 1 = word_of_nat (h + i))"

lemma heights_Cons:
  "heights_from h ((prev, ts) # bs) \<Longrightarrow> block_height_from_id prev + 1 = word_of_nat h \<and> heights_from (Suc h) bs \<and> h + 1 < 2 ^ 32"
  by (force simp: heights_from_def)

lemma record_blocks_window:
  assumes "heights_from (f + n) bs" "consecutive f n t" "0 < f" "n \<le> 10"
  shows "\<exists>t'. record_blocks C bs t = Inr t'
     \<and> consecutive (f + (n + length bs - 10)) (min 10 (n + length bs)) t'"
  using assms
proof (induction bs arbitrary: f n t)
  case Nil
  then show ?case by (simp add: min_absorb2)
next
  case (Cons b bs)
  obtain prev ts where b: "b = (prev, ts)" by (cases b)
  have h: "block_height_from_id prev + 1 = word_of_nat (f + n)" "heights_from (Suc (f + n)) bs" "f + n + 1 < 2 ^ 32"
    using heights_Cons Cons.prems(1) unfolding b by blast+
  obtain t1 where t1: "add_to_blockinfo_table C prev ts t = Inr t1"
    "if n < 10 then consecutive f (Suc n) t1 else consecutive (Suc f) n t1"
    using add_consecutive [OF Cons.prems(2,3,4) h(1) refl h(3), of C ts] by blast
  show ?case
  proof (cases "n < 10")
    case True
    then show ?thesis using Cons.IH [of f "Suc n" t1] t1 h(2) Cons.prems(3) by (simp add: b)
  next
    case False
    then have "n = 10" using Cons.prems(4) by simp
    then show ?thesis using Cons.IH [of "Suc f" n t1] t1 h(2) by (simp add: b)
  qed
qed

text \<open>C34: the table is a rolling window. Recording any number of consecutive blocks, starting with an
  empty table, never fails, and leaves exactly the last ten of them (all of them while there are
  fewer), in order.\<close>
theorem rolling_window:
  assumes "heights_from h bs" "0 < h"
  shows "\<exists>t. record_blocks C bs [] = Inr t
     \<and> map (\<lambda>(_, r). bi_block_height r) t
         = map word_of_nat [h + (length bs - 10)..<h + length bs]"
proof -
  have "consecutive h 0 []" using assms(1) by (simp add: consecutive_def heights_from_def)
  then obtain t where t: "record_blocks C bs [] = Inr t" "consecutive (h + (length bs - 10)) (min 10 (length bs)) t"
    using record_blocks_window [of h 0 bs "[]" C] assms by auto
  have e: "h + (length bs - 10) + min 10 (length bs) = h + length bs" by auto
  have "map (\<lambda>(k, r). (k, bi_block_height r, bi_version r)) t
      = map (\<lambda>i. (word_of_nat i, word_of_nat i, 0)) [h + (length bs - 10)..<h + length bs]"
    using t(2) unfolding consecutive_def e by blast
  from arg_cong [OF this, of "map (fst \<circ> snd)"] t(1) show ?thesis
    by (intro exI [of _ t]) (simp add: comp_def case_prod_beta')
qed

definition demo_blocks :: "(bytes \<times> block_timestamp) list" where
  "demo_blocks = map (\<lambda>i. ([0, 0, 0, word_of_nat i], word_of_nat i)) [4..<16]"

theorem rolling_window_witness:
  "\<exists>t. record_blocks cdt_ref demo_blocks [] = Inr t
     \<and> map (\<lambda>(_, r). bi_block_height r) t = [7, 8, 9, 10, 11, 12, 13, 14, 15, 16]"
proof -
  have h: "heights_from 5 demo_blocks"
  proof -
    have "list_all (\<lambda>i. block_height_from_id (fst (demo_blocks ! i)) + 1 = word_of_nat (5 + i)) [0..<12]" by code_simp
    then have "\<forall>i < 12. block_height_from_id (fst (demo_blocks ! i)) + 1 = word_of_nat (5 + i)"
      unfolding list_all_iff set_upt by simp
    moreover have "length demo_blocks = 12" by (simp add: demo_blocks_def)
    ultimately show ?thesis by (simp add: heights_from_def)
  qed
  have l: "length demo_blocks = 12" by (simp add: demo_blocks_def)
  show ?thesis using rolling_window [OF h, of cdt_ref] by (simp add: l upt_rec)
qed

section \<open>The batch query\<close>

lemma batch_start:
  fixes e off size :: "32 word"
  assumes "off \<le> e" "size \<noteq> 0"
  shows "unat (e - (e - off) mod size) = unat e - (unat e - unat off) mod unat size"
proof -
  have d: "unat (e - off) = unat e - unat off" using assms(1) by (rule unat_sub)
  have m: "unat ((e - off) mod size) = (unat e - unat off) mod unat size" by (simp add: unat_mod d)
  have "(e - off) mod size \<le> e"
    using m by (simp add: word_le_nat_alt) (meson diff_le_self le_trans mod_less_eq_dividend)
  then show ?thesis using unat_sub m by metis
qed

text \<open>The latest batch the query reports ends at the last recorded block, starts at a height that
  is a whole number of batch sizes after the requested offset, spans at most the batch size, and
  both timestamps are those recorded for these heights. Without a result there is an error code,
  and with one there is none.\<close>
lemma latest_batch:
  assumes "get_latest_block_batch_info offset batch_size t = (res, err)" "twf t"
    "\<forall>(k, r) \<in> set t. k = ucast (bi_block_height r)"
  shows "case res of
       None \<Rightarrow> err \<noteq> No_error
     | Some b \<Rightarrow> err = No_error \<and> offset \<le> batch_start_height b
         \<and> (unat (batch_start_height b) - unat offset) mod unat batch_size = 0
         \<and> batch_start_height b \<le> batch_current_end_height b
         \<and> unat (batch_current_end_height b) < unat (batch_start_height b) + unat batch_size
         \<and> t \<noteq> [] \<and> batch_current_end_height b = bi_block_height (snd (last t))
         \<and> (\<exists>r. tfind t (ucast (batch_start_height b)) = Some r \<and> bi_block_timestamp r = batch_start_timestamp b)
         \<and> (\<exists>r. tfind t (ucast (batch_current_end_height b)) = Some r
              \<and> bi_block_timestamp r = batch_current_end_timestamp b)"
proof (cases "batch_size = 0 \<or> t = [] \<or> bi_version (snd (last t)) \<noteq> 0 \<or> bi_block_height (snd (last t)) < offset")
  case True
  then show ?thesis using assms(1) unfolding get_latest_block_batch_info_def Let_def by (auto split: if_splits)
next
  case False
  define e where "e = bi_block_height (snd (last t))"
  define st where "st = e - (e - offset) mod batch_size"
  have g: "batch_size \<noteq> 0" "offset \<le> e" "t \<noteq> []" using False by (auto simp: e_def)
  have u: "unat st = unat e - (unat e - unat offset) mod unat batch_size"
    using batch_start [OF g(2,1)] by (simp add: st_def)
  have off: "unat offset \<le> unat e" using g(2) by (simp add: word_le_nat_alt)
  have bs: "0 < unat batch_size" using g(1) by (simp add: unat_gt_0)
  have md: "(unat e - unat offset) mod unat batch_size \<le> unat e - unat offset" by (rule mod_less_eq_dividend)
  have start: "offset \<le> st" "st \<le> e" "unat e < unat st + unat batch_size"
      "(unat st - unat offset) mod unat batch_size = 0"
  proof -
    show "offset \<le> st" "st \<le> e" using u md off unfolding word_le_nat_alt by linarith+
    show "unat e < unat st + unat batch_size" using u mod_less_divisor [OF bs, of "unat e - unat offset"] by linarith
    have "unat st - unat offset = (unat e - unat offset) - (unat e - unat offset) mod unat batch_size" using u md off by linarith
    then show "(unat st - unat offset) mod unat batch_size = 0" by (simp add: minus_mod_eq_mult_div)
  qed
  have lr: "tfind t (ucast e) = Some (snd (last t))"
  proof -
    have l: "last t \<in> set t" using g(3) by simp
    obtain k r where kr: "last t = (k, r)" by (cases "last t")
    have "k = ucast (bi_block_height r)" using bspec [OF assms(3) l] by (simp add: kr)
    then have "(ucast e, snd (last t)) \<in> set t" using l by (simp add: kr e_def)
    then show ?thesis using assms(2) by (simp add: tfind_in_set)
  qed
  have run: "(res, err) = (if st = e then
        (Some \<lparr>batch_start_height = st, batch_start_timestamp = bi_block_timestamp (snd (last t)),
           batch_current_end_height = e, batch_current_end_timestamp = bi_block_timestamp (snd (last t))\<rparr>, No_error)
      else case tfind t (ucast st) of
        None \<Rightarrow> (None, Insufficient_data)
      | Some start \<Rightarrow>
          if bi_block_height start \<noteq> st then (None, Insufficient_data)
          else if bi_version start \<noteq> 0 then (None, Unsupported_version)
          else (Some \<lparr>batch_start_height = st, batch_start_timestamp = bi_block_timestamp start,
             batch_current_end_height = e, batch_current_end_timestamp = bi_block_timestamp (snd (last t))\<rparr>, No_error))"
    using False
    unfolding assms(1) [symmetric] get_latest_block_batch_info_def Let_def e_def [symmetric] st_def [symmetric] by simp
  show ?thesis
    using run start g lr by (auto simp: e_def [symmetric] split: if_splits option.splits)
qed

definition demo_window :: "(64 word, block_info_record) table" where
  "demo_window = map (\<lambda>i. (word_of_nat i, \<lparr>bi_version = 0, bi_block_height = word_of_nat i, bi_block_timestamp = int i\<rparr>)) [7..<17]"

lemma latest_batch_example:
  "\<exists>b. get_latest_block_batch_info 2 5 demo_window = (Some b, No_error)
     \<and> batch_start_height b = 12 \<and> batch_current_end_height b = 16
     \<and> (\<exists>r. tfind demo_window 12 = Some r \<and> bi_block_timestamp r = batch_start_timestamp b)"
proof -
  have run: "get_latest_block_batch_info 2 5 demo_window =
      (Some \<lparr>batch_start_height = 12, batch_start_timestamp = 12, batch_current_end_height = 16,
         batch_current_end_timestamp = 16\<rparr>, No_error)" by code_simp
  have wf: "twf demo_window" by code_simp
  have keys: "\<forall>(k, r) \<in> set demo_window. k = ucast (bi_block_height r)" by code_simp
  show ?thesis using latest_batch [OF run wf keys] run by simp
qed

end
