(* ===== verification/Name_Bidding.thy ===== *)
theory Name_Bidding
  imports Voting
begin

text \<open>
  The auction of premium names (\<open>name_bidding.cpp\<close>), the creation of accounts, which claims a won
  name (\<open>native::newaccount\<close>), and the limits on authority changes
  (\<open>limit_auth_changes.cpp\<close> and the \<open>native\<close> actions that check them).
\<close>

unbundle bit_operations_syntax

section \<open>Bids\<close>

definition bidname :: "cdt \<Rightarrow> host \<Rightarrow> ctx \<Rightarrow> name \<Rightarrow> name \<Rightarrow> asset \<Rightarrow> sys_state \<Rightarrow> sys_state outcome" where
  "bidname C H x bidder newname bid s =
     (if \<not> has_auth x bidder then Inl (MissingAuth bidder)
      else if name_suffix C newname \<noteq> newname then Inl (Check ''you can only bid on top-level suffix'')
      else if newname = 0 then Inl (Check ''the empty name is not a valid account name to bid on'')
      else if newname AND 0xF \<noteq> 0 then Inl (Check ''13 character names are not valid account names to bid on'')
      else if newname AND 0x1F0 \<noteq> 0
        then Inl (Check ''accounts with 12 character names and no dots can be created without bidding required'')
      else if is_account x newname then Inl (Check ''account already exists'')
      else rbind (core_symbol C H s) (\<lambda>core.
        if a_symbol bid \<noteq> core then Inl (Check ''asset must be system token'')
        else if \<not> 0 < a_amount bid then Inl (Check ''insufficient bid'')
        else let effects = [Send (Token_transfer [(bidder, active_permission)] bidder names_account bid
                              (''bid name '' @ name_string H newname))]
        in case tfind (s_name_bids s) newname of
          None \<Rightarrow>
            Inr (s\<lparr>s_name_bids := tput newname
                    \<lparr>nb_newname = newname, nb_high_bidder = bidder, nb_high_bid = a_amount bid,
                     nb_last_bid_time = now x\<rparr> (s_name_bids s)\<rparr>, effects)
        | Some current \<Rightarrow>
            if \<not> 0 < nb_high_bid current then Inl (Check ''this auction has already closed'')
            else if \<not> cdiv (nb_high_bid current) 10 < i64 (a_amount bid - nb_high_bid current)
              then Inl (Check ''must increase bid by 10%'')
            else if nb_high_bidder current = bidder then Inl (Check ''account is already highest bidder'')
            else rbind (asset_make C (nb_high_bid current) core) (\<lambda>old.
              rbind (case tfind (s_bid_refunds s) (Scoped newname (nb_high_bidder current)) of
                       Some r \<Rightarrow> rbind (asset_add C (br_amount r) old) (\<lambda>a. Inr (r\<lparr>br_amount := a\<rparr>))
                     | None \<Rightarrow> Inr \<lparr>br_bidder = nb_high_bidder current, br_amount = old\<rparr>) (\<lambda>r.
              Inr (s\<lparr>s_bid_refunds := tput (Scoped newname (nb_high_bidder current)) r (s_bid_refunds s),
                     s_name_bids := tput newname
                       (current\<lparr>nb_high_bidder := bidder, nb_high_bid := a_amount bid,
                          nb_last_bid_time := now x\<rparr>) (s_name_bids s)\<rparr>, effects)))))"

definition bidrefund :: "host \<Rightarrow> ctx \<Rightarrow> name \<Rightarrow> name \<Rightarrow> sys_state \<Rightarrow> sys_state outcome" where
  "bidrefund H x bidder newname s =
     (case tfind (s_bid_refunds s) (Scoped newname bidder) of
        None \<Rightarrow> Inl (Check ''refund not found'')
      | Some r \<Rightarrow>
          Inr (s\<lparr>s_bid_refunds := terase (Scoped newname bidder) (s_bid_refunds s)\<rparr>,
               [Send (Token_transfer [(names_account, active_permission), (bidder, active_permission)]
                  names_account bidder (br_amount r) (''refund bid on name '' @ name_string H newname))]))"

section \<open>New accounts\<close>

text \<open>The loop over the twelve five-bit characters: is one of them a dot (or unused)?\<close>

fun has_dot_loop :: "nat \<Rightarrow> 64 word \<Rightarrow> bool \<Rightarrow> bool" where
  "has_dot_loop 0 tmp has_dot = has_dot"
| "has_dot_loop (Suc n) tmp has_dot = has_dot_loop n (drop_bit 5 tmp) (has_dot \<or> tmp AND 0x1f = 0)"

definition has_dot :: "name \<Rightarrow> bool" where
  "has_dot n = has_dot_loop 12 (drop_bit 4 n) False"

text \<open>The static \<open>is_init\<close> reads the stored singleton.\<close>

definition is_init :: "cdt \<Rightarrow> sys_state \<Rightarrow> bool" where
  "is_init C s = (case sg s of Some g \<Rightarrow> symbol_is_valid C (a_symbol (g_total_vote_stake g)) | None \<Rightarrow> False)"

definition newaccount :: "cdt \<Rightarrow> ctx \<Rightarrow> name \<Rightarrow> name \<Rightarrow> sys_state \<Rightarrow> sys_state outcome" where
  "newaccount C x creator new_account_name s =
     (if \<not> is_init C s then Inr (s, [])
      else rbind
        (if creator \<noteq> self x \<and> has_dot new_account_name then
           (if name_suffix C new_account_name = new_account_name then
              (case tfind (s_name_bids s) new_account_name of
                 None \<Rightarrow> Inl (Check ''no active bid for name'')
               | Some current \<Rightarrow>
                   if nb_high_bidder current \<noteq> creator then Inl (Check ''only highest bidder can claim'')
                   else if \<not> nb_high_bid current < 0 then Inl (Check ''auction for name is not closed yet'')
                   else Inr (s\<lparr>s_name_bids := terase new_account_name (s_name_bids s)\<rparr>))
            else if creator \<noteq> name_suffix C new_account_name
              then Inl (Check ''only suffix may create this account'')
            else Inr s)
         else Inr s) (\<lambda>s1.
        rbind (templace DuplicateKey new_account_name
                 \<lparr>ac_owner = new_account_name, ac_creator = creator\<rparr> (s_creators s1)) (\<lambda>creators.
        Inr (s1\<lparr>s_creators := creators\<rparr>, [Set_resource_limits new_account_name 0 False]))))"

definition setabi :: "host \<Rightarrow> name \<Rightarrow> bytes \<Rightarrow> sys_state \<Rightarrow> sys_state outcome" where
  "setabi H acnt abi s = Inr (s\<lparr>s_abi_hash := tput acnt (sha256 H abi) (s_abi_hash s)\<rparr>, [])"

definition onerror :: "sys_state \<Rightarrow> sys_state outcome" where
  "onerror s = Inl (Check ''the onerror action cannot be called directly'')"

section \<open>Authority changes\<close>

definition limitauthchg :: "ctx \<Rightarrow> name \<Rightarrow> name list \<Rightarrow> name list \<Rightarrow> sys_state \<Rightarrow> sys_state outcome" where
  "limitauthchg x account allow_perms disallow_perms s =
     (if \<not> has_auth x account then Inl (MissingAuth account)
      else if \<not> (allow_perms = [] \<or> disallow_perms = [])
        then Inl (Check ''either allow_perms or disallow_perms must be empty'')
      else if \<not> (allow_perms = [] \<or> owner_permission \<in> set allow_perms)
        then Inl (Check ''allow_perms does not contain owner'')
      else if \<not> (disallow_perms = [] \<or> owner_permission \<notin> set disallow_perms)
        then Inl (Check ''disallow_perms contains owner'')
      else if allow_perms \<noteq> [] \<or> disallow_perms \<noteq> [] then
        (let row = (case tfind (s_limit_auth s) account of
                      None \<Rightarrow> \<lparr>la_version = 0, la_account = account, la_allow_perms = allow_perms,
                               la_disallow_perms = disallow_perms\<rparr>
                    | Some r \<Rightarrow> r\<lparr>la_allow_perms := allow_perms, la_disallow_perms := disallow_perms\<rparr>)
         in Inr (s\<lparr>s_limit_auth := tput account row (s_limit_auth s)\<rparr>, []))
      else Inr (s\<lparr>s_limit_auth := terase account (s_limit_auth s)\<rparr>, []))"

text \<open>An absent \<open>authorized_by\<close> is the empty name.\<close>

definition check_auth_change :: "ctx \<Rightarrow> name \<Rightarrow> name option \<Rightarrow> sys_state \<Rightarrow> unit res" where
  "check_auth_change x account authorized_by s =
     (let by_name = (case authorized_by of Some n \<Rightarrow> n | None \<Rightarrow> 0) in
      if by_name \<noteq> 0 \<and> \<not> has_perm x account by_name then Inl (MissingPerm account by_name)
      else case tfind (s_limit_auth s) account of
        None \<Rightarrow> Inr ()
      | Some r \<Rightarrow>
          if by_name = 0 then Inl (Check ''authorized_by is required for this account'')
          else if la_allow_perms r \<noteq> [] then
            (if by_name \<in> set (la_allow_perms r) then Inr ()
             else Inl (Check ''authorized_by does not appear in allow_perms''))
          else if by_name \<notin> set (la_disallow_perms r) then Inr ()
          else Inl (Check ''authorized_by appears in disallow_perms''))"

text \<open>The four native actions that change authorities only run that check.\<close>

definition updateauth :: "ctx \<Rightarrow> name \<Rightarrow> name option \<Rightarrow> sys_state \<Rightarrow> sys_state outcome" where
  "updateauth x account authorized_by s = rbind (check_auth_change x account authorized_by s) (\<lambda>_. Inr (s, []))"

definition deleteauth :: "ctx \<Rightarrow> name \<Rightarrow> name option \<Rightarrow> sys_state \<Rightarrow> sys_state outcome" where
  "deleteauth x account authorized_by s = rbind (check_auth_change x account authorized_by s) (\<lambda>_. Inr (s, []))"

definition linkauth :: "ctx \<Rightarrow> name \<Rightarrow> name option \<Rightarrow> sys_state \<Rightarrow> sys_state outcome" where
  "linkauth x account authorized_by s = rbind (check_auth_change x account authorized_by s) (\<lambda>_. Inr (s, []))"

definition unlinkauth :: "ctx \<Rightarrow> name \<Rightarrow> name option \<Rightarrow> sys_state \<Rightarrow> sys_state outcome" where
  "unlinkauth x account authorized_by s = rbind (check_auth_change x account authorized_by s) (\<lambda>_. Inr (s, []))"

end
