(* ===== verification/Producer_Pay.thy ===== *)
theory Producer_Pay
  imports Finalizers Block_Info Name_Bidding
begin

text \<open>
  What the system contract does on every block (\<open>producer_pay.cpp\<close>): record the block, credit the
  producer with the block reward, halved every five years, once a minute renew the producer
  schedule and, at most once a day, close the highest name auction. A division by zero traps, which
  aborts the action.
\<close>

text \<open>The loop of \<open>power\<close> on 64 bit numbers.\<close>

fun power_loop :: "nat \<Rightarrow> int \<Rightarrow> int \<Rightarrow> int" where
  "power_loop 0 base ret = ret"
| "power_loop (Suc n) base ret = power_loop n base (i64 (ret * base))"

definition power :: "int \<Rightarrow> int \<Rightarrow> int" where
  "power base exp = power_loop (nat exp) base 1"

definition block_reward :: "int \<Rightarrow> int \<Rightarrow> int res" where
  "block_reward initial cur_period =
     (if power 2 cur_period = 0 then Inl (Library ''integer divide by zero'')
      else Inr (cdiv initial (power 2 cur_period)))"

definition channel_to_system_fees :: "host \<Rightarrow> name \<Rightarrow> asset \<Rightarrow> effect" where
  "channel_to_system_fees H from amount =
     Send (Token_transfer [(from, active_permission)] from fees_account amount
       (''transfer from '' @ name_string H from @ '' to '' @ name_string H fees_account))"

text \<open>Credit the producer of the block, if it is registered and rewards have started.\<close>

definition credit_producer :: "host \<Rightarrow> time_point \<Rightarrow> name \<Rightarrow> sys_state \<Rightarrow> sys_state res" where
  "credit_producer H t producer s =
     (let g = gs H s in
      case tfind (s_producers s) producer of
        None \<Rightarrow> Inr s
      | Some p \<Rightarrow>
          if g_reward_started_time g \<noteq> 0 \<and> g_reward_started_time g \<le> t then
            (let cur_period = cdiv (cdiv (t - g_reward_started_time g) 1000000) reward_halving_period_seconds in
             rbind (block_reward (a_amount (g_initial_rewards_per_block g)) cur_period) (\<lambda>r.
             Inr (s\<lparr>s_producers := tput producer
                     (p\<lparr>pi_unclaimed_rewards := (pi_unclaimed_rewards p)
                          \<lparr>a_amount := i64 (a_amount (pi_unclaimed_rewards p) + r)\<rparr>\<rparr>) (s_producers s),
                   sg := Some (g\<lparr>g_total_produced_rewards := (g_total_produced_rewards g)
                              \<lparr>a_amount := i64 (a_amount (g_total_produced_rewards g) + r)\<rparr>,
                            g_total_unclaimed_rewards := (g_total_unclaimed_rewards g)
                              \<lparr>a_amount := i64 (a_amount (g_total_unclaimed_rewards g) + r)\<rparr>\<rparr>)\<rparr>)))
          else Inr s)"

text \<open>The first row of the bid index that is not closed: the highest bid.\<close>

definition highest_bid :: "(name, name_bid) table \<Rightarrow> (name \<times> name_bid) option" where
  "highest_bid B = find (\<lambda>(_, b). 2 ^ 63 - 1 \<le> by_high_bid b) (sort_key (\<lambda>(_, b). by_high_bid b) B)"

definition close_auction :: "cdt \<Rightarrow> host \<Rightarrow> ctx \<Rightarrow> block_timestamp \<Rightarrow> sys_state \<Rightarrow> sys_state outcome" where
  "close_auction C H x timestamp s =
     (case highest_bid (s_name_bids s) of
        None \<Rightarrow> Inr (s, [])
      | Some (n, b) \<Rightarrow>
          if 0 < nb_high_bid b \<and> useconds_per_day < now x - nb_last_bid_time b then
            rbind (core_symbol C H s) (\<lambda>core.
            rbind (asset_make C (nb_high_bid b) core) (\<lambda>amount.
            Inr (s\<lparr>sg := Some ((gs H s)\<lparr>g_last_name_close := timestamp\<rparr>),
                   s_name_bids := tput n (b\<lparr>nb_high_bid := i64 (- nb_high_bid b)\<rparr>) (s_name_bids s)\<rparr>,
                 [channel_to_system_fees H names_account amount,
                  Send (System_logsystemfee [(self x, active_permission)] names_account amount ''buy name'')])))
          else Inr (s, []))"

definition onblock ::
  "cdt \<Rightarrow> host \<Rightarrow> ctx \<Rightarrow> block_timestamp \<Rightarrow> name \<Rightarrow> bytes \<Rightarrow> sys_state \<Rightarrow> sys_state outcome" where
  "onblock C H x timestamp producer previous_block_id s =
     (if \<not> has_auth x (self x) then Inl (MissingAuth (self x))
      else rbind (add_to_blockinfo_table C previous_block_id timestamp (s_block_info s)) (\<lambda>t.
        let s = s\<lparr>s_block_info := t\<rparr> in
        if g_election_activated_time (gs H s) = 0 \<or> slot_time C timestamp < g_election_activated_time (gs H s)
          then Inr (s, [])
        else rbind (credit_producer H (slot_time C timestamp) producer s) (\<lambda>s.
        if 120 < timestamp - g_last_producer_schedule_update (gs H s) then
          (let (s, es) = update_elected_producers H timestamp s in
           if blocks_per_day < timestamp - g_last_name_close (gs H s) then
             rbind (close_auction C H x timestamp s) (\<lambda>(s, es'). Inr (s, es @ es'))
           else Inr (s, es))
        else Inr (s, []))))"

definition claimrewards :: "ctx \<Rightarrow> name \<Rightarrow> sys_state \<Rightarrow> sys_state outcome" where
  "claimrewards x owner s =
     (if \<not> has_auth x owner then Inl (MissingAuth owner)
      else Inl (Check ''unsupport claimrewards currently''))"

definition cfgelection ::
  "cdt \<Rightarrow> host \<Rightarrow> ctx \<Rightarrow> time_point \<Rightarrow> time_point \<Rightarrow> asset \<Rightarrow> sys_state \<Rightarrow> sys_state outcome" where
  "cfgelection C H x election_activated_time reward_started_time initial_rewards_per_block s =
     (if \<not> has_auth x (self x) then Inl (MissingAuth (self x))
      else rbind (core_symbol C H s) (\<lambda>core.
        let g = gs H s in
        if a_symbol initial_rewards_per_block \<noteq> core then Inl (Check ''reward symbol mismatch with core symbol'')
        else if \<not> 0 \<le> a_amount initial_rewards_per_block then Inl (Check ''reward can not be negative'')
        else rbind (if g_election_activated_time g = 0 \<or> now x < g_election_activated_time g then
                      (if \<not> now x < election_activated_time
                         then Inl (Check ''election activated time must larger than now'')
                       else Inr (g\<lparr>g_election_activated_time := election_activated_time\<rparr>))
                    else if election_activated_time \<noteq> g_election_activated_time g
                      then Inl (Check ''can not change election activated time after election has already been activated'')
                    else Inr g) (\<lambda>g.
        if \<not> g_election_activated_time g \<le> reward_started_time
          then Inl (Check ''reward start time can not less than election activated time'')
        else rbind (if g_reward_started_time g = 0 \<or> now x < g_reward_started_time g then
                      (if \<not> now x < reward_started_time
                         then Inl (Check ''reward start time must larger than now'')
                       else Inr (g\<lparr>g_reward_started_time := reward_started_time\<rparr>))
                    else if reward_started_time \<noteq> g_reward_started_time g
                      then Inl (Check ''can not change reward start timee after reward has already been started'')
                    else Inr g) (\<lambda>g.
        Inr (s\<lparr>sg := Some (g\<lparr>g_initial_rewards_per_block := initial_rewards_per_block\<rparr>)\<rparr>, [])))))"

end
