(* ===== verification/Name_Props.thy ===== *)
theory Name_Props
  imports Producer_Pay
begin

text \<open>
  The books of the name auctions: what is held for open auctions and outbid bidders, what a bid
  changes, who may create which account.
\<close>

section \<open>The books\<close>

definition open_bid :: "name \<Rightarrow> name_bid \<Rightarrow> int" where
  "open_bid k b = (if 0 < nb_high_bid b then nb_high_bid b else 0)"

definition held_names :: "sys_state \<Rightarrow> int" where
  "held_names s = tsum open_bid (s_name_bids s) + tsum (\<lambda>_ r. a_amount (br_amount r)) (s_bid_refunds s)"

definition bids_ok :: "cdt \<Rightarrow> symbol \<Rightarrow> sys_state \<Rightarrow> bool" where
  "bids_ok C core s \<longleftrightarrow> twf (s_name_bids s) \<and> twf (s_bid_refunds s)
   \<and> (\<forall>n b. tfind (s_name_bids s) n = Some b \<longrightarrow> nb_newname b = n \<and> nb_high_bid b \<noteq> 0 \<and> \<bar>nb_high_bid b\<bar> \<le> max_amount)
   \<and> (\<forall>k r. tfind (s_bid_refunds s) k = Some r \<longrightarrow> br_bidder r = pkey k \<and> symbol_is_valid C core
        \<and> a_symbol (br_amount r) = core \<and> 0 < a_amount (br_amount r))"

lemma bids_ok_bid:
  "bids_ok C core s \<Longrightarrow> tfind (s_name_bids s) n = Some b \<Longrightarrow>
     nb_newname b = n \<and> nb_high_bid b \<noteq> 0 \<and> \<bar>nb_high_bid b\<bar> \<le> max_amount"
  by (simp add: bids_ok_def)

text \<open>What a successful bid does.\<close>

definition bid_state :: "cdt \<Rightarrow> ctx \<Rightarrow> name \<Rightarrow> name \<Rightarrow> asset \<Rightarrow> sys_state \<Rightarrow> sys_state" where
  "bid_state C x bidder newname bid s =
     (case tfind (s_name_bids s) newname of
        None \<Rightarrow> s\<lparr>s_name_bids := tput newname \<lparr>nb_newname = newname, nb_high_bidder = bidder,
                   nb_high_bid = a_amount bid, nb_last_bid_time = now x\<rparr> (s_name_bids s)\<rparr>
      | Some b \<Rightarrow>
          (let k = Scoped newname (nb_high_bidder b);
               r = (case tfind (s_bid_refunds s) k of
                      None \<Rightarrow> \<lparr>br_bidder = nb_high_bidder b, br_amount = mk_asset (nb_high_bid b) (a_symbol bid)\<rparr>
                    | Some r \<Rightarrow> r\<lparr>br_amount := mk_asset (a_amount (br_amount r) + nb_high_bid b) (a_symbol bid)\<rparr>)
           in s\<lparr>s_bid_refunds := tput k r (s_bid_refunds s),
                s_name_bids := tput newname (b\<lparr>nb_high_bidder := bidder, nb_high_bid := a_amount bid,
                  nb_last_bid_time := now x\<rparr>) (s_name_bids s)\<rparr>))"

lemma bidname_Inr:
  assumes C: "cdt_laws C" and B: "bids_ok C (a_symbol (g_total_vote_stake (gs H s))) s" and q: "amount_ok (a_amount bid)"
    and run: "bidname C H x n newname bid s = Inr (s', es)"
  shows "has_auth x n" "a_symbol bid = a_symbol (g_total_vote_stake (gs H s))" "0 < a_amount bid"
    "symbol_is_valid C (a_symbol bid)"
    "s' = bid_state C x n newname bid s"
    "es = [Send (Token_transfer [(n, active_permission)] n names_account bid (''bid name '' @ name_string H newname))]"
    "tfind (s_name_bids s) newname = Some b \<Longrightarrow> 0 < nb_high_bid b \<and> nb_high_bidder b \<noteq> n
        \<and> nb_high_bid b div 10 < a_amount bid - nb_high_bid b"
proof -
  show g: "has_auth x n" "a_symbol bid = a_symbol (g_total_vote_stake (gs H s))" "0 < a_amount bid"
    "symbol_is_valid C (a_symbol bid)"
    "es = [Send (Token_transfer [(n, active_permission)] n names_account bid (''bid name '' @ name_string H newname))]"
    using run by (auto simp: bidname_def Let_def split: if_splits option.splits)
  have diff: "i64 (a_amount bid - nb_high_bid b) = a_amount bid - nb_high_bid b" if "tfind (s_name_bids s) newname = Some b" for b
    using bids_ok_bid [OF B that] q by (intro i64_id) (auto simp: amount_ok_def max_amount_def)
  show "0 < nb_high_bid b \<and> nb_high_bidder b \<noteq> n \<and> nb_high_bid b div 10 < a_amount bid - nb_high_bid b"
    if "tfind (s_name_bids s) newname = Some b"
    using run that diff [OF that] by (auto simp: bidname_def Let_def cdiv_nonneg split: if_splits)
  have sy: "a_symbol (br_amount r) = a_symbol bid" if "tfind (s_bid_refunds s) k = Some r" for k r
    using B that g(2) by (simp add: bids_ok_def)
  show "s' = bid_state C x n newname bid s"
  proof (cases "tfind (s_name_bids s) newname")
    case None
    then show ?thesis using run by (auto simp: bidname_def bid_state_def Let_def split: if_splits)
  next
    case (Some b)
    show ?thesis
    proof (cases "tfind (s_bid_refunds s) (Scoped newname (nb_high_bidder b))")
      case None
      then show ?thesis
        using run Some C by (auto simp: bidname_def bid_state_def Let_def cdt_inv split: if_splits)
    next
      case r: (Some r)
      then show ?thesis
        using run Some C sy [OF r] by (auto simp: bidname_def bid_state_def Let_def cdt_inv split: if_splits)
    qed
  qed
qed

lemma bid_state_books:
  assumes B: "bids_ok C core s" and q: "0 < a_amount bid" "amount_ok (a_amount bid)" "a_symbol bid = core" "symbol_is_valid C core"
    and op: "\<And>b. tfind (s_name_bids s) n = Some b \<Longrightarrow> 0 < nb_high_bid b"
  shows "bids_ok C core (bid_state C x bidder n bid s)"
    "held_names (bid_state C x bidder n bid s) = held_names s + a_amount bid"
proof -
  have wf: "twf (s_name_bids s)" "twf (s_bid_refunds s)" using B by (auto simp: bids_ok_def)
  have qb: "\<bar>a_amount bid\<bar> \<le> max_amount" using q by (auto simp: amount_ok_def)
  show "bids_ok C core (bid_state C x bidder n bid s)"
  proof (cases "tfind (s_name_bids s) n")
    case None
    then show ?thesis using B q qb by (auto simp: bids_ok_def bid_state_def table_simps)
  next
    case (Some b)
    note b = bids_ok_bid [OF B Some] op [OF Some]
    show ?thesis
      using B q qb b Some
      by (cases "tfind (s_bid_refunds s) (Scoped n (nb_high_bidder b))")
        (auto simp: bids_ok_def bid_state_def Let_def table_simps intro!: add_pos_pos)
  qed
  show "held_names (bid_state C x bidder n bid s) = held_names s + a_amount bid"
  proof (cases "tfind (s_name_bids s) n")
    case None
    then show ?thesis using wf q by (simp add: held_names_def bid_state_def tsum_tput open_bid_def)
  next
    case (Some b)
    then show ?thesis
      using wf q op [OF Some]
      by (cases "tfind (s_bid_refunds s) (Scoped n (nb_high_bidder b))")
        (simp_all add: held_names_def bid_state_def tsum_tput open_bid_def Let_def)
  qed
qed

lemma bidrefund_books:
  assumes B: "bids_ok C core s" and r: "tfind (s_bid_refunds s) k = Some r"
  shows "bids_ok C core (s\<lparr>s_bid_refunds := terase k (s_bid_refunds s)\<rparr>)"
    "held_names (s\<lparr>s_bid_refunds := terase k (s_bid_refunds s)\<rparr>) = held_names s - a_amount (br_amount r)"
  using B r by (auto simp: bids_ok_def table_simps held_names_def tsum_terase)

section \<open>The highest bid\<close>

lemma uint_by_high_bid:
  assumes "nb_high_bid b \<noteq> 0" "\<bar>nb_high_bid b\<bar> \<le> max_amount"
  shows "uint (by_high_bid b) = (if 0 < nb_high_bid b then 2 ^ 64 - nb_high_bid b else - nb_high_bid b)"
proof (cases "0 < nb_high_bid b")
  case True
  have "(word_of_int (- nb_high_bid b) :: 64 word) = word_of_int (2 ^ 64 - nb_high_bid b)"
    by (simp add: word_of_int_minus [symmetric])
  moreover have "uint (word_of_int (2 ^ 64 - nb_high_bid b) :: 64 word) = 2 ^ 64 - nb_high_bid b"
    using assms True by (intro word_of_int_inverse [OF refl]) (auto simp: max_amount_def)
  ultimately show ?thesis using True by (simp only: by_high_bid_def if_True)
next
  case False
  have "uint (word_of_int (- nb_high_bid b) :: 64 word) = - nb_high_bid b"
    using assms False by (intro word_of_int_inverse [OF refl]) (auto simp: max_amount_def)
  then show ?thesis using False by (simp only: by_high_bid_def if_False)
qed

lemma open_index:
  assumes "nb_high_bid b \<noteq> 0" "\<bar>nb_high_bid b\<bar> \<le> max_amount"
  shows "2 ^ 63 - 1 \<le> by_high_bid b \<longleftrightarrow> 0 < nb_high_bid b"
proof -
  have "uint (2 ^ 63 - 1 :: 64 word) = 2 ^ 63 - 1" by simp
  then show ?thesis using uint_by_high_bid [OF assms] assms by (auto simp: word_le_def max_amount_def)
qed

lemma find_first:
  assumes "sorted_wrt R xs" "find f xs = Some x" "y \<in> set xs" "f y" "y \<noteq> x"
  shows "R x y"
proof -
  obtain i where i: "i < length xs" "x = xs ! i" "\<forall>j < i. \<not> f (xs ! j)"
    using assms(2) by (auto simp: find_Some_iff)
  obtain j where j: "j < length xs" "y = xs ! j" using assms(3) by (auto simp: in_set_conv_nth)
  have "i < j" using i j assms(4,5) by (metis linorder_neqE_nat)
  then show ?thesis using assms(1) i j by (simp add: sorted_wrt_iff_nth_less)
qed

lemma highest_bid_spec:
  assumes B: "bids_ok C core s"
  shows "highest_bid (s_name_bids s) = Some (n, b) \<Longrightarrow> tfind (s_name_bids s) n = Some b \<and> 0 < nb_high_bid b
      \<and> (\<forall>m c. tfind (s_name_bids s) m = Some c \<longrightarrow> nb_high_bid c \<le> nb_high_bid b)"
    "highest_bid (s_name_bids s) = None \<Longrightarrow> tfind (s_name_bids s) m = Some c \<Longrightarrow> nb_high_bid c < 0"
proof -
  let ?B = "s_name_bids s" and ?xs = "sort_key (\<lambda>(_, b). by_high_bid b) (s_name_bids s)"
  have wf: "twf ?B" using B by (simp add: bids_ok_def)
  have row: "nb_high_bid c \<noteq> 0 \<and> \<bar>nb_high_bid c\<bar> \<le> max_amount" if "(m, c) \<in> set ?B" for m c
    using B that wf by (auto simp: bids_ok_def tfind_in_set)
  have so: "sorted_wrt (\<lambda>a b. by_high_bid (snd a) \<le> by_high_bid (snd b)) ?xs"
    using sorted_sort_key [of "\<lambda>(_, b). by_high_bid b" ?B] by (simp add: sorted_wrt_map split_beta)
  {
    assume hb: "highest_bid ?B = Some (n, b)"
    then have f: "find (\<lambda>(_, b). 2 ^ 63 - 1 \<le> by_high_bid b) ?xs = Some (n, b)" by (simp add: highest_bid_def)
    have mem: "(n, b) \<in> set ?B" and le: "2 ^ 63 - 1 \<le> by_high_bid b"
      using find_SomeD [OF f] by auto
    have pos: "0 < nb_high_bid b" using open_index le row [OF mem] by blast
    have "nb_high_bid c \<le> nb_high_bid b" if c: "(m, c) \<in> set ?B" for m c
    proof (cases "0 < nb_high_bid c \<and> (m, c) \<noteq> (n, b)")
      case True
      then have "by_high_bid b \<le> by_high_bid c"
        using find_first [OF so f, of "(m, c)"] c open_index row [OF c] by simp
      then show ?thesis using True pos uint_by_high_bid [of b] uint_by_high_bid [of c] row [OF mem] row [OF c]
        by (simp add: word_le_def)
    qed (use pos in auto)
    then show "tfind ?B n = Some b \<and> 0 < nb_high_bid b \<and> (\<forall>m c. tfind ?B m = Some c \<longrightarrow> nb_high_bid c \<le> nb_high_bid b)"
      using mem pos wf by (auto simp: tfind_in_set)
  }
  assume "highest_bid ?B = None" "tfind ?B m = Some c"
  then have "\<not> 2 ^ 63 - 1 \<le> by_high_bid c" "(m, c) \<in> set ?B"
    using wf by (auto simp: highest_bid_def find_None_iff tfind_in_set)
  then show "nb_high_bid c < 0" using open_index row [of m c] by force
qed

lemma close_auction_cases:
  assumes C: "cdt_laws C" and B: "bids_ok C core s" and run: "close_auction C H x ts s = Inr (s', es)"
  shows "(s' = s \<and> es = []) \<or> (\<exists>n b. tfind (s_name_bids s) n = Some b \<and> 0 < nb_high_bid b
        \<and> useconds_per_day < now x - nb_last_bid_time b
        \<and> (\<forall>m c. tfind (s_name_bids s) m = Some c \<longrightarrow> nb_high_bid c \<le> nb_high_bid b)
        \<and> s' = s\<lparr>sg := Some ((gs H s)\<lparr>g_last_name_close := ts\<rparr>),
              s_name_bids := tput n (b\<lparr>nb_high_bid := - nb_high_bid b\<rparr>) (s_name_bids s)\<rparr>
        \<and> es = [channel_to_system_fees H names_account (mk_asset (nb_high_bid b) (a_symbol (g_total_vote_stake (gs H s)))),
             Send (System_logsystemfee [(self x, active_permission)] names_account
               (mk_asset (nb_high_bid b) (a_symbol (g_total_vote_stake (gs H s)))) ''buy name'')])"
proof (cases "highest_bid (s_name_bids s)")
  case None
  then show ?thesis using run by (simp add: close_auction_def)
next
  case (Some nb)
  obtain n b where nb: "nb = (n, b)" by (cases nb)
  note h = highest_bid_spec(1) [OF B Some [unfolded nb]]
  have "i64 (- nb_high_bid b) = - nb_high_bid b"
    using bids_ok_bid [OF B, of n b] h by (intro i64_id) (auto simp: max_amount_def)
  then show ?thesis
    using run h C by (auto simp: close_auction_def Some nb cdt_inv split: if_splits)
qed

lemma close_auction_books:
  assumes B: "bids_ok C core s" and b: "tfind (s_name_bids s) n = Some b" "0 < nb_high_bid b"
  defines "B' \<equiv> tput n (b\<lparr>nb_high_bid := - nb_high_bid b\<rparr>) (s_name_bids s)"
  shows "bids_ok C core (s\<lparr>sg := g, s_name_bids := B'\<rparr>)"
    "held_names (s\<lparr>sg := g, s_name_bids := B'\<rparr>) = held_names s - nb_high_bid b"
proof -
  show "bids_ok C core (s\<lparr>sg := g, s_name_bids := B'\<rparr>)"
    using B bids_ok_bid [OF B b(1)] by (simp add: bids_ok_def B'_def table_simps)
  show "held_names (s\<lparr>sg := g, s_name_bids := B'\<rparr>) = held_names s - nb_high_bid b"
    using B b by (simp add: held_names_def B'_def tsum_tput bids_ok_def) (simp add: open_bid_def)
qed

text \<open>A won name is claimed by creating its account.\<close>

lemma newaccount_books:
  assumes B: "bids_ok C core s" and run: "newaccount C x creator n s = Inr (s', es)"
  shows "bids_ok C core s'" "held_names s' = held_names s" "s_bid_refunds s' = s_bid_refunds s"
    "tfind (s_name_bids s') m = Some b \<Longrightarrow> tfind (s_name_bids s) m = Some b"
proof -
  have cases: "s_bid_refunds s' = s_bid_refunds s \<and> (s_name_bids s' = s_name_bids s
      \<or> (\<exists>b. tfind (s_name_bids s) n = Some b \<and> nb_high_bid b < 0 \<and> s_name_bids s' = terase n (s_name_bids s)))"
    using run by (auto simp: newaccount_def split: if_splits option.splits)
  show "bids_ok C core s'" using B cases by (auto simp: bids_ok_def table_simps split: if_splits)
  show "s_bid_refunds s' = s_bid_refunds s" using cases by blast
  have "tsum open_bid (s_name_bids s') = tsum open_bid (s_name_bids s)"
    using cases B by (auto simp: bids_ok_def tsum_terase open_bid_def)
  then show "held_names s' = held_names s" using cases by (simp add: held_names_def)
  show "tfind (s_name_bids s') m = Some b \<Longrightarrow> tfind (s_name_bids s) m = Some b"
    using cases by (auto simp: table_simps split: if_splits)
qed

end
