(* ===== verification/System_Admin.thy ===== *)
theory System_Admin
  imports Token Voting
begin

text \<open>
  Gas purchases (\<open>delegate_bandwidth.cpp\<close>) and the administrative actions of \<open>flon.system.cpp\<close>.
\<close>

section \<open>Gas\<close>

definition buygas :: "cdt \<Rightarrow> host \<Rightarrow> ctx \<Rightarrow> name \<Rightarrow> name \<Rightarrow> asset \<Rightarrow> sys_state \<Rightarrow> sys_state outcome" where
  "buygas C H x payer receiver quant s =
     (if \<not> has_auth x payer then Inl (MissingAuth payer)
      else rbind (core_symbol C H s) (\<lambda>core.
        if a_symbol quant \<noteq> core then Inl (Check ''must buy gas with core asset'')
        else if \<not> 0 < a_amount quant then Inl (Check ''must purchase a positive amount'')
        else if \<not> is_account x receiver then Inl (Check ''receiver account not exists'')
        else if payer = gas_account \<or> receiver = gas_account
          then Inl (Check ''neither payer nor receiver can be system gas account'')
        else let (reserved_gas, is_unlimited) = resource_limits H receiver;
                 amount = word_of_int (a_amount quant) :: 64 word
        in if \<not> amount \<le> - 1 - reserved_gas then Inl (Check ''Overflow when calculating new gas'')
           else Inr (s, [Send (Token_transfer [(payer, active_permission), (gas_account, active_permission)]
                           payer gas_account quant ''buy gas''),
                         Set_resource_limits receiver (reserved_gas + amount) is_unlimited])))"

definition buygasself :: "cdt \<Rightarrow> host \<Rightarrow> ctx \<Rightarrow> name \<Rightarrow> asset \<Rightarrow> sys_state \<Rightarrow> sys_state outcome" where
  "buygasself C H x account quant s = buygas C H x account account quant s"

section \<open>Administration\<close>

text \<open>The bytes of a number in memory, least significant first.\<close>

definition le16 :: "16 word \<Rightarrow> bytes" where
  "le16 w = [ucast w, ucast (drop_bit 8 w)]"

definition le32 :: "32 word \<Rightarrow> bytes" where
  "le32 w = [ucast w, ucast (drop_bit 8 w), ucast (drop_bit 16 w), ucast (drop_bit 24 w)]"

text \<open>Ids of the parameters: their position in \<open>chain_config_params_v0\<close> and \<open>chain_config_params_v1\<close>.\<close>

definition max_authority_depth_id :: nat where "max_authority_depth_id = 16"
definition CHAIN_CONFIG_PARAMS_V0_COUNT :: nat where "CHAIN_CONFIG_PARAMS_V0_COUNT = 21"
definition max_action_return_value_size_id :: nat where
  "max_action_return_value_size_id = CHAIN_CONFIG_PARAMS_V0_COUNT"

text \<open>The stream of ids and values from a given id on.\<close>

fun pack_from :: "nat \<Rightarrow> bytes list \<Rightarrow> bytes" where
  "pack_from i [] = []"
| "pack_from i (v # vs) = word_of_nat i # v @ pack_from (Suc i) vs"

text \<open>The buffer of \<open>setparams\<close>: the number of parameters, then the parameters; the optional
  one is counted and appended when it is there.\<close>

definition pack_parameters :: "blockchain_parameters \<Rightarrow> 32 word option \<Rightarrow> bytes" where
  "pack_parameters p max_action_return_value_size =
     (let body = pack_from 0 (parameters_before p)
                   @ pack_from max_authority_depth_id (le16 (max_authority_depth p) # parameters_after p)
      in case max_action_return_value_size of
           None \<Rightarrow> word_of_nat CHAIN_CONFIG_PARAMS_V0_COUNT # body
         | Some v \<Rightarrow> (word_of_nat CHAIN_CONFIG_PARAMS_V0_COUNT + 1) # body
                       @ word_of_nat max_action_return_value_size_id # le32 v)"

definition setparams ::
  "host \<Rightarrow> ctx \<Rightarrow> blockchain_parameters \<Rightarrow> 32 word option \<Rightarrow> sys_state \<Rightarrow> sys_state outcome" where
  "setparams H x params max_action_return_value_size s =
     (if \<not> has_auth x (self x) then Inl (MissingAuth (self x))
      else let g = (gs H s)\<lparr>g_params := params\<rparr> in
        if \<not> 3 \<le> max_authority_depth (g_params g) then Inl (Check ''max_authority_depth should be at least 3'')
        else Inr (s\<lparr>sg := Some g\<rparr>, [Set_parameters_packed (pack_parameters params max_action_return_value_size)]))"

definition setpriv :: "ctx \<Rightarrow> name \<Rightarrow> 8 word \<Rightarrow> sys_state \<Rightarrow> sys_state outcome" where
  "setpriv x account ispriv s =
     (if \<not> has_auth x (self x) then Inl (MissingAuth (self x)) else Inr (s, [Set_privileged account ispriv]))"

definition setalimits :: "host \<Rightarrow> ctx \<Rightarrow> name \<Rightarrow> 64 word \<Rightarrow> bool \<Rightarrow> sys_state \<Rightarrow> sys_state outcome" where
  "setalimits H x account gas is_unlimited s =
     (if \<not> has_auth x (self x) then Inl (MissingAuth (self x))
      else if \<not> is_account x account then Inl (Check ''account not exists'')
      else let (gas_old, is_unlimited_old) = resource_limits H account in
        if \<not> (gas \<noteq> gas_old \<or> is_unlimited \<noteq> is_unlimited_old) then Inl (Check ''data does not have change'')
        else Inr (s, [Set_resource_limits account gas is_unlimited]))"

definition activate :: "ctx \<Rightarrow> bytes \<Rightarrow> sys_state \<Rightarrow> sys_state outcome" where
  "activate x feature_digest s =
     (if \<not> has_auth x (self x) then Inl (MissingAuth (self x)) else Inr (s, [Preactivate_feature feature_digest]))"

definition logsystemfee :: "ctx \<Rightarrow> name \<Rightarrow> asset \<Rightarrow> string \<Rightarrow> sys_state \<Rightarrow> sys_state outcome" where
  "logsystemfee x protocol fee memo s =
     (if \<not> has_auth x (self x) then Inl (MissingAuth (self x)) else Inr (s, []))"

text \<open>\<open>T\<close> is the state of the token contract, whose statistics the action reads.\<close>

definition init :: "cdt \<Rightarrow> host \<Rightarrow> ctx \<Rightarrow> token_state \<Rightarrow> 32 word \<Rightarrow> symbol \<Rightarrow> sys_state \<Rightarrow> sys_state outcome" where
  "init C H x T version core s =
     (let g = gs H s in
      if \<not> has_auth x (self x) then Inl (MissingAuth (self x))
      else if version \<noteq> 0 then Inl (Check ''unsupported version for init action'')
      else if symbol_is_valid C (a_symbol (g_total_vote_stake g))
        then Inl (Check ''system contract has already been initialized'')
      else rbind (get_supply T (sym_code core)) (\<lambda>supply.
        if a_symbol supply \<noteq> core
          then Inl (Check ''specified core symbol does not exist (precision mismatch)'')
        else if \<not> 0 < a_amount supply then Inl (Check ''system token supply must be greater than 0'')
        else if \<not> is_account x token_account then Inl (Check ''gas account does not exist'')
        else Inr (s\<lparr>sg := Some (g\<lparr>
              g_total_vote_stake := (g_total_vote_stake g)\<lparr>a_symbol := core\<rparr>,
              g_initial_rewards_per_block := (g_initial_rewards_per_block g)\<lparr>a_symbol := core\<rparr>,
              g_total_produced_rewards := (g_total_produced_rewards g)\<lparr>a_symbol := core\<rparr>,
              g_total_unclaimed_rewards := (g_total_unclaimed_rewards g)\<lparr>a_symbol := core\<rparr>\<rparr>)\<rparr>,
            [Send (Token_open [(self x, active_permission)] gas_account core (self x)),
             Send (Reward_init [(self x, active_permission)] core)])))"

definition setibintervl :: "ctx \<Rightarrow> 64 word \<Rightarrow> sys_state \<Rightarrow> sys_state outcome" where
  "setibintervl x idle_block_interval_ms s =
     (if \<not> has_auth x (self x) then Inl (MissingAuth (self x))
      else if (case s_idle_block_interval_ms s of Some m \<Rightarrow> m | None \<Rightarrow> 0) = idle_block_interval_ms
        then Inl (Check ''idle block interval unchanged'')
      else Inr (s\<lparr>s_idle_block_interval_ms := Some idle_block_interval_ms\<rparr>, []))"

section \<open>Limits on contract modules\<close>

record wasm_parameters =
  max_mutable_global_bytes :: "32 word"
  max_table_elements :: "32 word"
  max_section_elements :: "32 word"
  max_linear_memory_init :: "32 word"
  max_func_local_bytes :: "32 word"
  max_nested_structures :: "32 word"
  max_symbol_bytes :: "32 word"
  max_module_bytes :: "32 word"
  max_code_bytes :: "32 word"
  max_pages :: "32 word"
  max_call_depth :: "32 word"

definition default_limits :: wasm_parameters where
  "default_limits = \<lparr>max_mutable_global_bytes = 1024, max_table_elements = 1024, max_section_elements = 8192,
     max_linear_memory_init = 64 * 1024, max_func_local_bytes = 8192, max_nested_structures = 1024,
     max_symbol_bytes = 8192, max_module_bytes = 20 * 1024 * 1024, max_code_bytes = 20 * 1024 * 1024,
     max_pages = 528, max_call_depth = 251\<rparr>"

definition high_limits :: wasm_parameters where
  "high_limits = \<lparr>max_mutable_global_bytes = 8192, max_table_elements = 8192, max_section_elements = 8192,
     max_linear_memory_init = 16 * 64 * 1024, max_func_local_bytes = 8192, max_nested_structures = 1024,
     max_symbol_bytes = 8192, max_module_bytes = 20 * 1024 * 1024, max_code_bytes = 20 * 1024 * 1024,
     max_pages = 528, max_call_depth = 1024\<rparr>"

text \<open>A zeroed version word followed by a copy of the structure.\<close>

definition set_wasm_parameters :: "wasm_parameters \<Rightarrow> effect" where
  "set_wasm_parameters p = Set_wasm_parameters_packed (replicate 4 0 @ concat (map le32
     [max_mutable_global_bytes p, max_table_elements p, max_section_elements p, max_linear_memory_init p,
      max_func_local_bytes p, max_nested_structures p, max_symbol_bytes p, max_module_bytes p,
      max_code_bytes p, max_pages p, max_call_depth p]))"

definition wasmcfg :: "ctx \<Rightarrow> name \<Rightarrow> sys_state \<Rightarrow> sys_state outcome" where
  "wasmcfg x settings s =
     (if \<not> has_auth x (self x) then Inl (MissingAuth (self x))
      else if settings = 0x4a966d4720000000 \<or> settings = 0x8d38000000000000   \<comment> \<open>default, low\<close>
        then Inr (s, [set_wasm_parameters default_limits])
      else if settings = 0x6b98d00000000000   \<comment> \<open>high\<close>
        then Inr (s, [set_wasm_parameters high_limits])
      else Inl (Check ''Unknown configuration''))"

end
