(* ===== verification/System_Steps.thy ===== *)
theory System_Steps
  imports Name_Props Voting_Props System_Admin Election_Props
begin

text \<open>
  The actions of \<open>flon.system\<close> as steps of one state machine. An action runs on the stored tables;
  the destructor of the contract then writes the global state back. Every step keeps the voting books
  and the books of the name auctions, and what the contract owes its users never grows by more
  than the tokens it orders into its custody accounts.
\<close>

section \<open>The actions\<close>

datatype sys_action =
    Sys_regproducer name public_key string "16 word" "32 word option"
  | Sys_regproducer2 name block_signing_authority string "16 word" "32 word option"
  | Sys_unregprod name
  | Sys_rmvproducer name
  | Sys_voteproducer nat nat name "name list"   \<comment> \<open>addresses of the two vectors, voter, producers\<close>
  | Sys_addvote name asset
  | Sys_subvote name asset
  | Sys_voterefund name
  | Sys_onblock block_timestamp name bytes
  | Sys_claimrewards name
  | Sys_cfgelection time_point time_point asset
  | Sys_switchtosvnn
  | Sys_regfinkey name string string
  | Sys_actfinkey name string
  | Sys_delfinkey name string
  | Sys_bidname name name asset
  | Sys_bidrefund name name
  | Sys_newaccount name name
  | Sys_setabi name bytes
  | Sys_onerror
  | Sys_limitauthchg name "name list" "name list"
  | Sys_updateauth name "name option"
  | Sys_deleteauth name "name option"
  | Sys_linkauth name "name option"
  | Sys_unlinkauth name "name option"
  | Sys_buygas name name asset
  | Sys_buygasself name asset
  | Sys_setparams blockchain_parameters "32 word option"
  | Sys_setpriv name "8 word"
  | Sys_setalimits name "64 word" bool
  | Sys_activate bytes
  | Sys_logsystemfee name asset string
  | Sys_init "32 word" symbol
  | Sys_setibintervl "64 word"
  | Sys_wasmcfg name

text \<open>The destructor of \<open>system_contract\<close> stores the global state.\<close>

definition stored :: "host \<Rightarrow> sys_state outcome \<Rightarrow> sys_state outcome" where
  "stored H r = rbind r (\<lambda>(s, es). Inr (s\<lparr>sg := Some (gs H s)\<rparr>, es))"

text \<open>\<open>T\<close> and \<open>R\<close> are the states of the token and the reward contract the actions look at.\<close>

fun sys_exec ::
  "cdt \<Rightarrow> host \<Rightarrow> ctx \<Rightarrow> token_state \<Rightarrow> reward_state \<Rightarrow> sys_action \<Rightarrow> sys_state \<Rightarrow> sys_state outcome" where
  "sys_exec C H x T R (Sys_regproducer p k url l ratio) s = stored H (Voting.regproducer C H x R p k url l ratio s)"
| "sys_exec C H x T R (Sys_regproducer2 p a url l ratio) s = stored H (Voting.regproducer2 C H x R p a url l ratio s)"
| "sys_exec C H x T R (Sys_unregprod p) s = stored H (Voting.unregprod H x p s)"
| "sys_exec C H x T R (Sys_rmvproducer p) s = stored H (Voting.rmvproducer H x p s)"
| "sys_exec C H x T R (Sys_voteproducer po pn n ns) s = stored H (Voting.voteproducer C H x po pn n ns s)"
| "sys_exec C H x T R (Sys_addvote n q) s = stored H (Voting.addvote C H x n q s)"
| "sys_exec C H x T R (Sys_subvote n q) s = stored H (Voting.subvote C H x n q s)"
| "sys_exec C H x T R (Sys_voterefund n) s = stored H (Voting.voterefund x n s)"
| "sys_exec C H x T R (Sys_onblock ts p b) s = stored H (onblock C H x ts p b s)"
| "sys_exec C H x T R (Sys_claimrewards n) s = stored H (Producer_Pay.claimrewards x n s)"
| "sys_exec C H x T R (Sys_cfgelection e r q) s = stored H (cfgelection C H x e r q s)"
| "sys_exec C H x T R Sys_switchtosvnn s = stored H (switchtosvnn H x s)"
| "sys_exec C H x T R (Sys_regfinkey n k pop) s = stored H (regfinkey H x n k pop s)"
| "sys_exec C H x T R (Sys_actfinkey n k) s = stored H (actfinkey H x n k s)"
| "sys_exec C H x T R (Sys_delfinkey n k) s = stored H (delfinkey H x n k s)"
| "sys_exec C H x T R (Sys_bidname n m q) s = stored H (bidname C H x n m q s)"
| "sys_exec C H x T R (Sys_bidrefund n m) s = stored H (bidrefund H x n m s)"
| "sys_exec C H x T R (Sys_newaccount c n) s = newaccount C x c n s"
| "sys_exec C H x T R (Sys_setabi n abi) s = setabi H n abi s"
| "sys_exec C H x T R Sys_onerror s = onerror s"
| "sys_exec C H x T R (Sys_limitauthchg n al dis) s = stored H (limitauthchg x n al dis s)"
| "sys_exec C H x T R (Sys_updateauth n b) s = updateauth x n b s"
| "sys_exec C H x T R (Sys_deleteauth n b) s = deleteauth x n b s"
| "sys_exec C H x T R (Sys_linkauth n b) s = linkauth x n b s"
| "sys_exec C H x T R (Sys_unlinkauth n b) s = unlinkauth x n b s"
| "sys_exec C H x T R (Sys_buygas p r q) s = stored H (buygas C H x p r q s)"
| "sys_exec C H x T R (Sys_buygasself n q) s = stored H (buygasself C H x n q s)"
| "sys_exec C H x T R (Sys_setparams p m) s = stored H (setparams H x p m s)"
| "sys_exec C H x T R (Sys_setpriv n b) s = stored H (setpriv x n b s)"
| "sys_exec C H x T R (Sys_setalimits n g u) s = stored H (setalimits H x n g u s)"
| "sys_exec C H x T R (Sys_activate d) s = stored H (activate x d s)"
| "sys_exec C H x T R (Sys_logsystemfee p q m) s = stored H (logsystemfee x p q m s)"
| "sys_exec C H x T R (Sys_init v y) s = stored H (System_Admin.init C H x T v y s)"
| "sys_exec C H x T R (Sys_setibintervl m) s = stored H (setibintervl x m s)"
| "sys_exec C H x T R (Sys_wasmcfg n) s = stored H (wasmcfg x n s)"

text \<open>The tokens an action orders into (and out of) an account.\<close>

fun flow_of :: "symbol_code \<Rightarrow> name \<Rightarrow> effect \<Rightarrow> int" where
  "flow_of code a (Send (Token_transfer _ f t q _)) =
     (if asset_code q = code then (if t = a then a_amount q else 0) - (if f = a then a_amount q else 0) else 0)"
| "flow_of code a _ = 0"

definition flow :: "symbol_code \<Rightarrow> name \<Rightarrow> effect list \<Rightarrow> int" where
  "flow code a es = sum_list (map (flow_of code a) es)"

lemma flow_simps [simp]:
  "flow code a [] = 0" "flow code a (e # es) = flow_of code a e + flow code a es"
  "flow code a (es @ fs) = flow code a es + flow code a fs"
  by (simp_all add: flow_def)

section \<open>The books\<close>

definition sys_inv :: "cdt \<Rightarrow> host \<Rightarrow> sys_state \<Rightarrow> bool" where
  "sys_inv C H s \<longleftrightarrow> voting_inv C H s \<and> bids_ok C (a_symbol (stake H s)) s"

text \<open>What an action that concerns neither votes nor names leaves alone.\<close>

definition same_books :: "host \<Rightarrow> sys_state \<Rightarrow> sys_state \<Rightarrow> bool" where
  "same_books H s s' \<longleftrightarrow> s_voters s' = s_voters s \<and> s_producers s' = s_producers s \<and> s_vote_refunds s' = s_vote_refunds s
     \<and> s_name_bids s' = s_name_bids s \<and> s_bid_refunds s' = s_bid_refunds s \<and> stake H s' = stake H s"

lemma same_books_refl [simp]: "same_books H s s"
  by (simp add: same_books_def)

lemma same_books_trans: "same_books H s s' \<Longrightarrow> same_books H s' s'' \<Longrightarrow> same_books H s s''"
  by (simp add: same_books_def)

lemma same_books_keep:
  assumes "same_books H s s'"
  shows "sys_inv C H s' \<longleftrightarrow> sys_inv C H s" "held H s' = held H s" "held_names s' = held_names s"
    "voting_inv C H s' \<longleftrightarrow> voting_inv C H s" "bids_ok C core s' \<longleftrightarrow> bids_ok C core s"
  using assms by (simp_all add: same_books_def sys_inv_def voting_inv_def bids_ok_def held_def held_names_def)

lemma same_books_stored: "same_books H s (s\<lparr>sg := Some (gs H s)\<rparr>)"
  by (simp add: same_books_def)

lemma bids_ok_cong:
  "s_name_bids s' = s_name_bids s \<Longrightarrow> s_bid_refunds s' = s_bid_refunds s \<Longrightarrow>
     bids_ok C core s' = bids_ok C core s \<and> held_names s' = held_names s"
  by (simp add: bids_ok_def held_names_def)

lemma voting_inv_cong:
  "s_voters s' = s_voters s \<Longrightarrow> s_producers s' = s_producers s \<Longrightarrow> s_vote_refunds s' = s_vote_refunds s \<Longrightarrow>
     stake H s' = stake H s \<Longrightarrow> voting_inv C H s' = voting_inv C H s \<and> held H s' = held H s"
  by (simp add: voting_inv_def held_def)

section \<open>Steps\<close>

text \<open>The books are kept, the core symbol stays, and what is owed grows at most by what is ordered into
  custody.\<close>

definition step_ok :: "cdt \<Rightarrow> host \<Rightarrow> sys_state \<Rightarrow> sys_state \<Rightarrow> effect list \<Rightarrow> bool" where
  "step_ok C H s s' es \<longleftrightarrow> sys_inv C H s'
     \<and> (symbol_is_valid C (a_symbol (stake H s)) \<longrightarrow> a_symbol (stake H s') = a_symbol (stake H s))
     \<and> held H s' \<le> held H s + flow (asset_code (stake H s')) vote_account es
     \<and> held_names s' \<le> held_names s + flow (asset_code (stake H s')) names_account es"

definition untouched :: "host \<Rightarrow> sys_state \<Rightarrow> sys_state \<Rightarrow> effect list \<Rightarrow> bool" where
  "untouched H s s' es \<longleftrightarrow> same_books H s s' \<and> (\<forall>code a. a = vote_account \<or> a = names_account \<longrightarrow> flow code a es = 0)"

lemma untouchedI: "same_books H s s' \<Longrightarrow> (\<And>code a. a = vote_account \<or> a = names_account \<Longrightarrow> flow code a es = 0) \<Longrightarrow> untouched H s s' es"
  by (simp add: untouched_def)

lemma untouched_ok: "untouched H s s' es \<Longrightarrow> sys_inv C H s \<Longrightarrow> step_ok C H s s' es"
  unfolding untouched_def step_ok_def by (auto simp: same_books_keep) (simp add: same_books_def)

lemma untouched_trans: "same_books H s s1 \<Longrightarrow> untouched H s1 s' es \<Longrightarrow> untouched H s s' es"
  unfolding untouched_def by (auto intro: same_books_trans)

lemma untouched_propose: "untouched H s s' es \<Longrightarrow> untouched H s s' (Propose_producers ps # es)"
  by (simp add: untouched_def)

lemma untouched_nil: "same_books H s s' \<Longrightarrow> untouched H s s' []"
  by (simp add: untouched_def)

lemma stored_ok:
  assumes "stored H r = Inr (s', es)" "\<And>s1. r = Inr (s1, es) \<Longrightarrow> step_ok C H s s1 es"
  shows "step_ok C H s s' es"
proof -
  obtain s1 where s1: "r = Inr (s1, es)" "s' = s1\<lparr>sg := Some (gs H s1)\<rparr>" using assms(1) by (auto simp: stored_def)
  have "same_books H s1 s'" using s1(2) same_books_stored by simp
  then show ?thesis
    using assms(2) [OF s1(1)] same_books_keep [OF \<open>same_books H s1 s'\<close>] by (simp add: step_ok_def same_books_def)
qed

lemma proposed_untouched: "set_proposed_finalizers H fins s = (s', es) \<Longrightarrow> untouched H s s' es"
  by (auto simp: set_proposed_finalizers_def Let_def same_books_def intro!: untouchedI split: if_splits)

lemma regfinkey_untouched: "regfinkey H x n k pop s = Inr (s', es) \<Longrightarrow> untouched H s s' es"
  by (auto simp: regfinkey_def Let_def get_next_finalizer_key_id_def same_books_def intro!: untouchedI)

lemma actfinkey_untouched:
  assumes "actfinkey H x n k s = Inr (s', es)"
  shows "untouched H s s' es"
proof -
  have sb: "same_books H s (s\<lparr>s_finalizers := F\<rparr>)" for F by (simp add: same_books_def)
  have "\<exists>F. (s' = s\<lparr>s_finalizers := F\<rparr> \<and> es = []) \<or> (\<exists>l. set_proposed_finalizers H l (s\<lparr>s_finalizers := F\<rparr>) = (s', es))"
    using assms by (auto simp: actfinkey_def Let_def split: option.splits if_splits)
  then show ?thesis
    using untouched_nil [OF sb] untouched_trans [OF sb proposed_untouched] by blast
qed

lemma delfinkey_untouched: "delfinkey H x n k s = Inr (s', es) \<Longrightarrow> untouched H s s' es"
  by (auto simp: delfinkey_def same_books_def intro!: untouchedI split: option.splits if_splits)

lemma switchtosvnn_untouched: "switchtosvnn H x s = Inr (s', es) \<Longrightarrow> untouched H s s' es"
  by (auto simp: switchtosvnn_def Let_def split: prod.splits intro: proposed_untouched)

lemma elected_untouched:
  assumes "update_elected_producers H t s = (s', es)"
  shows "untouched H s s' es"
proof -
  have sb: "same_books H s (s\<lparr>sg := Some g\<rparr>)" if "g_total_vote_stake g = stake H s" for g
    using that by (simp add: same_books_def)
  have proposed: "untouched H s s1 (Propose_producers ps # fs)"
    if "set_proposed_finalizers H fins (s\<lparr>sg := Some g\<rparr>) = (s1, fs)" "g_total_vote_stake g = stake H s" for g fins s1 fs ps
    by (rule untouched_propose [OF untouched_trans [OF sb [OF that(2)] proposed_untouched [OF that(1)]]])
  show ?thesis
    using assms unfolding update_elected_producers_def Let_def
    by (auto split: if_splits prod.splits intro: untouched_nil [OF sb] untouched_propose [OF untouched_nil [OF sb]] proposed)
qed

section \<open>Votes\<close>

text \<open>Two custody accounts never sign an action of a user.\<close>

definition custody_free :: "ctx \<Rightarrow> bool" where
  "custody_free x \<longleftrightarrow> \<not> has_auth x vote_account \<and> \<not> has_auth x names_account"

lemma custody_auth: "custody_free x \<Longrightarrow> has_auth x n \<Longrightarrow> n \<noteq> vote_account \<and> n \<noteq> names_account"
  by (auto simp: custody_free_def)

lemma custody_distinct [simp]:
  "vote_account \<noteq> names_account" "names_account \<noteq> vote_account" "fees_account \<noteq> names_account"
  "fees_account \<noteq> vote_account" "gas_account \<noteq> vote_account" "gas_account \<noteq> names_account"
  "reward_account \<noteq> vote_account" "reward_account \<noteq> names_account"
  by (simp_all add: account_defs)

lemma register_ok:
  assumes I: "sys_inv C H s" and run: "register_producer C H x R n a url loc ratio s = Inr (s', es)"
  shows "step_ok C H s s' es"
proof -
  have V: "voting_inv C H s" and B: "bids_ok C (a_symbol (stake H s)) s" using I by (simp_all add: sys_inv_def)
  have eq: "s_name_bids s' = s_name_bids s" "s_bid_refunds s' = s_bid_refunds s" "stake H s' = stake H s"
    and fl: "flow c b es = 0" for c b
    using run by (auto simp: register_producer_def Let_def split: option.splits if_splits)
  show ?thesis
    using register_producer_inv [OF V run] bids_ok_cong [OF eq(1,2)] B eq(3)
    by (simp add: step_ok_def sys_inv_def fl)
qed

lemma deactivate_ok:
  assumes I: "sys_inv C H s" and p: "tfind (s_producers s) n = Some p"
    and s': "s' = s\<lparr>s_producers := tput n (deactivate H p) (s_producers s)\<rparr>"
  shows "step_ok C H s s' []"
proof -
  have V: "voting_inv C H s" and B: "bids_ok C (a_symbol (stake H s)) s" using I by (simp_all add: sys_inv_def)
  show ?thesis
    using deactivated_inv [OF V p] bids_ok_cong [of s' s C] B by (simp add: step_ok_def sys_inv_def s')
qed

lemma vote_ok:
  assumes I: "sys_inv C H s" and run: "Voting.voteproducer C H x po pn n ns s = Inr (s', es)"
    and dis: "\<And>v. tfind (s_voters s) n = Some v \<Longrightarrow> disjoint_buffers po (vi_producers v) pn ns"
  shows "step_ok C H s s' es"
proof -
  have V: "voting_inv C H s" and B: "bids_ok C (a_symbol (stake H s)) s" using I by (simp_all add: sys_inv_def)
  obtain v where v: "tfind (s_voters s) n = Some v"
    using run by (auto simp: Voting.voteproducer_def split: option.splits if_splits)
  have r: "ascending ns" "votable (s_producers s) (vi_votes v) ns" "s' = revoted_state C x n v ns s"
      "es = [Send (Reward_voteproducer [(self x, active_permission), (n, active_permission)] n ns)]"
    using voteproducer_Inr [OF V v dis [OF v], of x "(s', es)"] run by auto
  have eq: "s_name_bids s' = s_name_bids s" "s_bid_refunds s' = s_bid_refunds s" "stake H s' = stake H s"
      "s_vote_refunds s' = s_vote_refunds s"
    by (simp_all add: r(3) revoted_state_def)
  show ?thesis
    using voteproducer_inv [OF V v r(1,2), of x] bids_ok_cong [OF eq(1,2)] B eq
    by (simp add: step_ok_def sys_inv_def r(3,4) held_def)
qed

lemma stake_ok:
  assumes C: "cdt_laws C" and I: "sys_inv C H s" and q: "amount_ok (a_amount q)" and cf: "custody_free x"
    and run: "Voting.addvote C H x n q s = Inr (s', es)"
  shows "step_ok C H s s' es"
proof -
  have V: "voting_inv C H s" and B: "bids_ok C (a_symbol (stake H s)) s" using I by (simp_all add: sys_inv_def)
  have r: "has_auth x n" "a_symbol q = a_symbol (stake H s)" "0 < a_amount q"
      "a_amount (stake H s) + a_amount q \<le> max_amount" "s' = staked_state H n (a_amount q) (a_symbol q) s"
      "es = [Send (Token_transfer [(n, active_permission)] n vote_account q ''addvote''),
          Send (Reward_addvote [(self x, active_permission), (n, active_permission)] n (a_amount q))]"
    using addvote_Inr [OF C V q, of x n "(s', es)"] run by auto
  have eq: "s_name_bids s' = s_name_bids s" "s_bid_refunds s' = s_bid_refunds s" "a_symbol (stake H s') = a_symbol (stake H s)"
    using r(2) by (simp_all add: r(5) staked_state_def)
  show ?thesis
    using staked_inv [OF V r(3,4) r(2) [symmetric], of n] bids_ok_cong [OF eq(1,2)] B eq custody_auth [OF cf r(1)] r(2)
    by (simp add: step_ok_def sys_inv_def r(5,6))
qed

lemma unstake_ok:
  assumes C: "cdt_laws C" and I: "sys_inv C H s" and run: "Voting.subvote C H x n q s = Inr (s', es)"
  shows "step_ok C H s s' es"
proof -
  have V: "voting_inv C H s" and B: "bids_ok C (a_symbol (stake H s)) s" using I by (simp_all add: sys_inv_def)
  obtain v where v: "tfind (s_voters s) n = Some v" and r: "a_symbol q = a_symbol (stake H s)" "symbol_is_valid C (a_symbol q)"
      "0 < a_amount q" "a_amount q \<le> vi_votes v" "tfind (s_vote_refunds s) n = None" "s' = unstaked_state C H x n v q s"
      "es = [Send (Reward_subvote [(self x, active_permission), (n, active_permission)] n (a_amount q)),
              Deferred_voterefund n refund_delay_sec]"
    using subvote_Inr [OF C V, of x n q "(s', es)"] run by auto
  have eq: "s_name_bids s' = s_name_bids s" "s_bid_refunds s' = s_bid_refunds s" "a_symbol (stake H s') = a_symbol (stake H s)"
    using r(1) by (simp_all add: r(6) unstaked_state_def)
  show ?thesis
    using unstaked_inv [OF V v r(1-5), of x] bids_ok_cong [OF eq(1,2)] B eq by (simp add: step_ok_def sys_inv_def r(6,7))
qed

lemma refund_ok:
  assumes I: "sys_inv C H s" and run: "Voting.voterefund x n s = Inr (s', es)"
  shows "step_ok C H s s' es"
proof -
  have V: "voting_inv C H s" and B: "bids_ok C (a_symbol (stake H s)) s" using I by (simp_all add: sys_inv_def)
  obtain r where r: "tfind (s_vote_refunds s) n = Some r" and s': "s' = s\<lparr>s_vote_refunds := terase n (s_vote_refunds s)\<rparr>"
    and es: "es = [Send (Token_transfer [(vote_account, active_permission)] vote_account (vr_owner r) (vr_vote_staked r) ''voterefund'')]"
    using run by (auto simp: Voting.voterefund_def split: option.splits if_splits)
  have pos: "0 < a_amount (vr_vote_staked r)" using V r by (auto simp: voting_inv_def refunds_ok_def)
  have bk: "bids_ok C (a_symbol (stake H s)) s'" "held_names s' = held_names s"
    using bids_ok_cong [of s' s C "a_symbol (stake H s)"] B by (simp_all add: s')
  show ?thesis
    using voterefund_inv [OF V r] bk pos by (auto simp: step_ok_def sys_inv_def s' es)
qed

section \<open>Names and blocks\<close>

lemma bid_ok:
  assumes C: "cdt_laws C" and I: "sys_inv C H s" and q: "amount_ok (a_amount q)" and cf: "custody_free x"
    and run: "bidname C H x n m q s = Inr (s', es)"
  shows "step_ok C H s s' es"
proof -
  have V: "voting_inv C H s" and B: "bids_ok C (a_symbol (stake H s)) s" using I by (simp_all add: sys_inv_def)
  note r = bidname_Inr [OF C B q run]
  have op: "\<And>b. tfind (s_name_bids s) m = Some b \<Longrightarrow> 0 < nb_high_bid b" using r(7) by blast
  have eq: "s_voters s' = s_voters s" "s_producers s' = s_producers s" "s_vote_refunds s' = s_vote_refunds s"
      "stake H s' = stake H s"
    unfolding r(5) bid_state_def Let_def by (simp_all split: option.split)
  have "voting_inv C H s'" "held H s' = held H s" using voting_inv_cong [OF eq] V by simp_all
  then show ?thesis
    using bid_state_books [OF B r(3) q r(2) _ op, where n = m and x = x and bidder = n] r(2,4) eq(4) custody_auth [OF cf r(1)]
    unfolding r(5) [symmetric] by (simp add: step_ok_def sys_inv_def r(6))
qed

lemma bidrefund_ok:
  assumes I: "sys_inv C H s" and run: "bidrefund H x n m s = Inr (s', es)"
  shows "step_ok C H s s' es"
proof -
  have V: "voting_inv C H s" and B: "bids_ok C (a_symbol (stake H s)) s" using I by (simp_all add: sys_inv_def)
  obtain r where r: "tfind (s_bid_refunds s) (Scoped m n) = Some r"
    and s': "s' = s\<lparr>s_bid_refunds := terase (Scoped m n) (s_bid_refunds s)\<rparr>"
    and es: "es = [Send (Token_transfer [(names_account, active_permission), (n, active_permission)]
                  names_account n (br_amount r) (''refund bid on name '' @ name_string H m))]"
    using run by (auto simp: bidrefund_def split: option.splits)
  have pos: "0 < a_amount (br_amount r)" "a_symbol (br_amount r) = a_symbol (stake H s)"
    using B r by (auto simp: bids_ok_def)
  have vk: "voting_inv C H s'" "held H s' = held H s" using voting_inv_cong [of s' s H C] V by (simp_all add: s')
  show ?thesis
    using bidrefund_books [OF B r] vk pos by (auto simp: step_ok_def sys_inv_def s' es)
qed

lemma newaccount_ok:
  assumes I: "sys_inv C H s" and run: "newaccount C x c n s = Inr (s', es)"
  shows "step_ok C H s s' es"
proof -
  have V: "voting_inv C H s" and B: "bids_ok C (a_symbol (stake H s)) s" using I by (simp_all add: sys_inv_def)
  have eq: "s_voters s' = s_voters s" "s_producers s' = s_producers s" "s_vote_refunds s' = s_vote_refunds s"
      "sg s' = sg s" and fl: "flow k b es = 0" for k b
    using run by (auto simp: newaccount_def split: if_splits option.splits)
  have g: "gs H s' = gs H s" using eq(4) by (simp add: gs_def)
  show ?thesis
    using voting_inv_cong [OF eq(1-3)] V newaccount_books [OF B run] g by (simp add: step_ok_def sys_inv_def fl)
qed

text \<open>A block credits a producer row, whose votes stay.\<close>

lemma credit_ok:
  assumes I: "sys_inv C H s" and run: "credit_producer H t n s = Inr s'"
  shows "sys_inv C H s'" "held H s' = held H s" "held_names s' = held_names s" "stake H s' = stake H s"
    "s_vote_refunds s' = s_vote_refunds s" "s_name_bids s' = s_name_bids s"
proof -
  have V: "voting_inv C H s" and B: "bids_ok C (a_symbol (stake H s)) s" using I by (simp_all add: sys_inv_def)
  let ?G = "\<lambda>r. (gs H s)\<lparr>g_total_produced_rewards := (g_total_produced_rewards (gs H s))
        \<lparr>a_amount := i64 (a_amount (g_total_produced_rewards (gs H s)) + r)\<rparr>,
      g_total_unclaimed_rewards := (g_total_unclaimed_rewards (gs H s))
        \<lparr>a_amount := i64 (a_amount (g_total_unclaimed_rewards (gs H s)) + r)\<rparr>\<rparr>"
  let ?p = "\<lambda>p r. p\<lparr>pi_unclaimed_rewards := (pi_unclaimed_rewards p)\<lparr>a_amount := i64 (a_amount (pi_unclaimed_rewards p) + r)\<rparr>\<rparr>"
  have cases: "s' = s \<or> (\<exists>p r. tfind (s_producers s) n = Some p
      \<and> s' = s\<lparr>s_producers := tput n (?p p r) (s_producers s), sg := Some (?G r)\<rparr>)"
    using run by (auto simp: credit_producer_def Let_def split: option.splits if_splits)
  have "sys_inv C H s' \<and> held H s' = held H s \<and> held_names s' = held_names s \<and> stake H s' = stake H s
      \<and> s_vote_refunds s' = s_vote_refunds s \<and> s_name_bids s' = s_name_bids s"
    using cases
  proof (elim disjE exE conjE)
    fix p r
    assume p: "tfind (s_producers s) n = Some p"
      and s': "s' = s\<lparr>s_producers := tput n (?p p r) (s_producers s), sg := Some (?G r)\<rparr>"
    let ?s1 = "s\<lparr>s_producers := tput n (?p p r) (s_producers s)\<rparr>"
    have "pi_owner p = n" using V p votes_ok_producer by (auto simp: voting_inv_def)
    then have "voting_inv C H ?s1" using p by (intro registered_inv [OF V]) simp_all
    then have "voting_inv C H s'" using voting_inv_cong [of s' ?s1 H C] by (simp add: s')
    then show ?thesis using B bids_ok_cong [of s' s C] by (simp add: s' sys_inv_def held_def)
  qed (use I in simp)
  then show "sys_inv C H s'" "held H s' = held H s" "held_names s' = held_names s" "stake H s' = stake H s"
    "s_vote_refunds s' = s_vote_refunds s" "s_name_bids s' = s_name_bids s" by blast+
qed

lemma close_ok:
  assumes C: "cdt_laws C" and I: "sys_inv C H s" and run: "close_auction C H x ts s = Inr (s', es)"
  shows "step_ok C H s s' es"
proof -
  have V: "voting_inv C H s" and B: "bids_ok C (a_symbol (stake H s)) s" using I by (simp_all add: sys_inv_def)
  from close_auction_cases [OF C B run] show ?thesis
  proof (elim disjE exE conjE)
    assume "s' = s" "es = []"
    then show ?thesis using I by (simp add: step_ok_def)
  next
    fix n b
    assume b: "tfind (s_name_bids s) n = Some b" "0 < nb_high_bid b"
      and s': "s' = s\<lparr>sg := Some ((gs H s)\<lparr>g_last_name_close := ts\<rparr>),
              s_name_bids := tput n (b\<lparr>nb_high_bid := - nb_high_bid b\<rparr>) (s_name_bids s)\<rparr>"
      and es: "es = [channel_to_system_fees H names_account (mk_asset (nb_high_bid b) (a_symbol (stake H s))),
             Send (System_logsystemfee [(self x, active_permission)] names_account
               (mk_asset (nb_high_bid b) (a_symbol (stake H s))) ''buy name'')]"
    have vk: "voting_inv C H s'" "held H s' = held H s" using voting_inv_cong [of s' s H C] V by (simp_all add: s')
    show ?thesis
      using close_auction_books [OF B b, of "Some ((gs H s)\<lparr>g_last_name_close := ts\<rparr>)"] vk
      by (simp add: step_ok_def sys_inv_def s' es channel_to_system_fees_def)
  qed
qed

lemma step_trans:
  assumes "step_ok C H s s1 es" "step_ok C H s1 s2 fs" "stake H s2 = stake H s1"
  shows "step_ok C H s s2 (es @ fs)"
  using assms by (simp add: step_ok_def)

lemma close_stake: "close_auction C H x ts s = Inr (s', es) \<Longrightarrow> stake H s' = stake H s"
  by (auto simp: close_auction_def split: option.splits if_splits)

lemma onblock_ok:
  assumes C: "cdt_laws C" and I: "sys_inv C H s" and run: "onblock C H x ts p b s = Inr (s', es)"
  shows "step_ok C H s s' es"
proof -
  obtain t where t: "add_to_blockinfo_table C b ts (s_block_info s) = Inr t" using run by (auto simp: onblock_def)
  let ?s0 = "s\<lparr>s_block_info := t\<rparr>"
  have b0: "same_books H s ?s0" by (simp add: same_books_def)
  have I0: "sys_inv C H ?s0" using I same_books_keep(1) [OF b0] by simp
  consider (idle) "s' = ?s0" "es = []"
    | (quiet) s1 where "credit_producer H (slot_time C ts) p ?s0 = Inr s1" "s' = s1" "es = []"
    | (elect) s1 s2 es2 where "credit_producer H (slot_time C ts) p ?s0 = Inr s1"
        "update_elected_producers H ts s1 = (s2, es2)"
        "(s' = s2 \<and> es = es2) \<or> (\<exists>fs. close_auction C H x ts s2 = Inr (s', fs) \<and> es = es2 @ fs)"
    using run t unfolding onblock_def Let_def by (auto split: if_splits prod.splits)
  then have ok0: "step_ok C H ?s0 s' es"
  proof cases
    case idle
    then show ?thesis using I0 by (simp add: step_ok_def)
  next
    case (quiet s1)
    then show ?thesis using credit_ok [OF I0 quiet(1)] by (simp add: step_ok_def)
  next
    case (elect s1 s2 es2)
    note c = credit_ok [OF I0 elect(1)]
    have u: "untouched H s1 s2 es2" by (rule elected_untouched [OF elect(2)])
    have o2: "step_ok C H s1 s2 es2" by (rule untouched_ok [OF u c(1)])
    then have "step_ok C H s1 s' es"
      using elect(3) step_trans [OF o2 close_ok [OF C] close_stake] by (auto simp: step_ok_def)
    then show ?thesis using c by (simp add: step_ok_def)
  qed
  then show ?thesis using same_books_keep [OF b0] b0 by (simp add: step_ok_def same_books_def)
qed

section \<open>Administration\<close>

lemma gas_untouched:
  assumes "custody_free x" "buygas C H x p r q s = Inr (s', es)"
  shows "untouched H s s' es"
proof -
  have "has_auth x p" using assms(2) by (auto simp: buygas_def)
  from custody_auth [OF assms(1) this] show ?thesis
    using assms(2) by (auto simp: buygas_def Let_def intro!: untouchedI split: if_splits prod.splits)
qed

lemma cfgelection_untouched: "cfgelection C H x e r q s = Inr (s', es) \<Longrightarrow> untouched H s s' es"
  by (auto simp: cfgelection_def Let_def same_books_def intro!: untouchedI split: if_splits)

text \<open>Before \<open>init\<close> there are neither refunds nor bids to pay back.\<close>

lemma init_step_ok:
  assumes C: "cdt_laws C" and I: "sys_inv C H s" and run: "System_Admin.init C H x T v core s = Inr (s', es)"
  shows "step_ok C H s s' es"
proof -
  have V: "voting_inv C H s" and B: "bids_ok C (a_symbol (stake H s)) s" using I by (simp_all add: sys_inv_def)
  have nv: "\<not> symbol_is_valid C (a_symbol (stake H s))" using run by (auto simp: System_Admin.init_def Let_def)
  have none: "tfind (s_vote_refunds s) k = None" "tfind (s_bid_refunds s) l = None" for k l
    using V B nv by (auto simp: voting_inv_def refunds_ok_def bids_ok_def)
  have eq: "s_voters s' = s_voters s" "s_producers s' = s_producers s" "s_vote_refunds s' = s_vote_refunds s"
      "s_name_bids s' = s_name_bids s" "s_bid_refunds s' = s_bid_refunds s" "a_amount (stake H s') = a_amount (stake H s)"
    and fl: "flow k b es = 0" for k b
    using run by (auto simp: System_Admin.init_def Let_def split: if_splits)
  have "voting_inv C H s'" using V none by (simp add: voting_inv_def refunds_ok_def eq)
  moreover have "bids_ok C (a_symbol (stake H s')) s'" using B none by (simp add: bids_ok_def eq)
  ultimately show ?thesis using nv by (simp add: step_ok_def sys_inv_def held_def held_names_def eq fl)
qed

lemmas admin_defs = setparams_def setpriv_def setalimits_def activate_def logsystemfee_def setibintervl_def
  wasmcfg_def limitauthchg_def set_wasm_parameters_def

lemma admin_untouched:
  "setparams H x p m s = Inr (s', es) \<Longrightarrow> untouched H s s' es"
  "setpriv x n b s = Inr (s', es) \<Longrightarrow> untouched H s s' es"
  "setalimits H x n g u s = Inr (s', es) \<Longrightarrow> untouched H s s' es"
  "activate x d s = Inr (s', es) \<Longrightarrow> untouched H s s' es"
  "logsystemfee x n q memo s = Inr (s', es) \<Longrightarrow> untouched H s s' es"
  "setibintervl x i s = Inr (s', es) \<Longrightarrow> untouched H s s' es"
  "wasmcfg x n s = Inr (s', es) \<Longrightarrow> untouched H s s' es"
  "limitauthchg x n al dis s = Inr (s', es) \<Longrightarrow> untouched H s s' es"
  "setabi H n abi s = Inr (s', es) \<Longrightarrow> untouched H s s' es"
  by (auto simp: admin_defs setabi_def Let_def same_books_def gs_def intro!: untouchedI split: if_splits prod.splits)

lemma auth_untouched:
  "updateauth x n b s = Inr (s', es) \<Longrightarrow> untouched H s s' es"
  "deleteauth x n b s = Inr (s', es) \<Longrightarrow> untouched H s s' es"
  "linkauth x n b s = Inr (s', es) \<Longrightarrow> untouched H s s' es"
  "unlinkauth x n b s = Inr (s', es) \<Longrightarrow> untouched H s s' es"
  by (auto simp: updateauth_def deleteauth_def linkauth_def unlinkauth_def intro!: untouchedI)

section \<open>All actions\<close>

text \<open>
  What the environment guarantees: the two vectors of \<open>voteproducer\<close> do not overlap in memory, and
  an amount beyond the bound of the token never gets here, because the transfer the action orders
  refuses it and the whole transaction with it.
\<close>

fun sys_admissible :: "sys_action \<Rightarrow> sys_state \<Rightarrow> bool" where
  "sys_admissible (Sys_voteproducer po pn n ns) s \<longleftrightarrow>
     (case tfind (s_voters s) n of None \<Rightarrow> True | Some v \<Rightarrow> disjoint_buffers po (vi_producers v) pn ns)"
| "sys_admissible (Sys_addvote n q) s \<longleftrightarrow> amount_ok (a_amount q)"
| "sys_admissible (Sys_bidname n m q) s \<longleftrightarrow> amount_ok (a_amount q)"
| "sys_admissible _ s \<longleftrightarrow> True"

lemma sys_exec_ok:
  assumes C: "cdt_laws C" and I: "sys_inv C H s" and cf: "custody_free x" and adm: "sys_admissible a s"
    and run: "sys_exec C H x T R a s = Inr (s', es)"
  shows "step_ok C H s s' es"
proof (cases a)
  case (Sys_unregprod p)
  with run show ?thesis
    by (auto intro!: stored_ok [of H _ s' es C s] simp: unregprod_def split: option.splits if_splits intro: deactivate_ok [OF I])
next
  case (Sys_rmvproducer p)
  with run show ?thesis
    by (auto intro!: stored_ok [of H _ s' es C s] simp: rmvproducer_def split: option.splits if_splits intro: deactivate_ok [OF I])
next
  case (Sys_voteproducer po pn n ns)
  then have r: "stored H (Voting.voteproducer C H x po pn n ns s) = Inr (s', es)" using run by simp
  show ?thesis by (rule stored_ok [OF r], rule vote_ok [OF I]) (use adm Sys_voteproducer in auto)
next
  case (Sys_onerror)
  with run show ?thesis by (simp add: onerror_def)
next
  case (Sys_claimrewards n)
  with run show ?thesis by (simp add: stored_def Producer_Pay.claimrewards_def)
next
  case (Sys_newaccount c n)
  with run show ?thesis by (auto intro: newaccount_ok [OF I])
next
  case (Sys_setabi n abi)
  with run show ?thesis by (auto intro: untouched_ok [OF admin_untouched(9) I])
next
  case (Sys_updateauth n b)
  with run show ?thesis by (auto intro: untouched_ok [OF auth_untouched(1) I])
next
  case (Sys_deleteauth n b)
  with run show ?thesis by (auto intro: untouched_ok [OF auth_untouched(2) I])
next
  case (Sys_linkauth n b)
  with run show ?thesis by (auto intro: untouched_ok [OF auth_untouched(3) I])
next
  case (Sys_unlinkauth n b)
  with run show ?thesis by (auto intro: untouched_ok [OF auth_untouched(4) I])
qed (use run adm in \<open>auto intro!: stored_ok [of H _ s' es C s] intro: untouched_ok [OF _ I] register_ok [OF I]
      stake_ok [OF C I _ cf] unstake_ok [OF C I] refund_ok [OF I] onblock_ok [OF C I] bid_ok [OF C I _ cf] bidrefund_ok [OF I]
      init_step_ok [OF C I] cfgelection_untouched gas_untouched [OF cf] admin_untouched
      switchtosvnn_untouched regfinkey_untouched actfinkey_untouched delfinkey_untouched
      simp: Voting.regproducer_def regproducer2_def buygasself_def\<close>)

lemma system_empty_inv: "cdt_laws C \<Longrightarrow> sys_inv C H system_empty"
  using max_amount_pos
  by (simp add: sys_inv_def voting_inv_def votes_ok_def refunds_ok_def bids_ok_def system_empty_def gs_def default_gstate_def null_asset_def)

end
