(* ===== verification/Interfaces.thy ===== *)
theory Interfaces
  imports System_Steps Reward_Props
begin

text \<open>
  The interfaces between the contracts. The system contract keeps the votes; the reward contract
  keeps a copy of them, which it needs to share rewards. \<open>vote_ledger\<close> is what the system contract
  relies on: each of its three notifications is carried out, whatever the state. \<open>token_ledger\<close>
  is what both rely on: a transfer moves what it says, and nobody is debited without having
  signed.
\<close>

section \<open>Ballots\<close>

text \<open>A ballot is the number of votes of a voter and the list of producers it votes for.\<close>

type_synonym ballot = "int \<times> name list"

definition ballot_total :: "(name \<Rightarrow> ballot) \<Rightarrow> int" where
  "ballot_total b = (\<Sum>n | fst (b n) \<noteq> 0. fst (b n))"

lemma tsum_support:
  assumes "twf t" "\<And>n. g n = (case tfind t n of None \<Rightarrow> 0 | Some v \<Rightarrow> f n v)"
  shows "tsum f t = (\<Sum>n | g n \<noteq> 0. g n)"
proof -
  have "tsum f t = (\<Sum>n\<in>tkeys t. g n)" using assms by (simp add: tsum_total tbl.total_def)
  also have "\<dots> = (\<Sum>n | g n \<noteq> 0. g n)"
    using assms(2) by (intro sum.mono_neutral_right)
      (auto simp: tbl.finite_keys, auto simp: tbl.keys_dom domIff split: option.splits)
  finally show ?thesis .
qed

text \<open>What the sender of a notification must show.\<close>

definition permitted :: "ctx \<Rightarrow> name \<Rightarrow> bool" where
  "permitted x n \<longleftrightarrow> indeterminate x = 0 \<and> has_auth x system_account \<and> has_auth x n"

locale vote_ledger =
  fixes ballot :: "'r \<Rightarrow> name \<Rightarrow> ballot"
    and good :: "'r \<Rightarrow> bool"
    and change :: "ctx \<Rightarrow> name \<Rightarrow> int \<Rightarrow> bool \<Rightarrow> 'r \<Rightarrow> 'r res"
    and vote :: "ctx \<Rightarrow> name \<Rightarrow> name list \<Rightarrow> 'r \<Rightarrow> 'r res"
  assumes change_law: "good r \<Longrightarrow> permitted x n \<Longrightarrow> 0 < v \<Longrightarrow>
      (if adding then ballot_total (ballot r) + v \<le> max_amount else v \<le> fst (ballot r n)) \<Longrightarrow>
      \<exists>r'. change x n v adding r = Inr r' \<and> good r'
        \<and> ballot r' = (ballot r)(n := (fst (ballot r n) + (if adding then v else - v), snd (ballot r n)))"
    and vote_law: "good r \<Longrightarrow> permitted x n \<Longrightarrow> ascending ns \<Longrightarrow>
      \<exists>r'. vote x n ns r = Inr r' \<and> good r' \<and> ballot r' = (ballot r)(n := (fst (ballot r n), ns))"
begin

text \<open>The copy agrees with the original \<open>b\<close>.\<close>

definition mirrors :: "(name \<Rightarrow> ballot) \<Rightarrow> 'r \<Rightarrow> bool" where
  "mirrors b r \<longleftrightarrow> good r \<and> ballot r = b"

lemma mirrors_stake:
  assumes "mirrors b r" "permitted x n" "0 < v" "ballot_total b + v \<le> max_amount"
  shows "\<exists>r'. change x n v True r = Inr r' \<and> mirrors (b(n := (fst (b n) + v, snd (b n)))) r'"
  using change_law [of r x n v True] assms by (auto simp: mirrors_def)

lemma mirrors_unstake:
  assumes "mirrors b r" "permitted x n" "0 < v" "v \<le> fst (b n)"
  shows "\<exists>r'. change x n v False r = Inr r' \<and> mirrors (b(n := (fst (b n) - v, snd (b n)))) r'"
  using change_law [of r x n v False] assms by (auto simp: mirrors_def)

lemma mirrors_vote:
  assumes "mirrors b r" "permitted x n" "ascending ns"
  shows "\<exists>r'. vote x n ns r = Inr r' \<and> mirrors (b(n := (fst (b n), ns))) r'"
  using vote_law [of r x n ns] assms by (auto simp: mirrors_def)

end

section \<open>The two copies\<close>

definition ballot_sys :: "sys_state \<Rightarrow> name \<Rightarrow> ballot" where
  "ballot_sys s n = (case tfind (s_voters s) n of None \<Rightarrow> (0, []) | Some v \<Rightarrow> (vi_votes v, vi_producers v))"

definition ballot_rew :: "reward_state \<Rightarrow> name \<Rightarrow> ballot" where
  "ballot_rew r n = (case tfind (rs_voters r) n of None \<Rightarrow> (0, []) | Some v \<Rightarrow> (v_votes v, map fst (v_producers v)))"

lemma ballot_sys_total:
  assumes "voting_inv C H s"
  shows "ballot_total (ballot_sys s) = a_amount (stake H s)"
proof -
  have wf: "twf (s_voters s)" and tot: "tsum (\<lambda>_. vi_votes) (s_voters s) = a_amount (stake H s)"
    using assms by (simp_all add: voting_inv_def votes_ok_def)
  have "fst (ballot_sys s n) = (case tfind (s_voters s) n of None \<Rightarrow> 0 | Some v \<Rightarrow> vi_votes v)" for n
    by (simp add: ballot_sys_def split: option.split)
  from tsum_support [where g = "\<lambda>n. fst (ballot_sys s n)" and f = "\<lambda>_. vi_votes", OF wf this] tot show ?thesis
    by (simp add: ballot_total_def)
qed

lemma ballot_rew_total:
  assumes "reward_inv C r"
  shows "ballot_total (ballot_rew r) = tsum (\<lambda>_. v_votes) (rs_voters r)"
proof -
  have wf: "twf (rs_voters r)" using assms by (auto simp: reward_inv_def dest: ledger_tables)
  have "fst (ballot_rew r n) = (case tfind (rs_voters r) n of None \<Rightarrow> 0 | Some v \<Rightarrow> v_votes v)" for n
    by (simp add: ballot_rew_def split: option.split)
  from tsum_support [where g = "\<lambda>n. fst (ballot_rew r n)" and f = "\<lambda>_. v_votes", OF wf this] show ?thesis
    by (simp add: ballot_total_def)
qed

lemma ballot_rew_vrow: "ballot_rew r n = (v_votes (vrow core (rs_voters r) n), map fst (v_producers (vrow core (rs_voters r) n)))"
  by (simp add: ballot_rew_def vrow_def zero_voter_def split: option.split)

lemma ballot_rew_put: "rs_voters r' = tput n w (rs_voters r) \<Longrightarrow> ballot_rew r' = (ballot_rew r)(n := (v_votes w, map fst (v_producers w)))"
  by (auto simp: ballot_rew_def tfind_tput)

abbreviation claimed_total :: "reward_state \<Rightarrow> int" where
  "claimed_total r \<equiv> tsum (\<lambda>_ v. a_amount (v_claimed_rewards v)) (rs_voters r)"

lemma claimed_total_put:
  assumes "twf (rs_voters r)" "rs_voters r' = tput n w (rs_voters r)"
    "v_claimed_rewards w = v_claimed_rewards (vrow core (rs_voters r) n)"
  shows "claimed_total r' = claimed_total r"
  using tsum_tput [OF assms(1), of "\<lambda>_ v. a_amount (v_claimed_rewards v)" n w] assms(2,3)
  by (simp add: vrow_def zero_voter_def split: option.splits)

text \<open>The notifications as the reward contract handles them.\<close>

definition reward_change :: "cdt \<Rightarrow> ctx \<Rightarrow> name \<Rightarrow> int \<Rightarrow> bool \<Rightarrow> reward_state \<Rightarrow> reward_state res" where
  "reward_change C x n v adding r = (if adding then Reward.addvote C x n v r else Reward.subvote C x n v r)"

lemma reward_change_law:
  assumes "cdt_laws C \<and> reward_inv C r" "permitted x n" "0 < v"
    "if adding then ballot_total (ballot_rew r) + v \<le> max_amount else v \<le> fst (ballot_rew r n)"
  shows "\<exists>r'. reward_change C x n v adding r = Inr r' \<and> (cdt_laws C \<and> reward_inv C r')
    \<and> ballot_rew r' = (ballot_rew r)(n := (fst (ballot_rew r n) + (if adding then v else - v), snd (ballot_rew r n)))
    \<and> gstate r' = gstate r
    \<and> claimed_total r' = claimed_total r"
proof -
  let ?core = "Reward.core_symbol r" and ?d = "if adding then v else - v"
  have C: "cdt_laws C" and I: "reward_inv C r" using assms(1) by auto
  have b: "ballot_rew r n = (v_votes (vrow ?core (rs_voters r) n), map fst (v_producers (vrow ?core (rs_voters r) n)))"
    by (rule ballot_rew_vrow)
  have ok: "if adding then tsum (\<lambda>_. v_votes) (rs_voters r) + v \<le> max_amount else v \<le> v_votes (vrow ?core (rs_voters r) n)"
    using assms(4) ballot_rew_total [OF I] b by (simp split: if_splits)
  define w where "w = revoted ?core (rs_producers r) ?d (to_slot C (now x)) (vrow ?core (rs_voters r) n)"
  obtain P' where run: "change_vote C x n v adding r = Inr (r\<lparr>rs_producers := P', rs_voters := tput n w (rs_voters r)\<rparr>)"
    and I': "reward_inv C (r\<lparr>rs_producers := P', rs_voters := tput n w (rs_voters r)\<rparr>)"
    using change_vote_ok [OF C I _ _ _ assms(3) ok] assms(2) unfolding w_def permitted_def by blast
  have init: "check_init C r" using I by (simp add: reward_inv_def check_init_def)
  have wf: "twf (rs_voters r)" using I by (auto simp: reward_inv_def dest: ledger_tables)
  have w: "v_votes w = fst (ballot_rew r n) + ?d" "map fst (v_producers w) = snd (ballot_rew r n)"
    "v_claimed_rewards w = v_claimed_rewards (vrow ?core (rs_voters r) n)"
    by (auto simp: w_def revoted_def b)
  let ?r' = "r\<lparr>rs_producers := P', rs_voters := tput n w (rs_voters r)\<rparr>"
  have "claimed_total ?r' = claimed_total r" using claimed_total_put [OF wf _ w(3), of ?r'] by simp
  moreover have "ballot_rew ?r' = (ballot_rew r)(n := (fst (ballot_rew r n) + ?d, snd (ballot_rew r n)))"
    using ballot_rew_put [of ?r' n w r] w by simp
  moreover have "reward_change C x n v adding r = Inr ?r'"
    using run init by (cases adding) (simp_all add: reward_change_def Reward.addvote_def Reward.subvote_def)
  ultimately show ?thesis using I' C by (intro exI [of _ ?r']) (simp add: gstate_def)
qed

lemma reward_vote_law:
  assumes "cdt_laws C \<and> reward_inv C r" "permitted x n" "ascending ns"
  shows "\<exists>r'. Reward.voteproducer C x n ns r = Inr r' \<and> (cdt_laws C \<and> reward_inv C r')
    \<and> ballot_rew r' = (ballot_rew r)(n := (fst (ballot_rew r n), ns)) \<and> gstate r' = gstate r
    \<and> claimed_total r' = claimed_total r"
proof -
  let ?core = "Reward.core_symbol r"
  have C: "cdt_laws C" and I: "reward_inv C r" using assms(1) by auto
  define w where "w = voted ?core (rs_producers r) ns (to_slot C (now x)) (vrow ?core (rs_voters r) n)"
  obtain P' where run: "Reward.voteproducer C x n ns r = Inr (r\<lparr>rs_producers := P', rs_voters := tput n w (rs_voters r)\<rparr>)"
    and I': "reward_inv C (r\<lparr>rs_producers := P', rs_voters := tput n w (rs_voters r)\<rparr>)"
    using voteproducer_ok [OF C I _ _ _ assms(3)] assms(2) unfolding w_def permitted_def by blast
  have wf: "twf (rs_voters r)" using I by (auto simp: reward_inv_def dest: ledger_tables)
  have w: "v_votes w = fst (ballot_rew r n)" "map fst (v_producers w) = ns"
    "v_claimed_rewards w = v_claimed_rewards (vrow ?core (rs_voters r) n)"
    by (simp_all add: w_def voted_def ballot_rew_vrow [of r n ?core] comp_def)
  let ?r' = "r\<lparr>rs_producers := P', rs_voters := tput n w (rs_voters r)\<rparr>"
  have "claimed_total ?r' = claimed_total r" using claimed_total_put [OF wf _ w(3), of ?r'] by simp
  moreover have "ballot_rew ?r' = (ballot_rew r)(n := (fst (ballot_rew r n), ns))"
    using ballot_rew_put [of ?r' n w r] w by simp
  ultimately show ?thesis using run I' C by (intro exI [of _ ?r']) (simp add: gstate_def)
qed

interpretation rew: vote_ledger ballot_rew "\<lambda>r. cdt_laws C \<and> reward_inv C r" "reward_change C" "Reward.voteproducer C"
  for C
proof unfold_locales
  fix r x n v adding
  assume "cdt_laws C \<and> reward_inv C r" "permitted x n" "0 < v"
    "if adding then ballot_total (ballot_rew r) + v \<le> max_amount else v \<le> fst (ballot_rew r n)"
  from reward_change_law [OF this] show "\<exists>r'. reward_change C x n v adding r = Inr r' \<and> (cdt_laws C \<and> reward_inv C r')
    \<and> ballot_rew r' = (ballot_rew r)(n := (fst (ballot_rew r n) + (if adding then v else - v), snd (ballot_rew r n)))" by blast
next
  fix r x n and ns :: "name list"
  assume "cdt_laws C \<and> reward_inv C r" "permitted x n" "ascending ns"
  from reward_vote_law [OF this] show "\<exists>r'. Reward.voteproducer C x n ns r = Inr r' \<and> (cdt_laws C \<and> reward_inv C r')
    \<and> ballot_rew r' = (ballot_rew r)(n := (fst (ballot_rew r n), ns))" by blast
qed

section \<open>Tokens\<close>

locale token_ledger =
  fixes bal :: "'t \<Rightarrow> name \<Rightarrow> symbol_code \<Rightarrow> int"
    and good :: "'t \<Rightarrow> bool"
    and exec :: "ctx \<Rightarrow> token_action \<Rightarrow> 't \<Rightarrow> 't res"
  assumes good_exec: "good t \<Longrightarrow> exec x a t = Inr t' \<Longrightarrow> good t'"
    and debit_law: "good t \<Longrightarrow> exec x a t = Inr t' \<Longrightarrow> bal t' n c < bal t n c \<Longrightarrow> has_auth x n"
    and move_law: "good t \<Longrightarrow> exec x (Transfer f g q m) t = Inr t' \<Longrightarrow> bal t' n c = bal t n c + moved f g q n c"
    and open_law: "good t \<Longrightarrow> exec x (Open n' y p) t = Inr t' \<Longrightarrow> bal t' = bal t"
begin

text \<open>A backed liability stays backed: by what flows in, and by everything its holder does not sign.\<close>

lemma backed_transfer:
  assumes "good t" "exec x (Transfer f g q m) t = Inr t'" "due \<le> bal t n c"
  shows "due + moved f g q n c \<le> bal t' n c"
  using move_law [OF assms(1,2), of n c] assms(3) by simp

lemma backed_unsigned:
  assumes "good t" "exec x a t = Inr t'" "due \<le> bal t n c" "\<not> has_auth x n"
  shows "due \<le> bal t' n c"
  using debit_law [OF assms(1,2), of n c] assms(3,4) by linarith

end

interpretation tok: token_ledger balance_of "\<lambda>t. cdt_laws C \<and> token_wf C t" "token_exec C"
  for C
proof unfold_locales
  fix t t' x f g q m n c
  assume "cdt_laws C \<and> token_wf C t" "token_exec C x (Transfer f g q m) t = Inr t'"
  then show "balance_of t' n c = balance_of t n c + moved f g q n c" using transfer_result(2) by auto
qed (auto dest: token_exec_effect open_row_wf)

text \<open>A token, once created, keeps its symbol.\<close>

definition token_has :: "symbol \<Rightarrow> token_state \<Rightarrow> bool" where
  "token_has y t \<longleftrightarrow> (\<exists>st. tfind (ts_stats t) (sym_code y) = Some st \<and> a_symbol (st_supply st) = y)"

lemma balance_stats:
  "sub_balance C n q t = Inr t' \<Longrightarrow> ts_stats t' = ts_stats t"
  "add_balance C n q p t = Inr t' \<Longrightarrow> ts_stats t' = ts_stats t"
  by (auto simp: sub_balance_def add_balance_def split: option.splits if_splits)

lemma token_has_put:
  assumes "token_has y t" "tfind (ts_stats t) c = Some st" "ts_stats t' = tput c (st\<lparr>st_supply := u\<rparr>) (ts_stats t)"
    "a_symbol u = a_symbol (st_supply st)"
  shows "token_has y t'"
  using assms by (auto simp: token_has_def tfind_tput)

lemma issue_stats:
  assumes C: "cdt_laws C" and run: "issue C x n q m t = Inr t'"
  obtains st u where "tfind (ts_stats t) (asset_code q) = Some st" "a_symbol u = a_symbol (st_supply st)"
    "ts_stats t' = tput (asset_code q) (st\<lparr>st_supply := u\<rparr>) (ts_stats t)"
proof (cases "tfind (ts_stats t) (asset_code q)")
  case (Some st)
  obtain u where u: "asset_add C (st_supply st) q = Inr u"
    and b: "add_balance C (st_issuer st) q (st_issuer st) (t\<lparr>ts_stats := tput (asset_code q) (st\<lparr>st_supply := u\<rparr>) (ts_stats t)\<rparr>) = Inr t'"
    using run Some unfolding issue_def Let_def by auto
  have "a_symbol u = a_symbol (st_supply st)" using u C by (simp add: cdt_inv)
  from that [OF Some this] balance_stats(2) [OF b] show thesis by simp
qed (use run in \<open>simp add: issue_def Let_def\<close>)

lemma retire_stats:
  assumes C: "cdt_laws C" and run: "retire C x q m t = Inr t'"
  obtains st u where "tfind (ts_stats t) (asset_code q) = Some st" "a_symbol u = a_symbol (st_supply st)"
    "ts_stats t' = tput (asset_code q) (st\<lparr>st_supply := u\<rparr>) (ts_stats t)"
proof (cases "tfind (ts_stats t) (asset_code q)")
  case (Some st)
  obtain u where u: "asset_sub C (st_supply st) q = Inr u"
    and b: "sub_balance C (st_issuer st) q (t\<lparr>ts_stats := tput (asset_code q) (st\<lparr>st_supply := u\<rparr>) (ts_stats t)\<rparr>) = Inr t'"
    using run Some unfolding retire_def Let_def by auto
  have "a_symbol u = a_symbol (st_supply st)" using u C by (simp add: cdt_inv)
  from that [OF Some this] balance_stats(1) [OF b] show thesis by simp
qed (use run in \<open>simp add: retire_def Let_def\<close>)

lemma token_has_exec:
  assumes "cdt_laws C" "token_has y t" "token_exec C x a t = Inr t'"
  shows "token_has y t'"
proof (cases a)
  case (Create i m)
  then show ?thesis using assms(2,3) by (auto simp: create_def token_has_def Let_def tfind_tput)
next
  case (Issue n q m)
  then have "issue C x n q m t = Inr t'" using assms(3) by simp
  from issue_stats [OF assms(1) this] show ?thesis using token_has_put [OF assms(2)] by metis
next
  case (Retire q m)
  then have "retire C x q m t = Inr t'" using assms(3) by simp
  from retire_stats [OF assms(1) this] show ?thesis using token_has_put [OF assms(2)] by metis
next
  case (Transfer f g q m)
  then have "ts_stats t' = ts_stats t"
    using assms(3) by (auto simp: transfer_def Let_def dest!: balance_stats split: option.splits if_splits)
  then show ?thesis using assms(2) by (simp add: token_has_def)
next
  case (Open n z p)
  then show ?thesis using assms(2,3) by (auto simp: open_row_def token_has_def split: option.splits if_splits)
next
  case (Close n z)
  then show ?thesis using assms(2,3) by (auto simp: close_row_def token_has_def split: option.splits if_splits)
qed

end
