(* ===== verification/Chain.thy ===== *)
theory Chain
  imports Interfaces
begin

text \<open>
  The three contracts together. An action of a user runs on its contract; the inline actions it
  sends run afterwards, in order, each on its own contract and with the permissions it was sent
  with; a token transfer notifies the reward contract when it is one of the parties. One abort
  undoes the whole transaction. Contracts of users that are notified of transfers are not part
  of the model: what they send are actions of their own.
\<close>

section \<open>Execution\<close>

record chain =
  c_token :: token_state
  c_reward :: reward_state
  c_system :: sys_state

text \<open>The environment of an action on the contract at account \<open>a\<close>.\<close>

definition on :: "ctx \<Rightarrow> name \<Rightarrow> permission_level list \<Rightarrow> ctx" where
  "on x a au = x\<lparr>self := a, first_receiver := a, auths := au\<rparr>"

lemma on_simps [simp]:
  "self (on x a au) = a" "first_receiver (on x a au) = a" "auths (on x a au) = au" "now (on x a au) = now x"
  "is_account (on x a au) = is_account x" "indeterminate (on x a au) = indeterminate x"
  "has_auth (on x a au) n \<longleftrightarrow> n \<in> fst ` set au"
  by (simp_all add: on_def has_auth_def)

lemma has_auth_on: "has_auth (on x a (auths x)) n \<longleftrightarrow> has_auth x n"
  by (simp add: on_def has_auth_def)

lemma has_auth_self [simp]: "has_auth (x\<lparr>self := a\<rparr>) n \<longleftrightarrow> has_auth x n"
  by (simp add: has_auth_def)

text \<open>A transfer notifies its recipients in order.\<close>

definition run_transfer :: "cdt \<Rightarrow> ctx \<Rightarrow> name \<Rightarrow> name \<Rightarrow> asset \<Rightarrow> string \<Rightarrow> chain \<Rightarrow> chain res" where
  "run_transfer C x f t q m ch =
     rbind (transfer C x f t q m (c_token ch)) (\<lambda>(T, recipients).
     rbind (rfold (\<lambda>n R. if n = reward_account then ontransfer C (x\<lparr>self := reward_account\<rparr>) f t q m R else Inr R)
              recipients (c_reward ch)) (\<lambda>R.
     Inr (ch\<lparr>c_token := T, c_reward := R\<rparr>)))"

fun run_token :: "cdt \<Rightarrow> ctx \<Rightarrow> token_action \<Rightarrow> chain \<Rightarrow> chain res" where
  "run_token C x (Transfer f t q m) ch = run_transfer C x f t q m ch"
| "run_token C x a ch = rbind (token_exec C x a (c_token ch)) (\<lambda>T. Inr (ch\<lparr>c_token := T\<rparr>))"

definition run_reward :: "(reward_state \<Rightarrow> reward_state res) \<Rightarrow> chain \<Rightarrow> chain res" where
  "run_reward f ch = rbind (f (c_reward ch)) (\<lambda>R. Inr (ch\<lparr>c_reward := R\<rparr>))"

fun run_inline :: "cdt \<Rightarrow> host \<Rightarrow> ctx \<Rightarrow> inline_action \<Rightarrow> chain \<Rightarrow> chain res" where
  "run_inline C H x (Token_transfer au f t q m) ch = run_transfer C (on x token_account au) f t q m ch"
| "run_inline C H x (Token_open au n y p) ch = run_token C (on x token_account au) (Open n y p) ch"
| "run_inline C H x (Reward_init au y) ch = run_reward (Reward.init C (on x reward_account au) y) ch"
| "run_inline C H x (Reward_regproducer au p) ch = run_reward (Reward.regproducer C (on x reward_account au) p) ch"
| "run_inline C H x (Reward_addvote au n v) ch = run_reward (Reward.addvote C (on x reward_account au) n v) ch"
| "run_inline C H x (Reward_subvote au n v) ch = run_reward (Reward.subvote C (on x reward_account au) n v) ch"
| "run_inline C H x (Reward_voteproducer au n ps) ch = run_reward (Reward.voteproducer C (on x reward_account au) n ps) ch"
| "run_inline C H x (System_logsystemfee au p q m) ch =
     rbind (sys_exec C H (on x system_account au) (c_token ch) (c_reward ch) (Sys_logsystemfee p q m) (c_system ch))
       (\<lambda>(s, _). Inr (ch\<lparr>c_system := s\<rparr>))"

fun run_effect :: "cdt \<Rightarrow> host \<Rightarrow> ctx \<Rightarrow> effect \<Rightarrow> chain \<Rightarrow> chain res" where
  "run_effect C H x (Send a) ch = run_inline C H x a ch"
| "run_effect C H x _ ch = Inr ch"

text \<open>The actions of the reward contract that a user can call.\<close>

datatype reward_call =
    Call_init symbol
  | Call_regproducer name
  | Call_addvote name int
  | Call_subvote name int
  | Call_voteproducer name "name list"
  | Call_claimrewards name
  | Call_claimfor name name

fun called :: "ctx \<Rightarrow> reward_call \<Rightarrow> reward_action" where
  "called x (Call_init y) = Init x y"
| "called x (Call_regproducer p) = Regproducer x p"
| "called x (Call_addvote n v) = Addvote x n v"
| "called x (Call_subvote n v) = Subvote x n v"
| "called x (Call_voteproducer n ps) = Voteproducer x n ps"
| "called x (Call_claimrewards n) = Claimrewards x n"
| "called x (Call_claimfor c n) = Claimfor x c n"

datatype chain_action = Token_act token_action | Reward_act reward_call | System_act sys_action

fun chain_exec :: "cdt \<Rightarrow> host \<Rightarrow> ctx \<Rightarrow> chain_action \<Rightarrow> chain \<Rightarrow> chain res" where
  "chain_exec C H x (Token_act a) ch = run_token C (on x token_account (auths x)) a ch"
| "chain_exec C H x (Reward_act a) ch =
     rbind (reward_exec C (called (on x reward_account (auths x)) a) (c_reward ch)) (\<lambda>(R, outs).
       rfold (run_inline C H x) outs (ch\<lparr>c_reward := R\<rparr>))"
| "chain_exec C H x (System_act a) ch =
     rbind (sys_exec C H (on x system_account (auths x)) (c_token ch) (c_reward ch) a (c_system ch)) (\<lambda>(s, es).
       rfold (run_effect C H x) es (ch\<lparr>c_system := s\<rparr>))"

text \<open>
  What is assumed of a transaction: the custody accounts of the contracts sign nothing (only the
  contracts act for them), the system account calls the reward contract only through
  its own contract, the two vectors of a vote do not overlap in memory, and a fresh voter row of
  the reward contract starts without votes.
\<close>

definition user_ctx :: "ctx \<Rightarrow> bool" where
  "user_ctx x \<longleftrightarrow> \<not> has_auth x vote_account \<and> \<not> has_auth x names_account \<and> \<not> has_auth x reward_account
     \<and> indeterminate x = 0"

fun user_act :: "ctx \<Rightarrow> chain_action \<Rightarrow> chain \<Rightarrow> bool" where
  "user_act x (Token_act a) ch \<longleftrightarrow> True"
| "user_act x (Reward_act a) ch \<longleftrightarrow> \<not> has_auth x system_account"
| "user_act x (System_act (Sys_voteproducer po pn n ns)) ch \<longleftrightarrow>
     (case tfind (s_voters (c_system ch)) n of None \<Rightarrow> True | Some v \<Rightarrow> disjoint_buffers po (vi_producers v) pn ns)"
| "user_act x (System_act _) ch \<longleftrightarrow> True"

text \<open>The chain starts when the system contract is initialised for a core token that exists.\<close>

inductive chain_reachable :: "cdt \<Rightarrow> host \<Rightarrow> chain \<Rightarrow> bool" for C H where
  launched: "token_reachable C T \<Longrightarrow> user_ctx x \<Longrightarrow>
     chain_exec C H x (System_act (Sys_init 0 core)) \<lparr>c_token = T, c_reward = reward_empty, c_system = system_empty\<rparr> = Inr ch \<Longrightarrow>
     chain_reachable C H ch"
| transacted: "chain_reachable C H ch \<Longrightarrow> user_ctx x \<Longrightarrow> user_act x a ch \<Longrightarrow> chain_exec C H x a ch = Inr ch' \<Longrightarrow>
     chain_reachable C H ch'"

section \<open>The invariant\<close>

text \<open>What the reward contract still owes.\<close>

definition reward_owed :: "reward_state \<Rightarrow> int" where
  "reward_owed r = a_amount (gstate r) - claimed_total r"

abbreviation core_of :: "host \<Rightarrow> chain \<Rightarrow> symbol" where
  "core_of H ch \<equiv> a_symbol (stake H (c_system ch))"

definition parties_ok :: "cdt \<Rightarrow> host \<Rightarrow> chain \<Rightarrow> bool" where
  "parties_ok C H ch \<longleftrightarrow> token_wf C (c_token ch) \<and> reward_inv C (c_reward ch) \<and> sys_inv C H (c_system ch)
     \<and> token_has (core_of H ch) (c_token ch) \<and> Reward.core_symbol (c_reward ch) = core_of H ch"

definition mirrored :: "chain \<Rightarrow> bool" where
  "mirrored ch \<longleftrightarrow> ballot_rew (c_reward ch) = ballot_sys (c_system ch)"

abbreviation core_balance :: "host \<Rightarrow> chain \<Rightarrow> name \<Rightarrow> int" where
  "core_balance H ch n \<equiv> balance_of (c_token ch) n (sym_code (core_of H ch))"

definition backed :: "host \<Rightarrow> chain \<Rightarrow> bool" where
  "backed H ch \<longleftrightarrow> held H (c_system ch) \<le> core_balance H ch vote_account
     \<and> held_names (c_system ch) \<le> core_balance H ch names_account
     \<and> reward_owed (c_reward ch) \<le> core_balance H ch reward_account"

definition chain_inv :: "cdt \<Rightarrow> host \<Rightarrow> chain \<Rightarrow> bool" where
  "chain_inv C H ch \<longleftrightarrow> parties_ok C H ch \<and> mirrored ch \<and> backed H ch"

lemma parties_valid: "parties_ok C H ch \<Longrightarrow> symbol_is_valid C (core_of H ch)"
  by (auto simp: parties_ok_def reward_inv_def)

end
