(* ===== verification/Chain_Inv.thy ===== *)
theory Chain_Inv
  imports Chain
begin

text \<open>
  Every transaction keeps the invariant of the chain. First the inline actions that change neither
  votes nor claims: how they move tokens. Then the steps of each contract.
\<close>

section \<open>Moving tokens\<close>

text \<open>From \<open>ch\<close> to \<open>ch'\<close> the balance of every account in the core token changes by \<open>fl\<close>, and nothing
  else of interest does.\<close>

definition moves :: "cdt \<Rightarrow> host \<Rightarrow> chain \<Rightarrow> chain \<Rightarrow> (name \<Rightarrow> int) \<Rightarrow> bool" where
  "moves C H ch ch' fl \<longleftrightarrow> parties_ok C H ch' \<and> same_books H (c_system ch) (c_system ch')
     \<and> rs_voters (c_reward ch') = rs_voters (c_reward ch)
     \<and> (\<forall>n. core_balance H ch' n = core_balance H ch n + fl n)
     \<and> reward_owed (c_reward ch') \<le> reward_owed (c_reward ch) + fl reward_account"

lemma moves_core: "moves C H ch ch' fl \<Longrightarrow> core_of H ch' = core_of H ch"
  by (simp add: moves_def same_books_def)

lemma moves_refl: "parties_ok C H ch \<Longrightarrow> moves C H ch ch (\<lambda>_. 0)"
  by (simp add: moves_def)

lemma moves_trans:
  assumes "moves C H ch ch1 f" "moves C H ch1 ch2 g"
  shows "moves C H ch ch2 (\<lambda>n. f n + g n)"
  using assms by (auto simp: moves_def intro: same_books_trans)

text \<open>The notification of the reward contract.\<close>

lemma ontransfer_keeps:
  assumes C: "cdt_laws C" and I: "reward_inv C r" and run: "ontransfer C x f t q m r = Inr r'"
  shows "reward_inv C r'" "rs_voters r' = rs_voters r" "Reward.core_symbol r' = Reward.core_symbol r"
    "0 < a_amount q \<Longrightarrow> t = self x \<Longrightarrow> reward_owed r' \<le> reward_owed r + (if asset_code q = sym_code (Reward.core_symbol r) then a_amount q else 0)"
    "t \<noteq> self x \<Longrightarrow> r' = r"
proof -
  show "reward_inv C r'" using exec_inv [OF C I, of "Ontransfer x f t q m" r' "[]"] run by (simp add: silent_def)
  show same: "t \<noteq> self x \<Longrightarrow> r' = r" using run by (simp add: ontransfer_def)
  have "r' = r \<or> (a_symbol q = Reward.core_symbol r \<and> rs_voters r' = rs_voters r
      \<and> Reward.core_symbol r' = Reward.core_symbol r \<and> a_amount (gstate r') = a_amount (gstate r) + a_amount q)"
  proof (cases "first_receiver x = token_account \<and> a_symbol q = Reward.core_symbol r \<and> f \<noteq> self x \<and> t = self x")
    case True
    then show ?thesis
      using ontransfer_ok [OF C I run] by (auto simp: Reward.core_symbol_def gstate_def)
  next
    case False
    then show ?thesis using run unfolding ontransfer_def by (simp split: if_splits)
  qed
  then show "rs_voters r' = rs_voters r" "Reward.core_symbol r' = Reward.core_symbol r"
    "0 < a_amount q \<Longrightarrow> t = self x \<Longrightarrow> reward_owed r' \<le> reward_owed r + (if asset_code q = sym_code (Reward.core_symbol r) then a_amount q else 0)"
    by (auto simp: reward_owed_def)
qed

lemma run_transfer_split:
  assumes C: "cdt_laws C" and T: "token_wf C (c_token ch)" and run: "run_transfer C x f t q m ch = Inr ch'"
  obtains T' R1 R' where "token_exec C x (Transfer f t q m) (c_token ch) = Inr T'" "ch' = ch\<lparr>c_token := T', c_reward := R'\<rparr>"
    "(if f = reward_account then ontransfer C (x\<lparr>self := reward_account\<rparr>) f t q m (c_reward ch) else Inr (c_reward ch)) = Inr R1"
    "(if t = reward_account then ontransfer C (x\<lparr>self := reward_account\<rparr>) f t q m R1 else Inr R1) = Inr R'"
    "transfer_guard x f t q m (c_token ch)"
proof -
  obtain T' rs R' where t: "transfer C x f t q m (c_token ch) = Inr (T', rs)" and ch': "ch' = ch\<lparr>c_token := T', c_reward := R'\<rparr>"
    and fo: "rfold (\<lambda>n R. if n = reward_account then ontransfer C (x\<lparr>self := reward_account\<rparr>) f t q m R else Inr R) rs (c_reward ch) = Inr R'"
    using run by (auto simp: run_transfer_def)
  have rs: "rs = [f, t]" by (rule transfer_result(4) [OF C T t])
  obtain R1 where "(if f = reward_account then ontransfer C (x\<lparr>self := reward_account\<rparr>) f t q m (c_reward ch) else Inr (c_reward ch)) = Inr R1"
    "(if t = reward_account then ontransfer C (x\<lparr>self := reward_account\<rparr>) f t q m R1 else Inr R1) = Inr R'"
    using fo unfolding rs rfold.simps rbind_eq_Inr by auto
  then show thesis using that [of T' R' R1] t ch' transfer_guarded [OF C T t] by simp
qed

lemma run_transfer_ok:
  assumes C: "cdt_laws C" and P: "parties_ok C H ch" and run: "run_transfer C x f t q m ch = Inr ch'"
    and f: "f \<noteq> reward_account"
  shows "moves C H ch ch' (\<lambda>n. moved f t q n (sym_code (core_of H ch)))"
proof -
  have T: "token_wf C (c_token ch)" and R: "reward_inv C (c_reward ch)" using P by (simp_all add: parties_ok_def)
  obtain T' R' where ex: "token_exec C x (Transfer f t q m) (c_token ch) = Inr T'" and ch': "ch' = ch\<lparr>c_token := T', c_reward := R'\<rparr>"
    and on: "(if t = reward_account then ontransfer C (x\<lparr>self := reward_account\<rparr>) f t q m (c_reward ch) else Inr (c_reward ch)) = Inr R'"
    and g: "transfer_guard x f t q m (c_token ch)"
    using f by (rule_tac run_transfer_split [OF C T run]) (metis (no_types) sum.inject(2))
  have pos: "0 < a_amount q" using g by (auto simp: transfer_guard_def)
  have r: "reward_inv C R' \<and> rs_voters R' = rs_voters (c_reward ch) \<and> Reward.core_symbol R' = Reward.core_symbol (c_reward ch)
      \<and> reward_owed R' \<le> reward_owed (c_reward ch) + moved f t q reward_account (sym_code (core_of H ch))"
  proof (cases "t = reward_account")
    case True
    then have on': "ontransfer C (x\<lparr>self := reward_account\<rparr>) f t q m (c_reward ch) = Inr R'" using on by simp
    have "moved f t q reward_account (sym_code (core_of H ch)) = (if asset_code q = sym_code (Reward.core_symbol (c_reward ch)) then a_amount q else 0)"
      using True f P by (simp add: moved_def parties_ok_def)
    then show ?thesis using ontransfer_keeps [OF C R on'] True pos by simp
  next
    case False
    then show ?thesis using on R f by (auto simp: moved_def)
  qed
  have "token_wf C T'" "token_has (core_of H ch) T'"
    using token_exec_effect(1) [OF C T ex] token_has_exec [OF C _ ex] P by (simp_all add: parties_ok_def)
  moreover have "balance_of T' n c = balance_of (c_token ch) n c + moved f t q n c" for n c
    using tok.move_law [of C "c_token ch" x f t q m T' n c] C T ex by simp
  ultimately show ?thesis using P r by (simp add: moves_def parties_ok_def ch')
qed

section \<open>Harmless inline actions\<close>

fun harmless :: "inline_action \<Rightarrow> bool" where
  "harmless (Token_transfer _ f _ _ _) \<longleftrightarrow> f \<noteq> reward_account"
| "harmless (Token_open _ _ _ _) \<longleftrightarrow> True"
| "harmless (Reward_regproducer _ _) \<longleftrightarrow> True"
| "harmless (System_logsystemfee _ _ _ _) \<longleftrightarrow> True"
| "harmless _ \<longleftrightarrow> False"

lemma moved_flow: "f \<noteq> t \<Longrightarrow> moved f t q n c = flow_of c n (Send (Token_transfer au f t q m))"
  by (simp add: moved_def)

lemma run_inline_ok:
  assumes C: "cdt_laws C" and P: "parties_ok C H ch" and a: "harmless a" and run: "run_inline C H x a ch = Inr ch'"
  shows "moves C H ch ch' (\<lambda>n. flow_of (sym_code (core_of H ch)) n (Send a))"
proof -
  have T: "token_wf C (c_token ch)" and R: "reward_inv C (c_reward ch)" using P by (simp_all add: parties_ok_def)
  show ?thesis
  proof (cases a)
    case (Token_transfer au f t q m)
    then have r: "run_transfer C (on x token_account au) f t q m ch = Inr ch'" and f: "f \<noteq> reward_account" using run a by simp_all
    have "f \<noteq> t" by (rule run_transfer_split [OF C T r]) (auto simp: transfer_guard_def)
    then show ?thesis using run_transfer_ok [OF C P r f] by (simp add: Token_transfer moved_flow [where au = au and m = m] del: flow_of.simps)
  next
    case (Token_open au n y p)
    then obtain T' where ex: "token_exec C (on x token_account au) (Open n y p) (c_token ch) = Inr T'" and ch': "ch' = ch\<lparr>c_token := T'\<rparr>"
      using run by auto
    have "token_wf C T'" "token_has (core_of H ch) T'" "balance_of T' = balance_of (c_token ch)"
      using token_exec_effect(1) [OF C T ex] token_has_exec [OF C _ ex] tok.open_law [of C "c_token ch"] C T ex P
      by (simp_all add: parties_ok_def)
    then show ?thesis using P by (simp add: moves_def parties_ok_def ch' Token_open)
  next
    case (Reward_regproducer au p)
    then obtain R' where rg: "Reward.regproducer C (on x reward_account au) p (c_reward ch) = Inr R'" and ch': "ch' = ch\<lparr>c_reward := R'\<rparr>"
      using run by (auto simp: run_reward_def)
    have "reward_inv C R'"
      using exec_inv [OF C R, of "Regproducer (on x reward_account au) p" R' "[]"] rg by (simp add: silent_def)
    moreover have "rs_voters R' = rs_voters (c_reward ch)" "rs_global R' = rs_global (c_reward ch)"
      using rg by (auto simp: Reward.regproducer_def)
    ultimately show ?thesis
      using P by (simp add: moves_def parties_ok_def ch' Reward_regproducer reward_owed_def Reward.core_symbol_def gstate_def)
  next
    case (System_logsystemfee au p q m)
    then obtain s where s: "sys_exec C H (on x system_account au) (c_token ch) (c_reward ch) (Sys_logsystemfee p q m) (c_system ch) = Inr (s, [])"
      and ch': "ch' = ch\<lparr>c_system := s\<rparr>"
      using run by (auto simp: stored_def logsystemfee_def)
    have sb: "same_books H (c_system ch) s" using s by (auto simp: stored_def logsystemfee_def intro: same_books_stored)
    have "stake H s = stake H (c_system ch)" using sb by (simp add: same_books_def)
    then show ?thesis
      using P sb same_books_keep(1) [OF sb] by (simp add: moves_def parties_ok_def ch' System_logsystemfee)
  qed (use a in simp_all)
qed

lemma effects_ok:
  assumes "cdt_laws C"
  shows "parties_ok C H ch \<Longrightarrow> (\<And>a. Send a \<in> set es \<Longrightarrow> harmless a) \<Longrightarrow> rfold (run_effect C H x) es ch = Inr ch' \<Longrightarrow>
    moves C H ch ch' (\<lambda>n. flow (sym_code (core_of H ch)) n es)"
proof (induction es arbitrary: ch)
  case Nil
  then show ?case using moves_refl by simp
next
  case (Cons e es)
  obtain ch1 where e: "run_effect C H x e ch = Inr ch1" and es: "rfold (run_effect C H x) es ch1 = Inr ch'"
    using Cons.prems(3) by auto
  have m: "moves C H ch ch1 (\<lambda>n. flow_of (sym_code (core_of H ch)) n e)"
  proof (cases e)
    case (Send a)
    then show ?thesis using run_inline_ok [OF assms Cons.prems(1), of a] Cons.prems(2) e by simp
  qed (use e moves_refl [OF Cons.prems(1)] in simp_all)
  then have "parties_ok C H ch1" by (simp add: moves_def)
  from moves_trans [OF m Cons.IH [OF this _ es]] Cons.prems(2) moves_core [OF m] show ?case by simp
qed

section \<open>Actions of the system contract that leave the votes alone\<close>

definition quiet :: "sys_state \<Rightarrow> sys_state \<Rightarrow> effect list \<Rightarrow> bool" where
  "quiet s s' es \<longleftrightarrow> s_voters s' = s_voters s \<and> (\<forall>a. Send a \<in> set es \<longrightarrow> harmless a)"

lemma quietI: "s_voters s' = s_voters s \<Longrightarrow> (\<And>a. Send a \<in> set es \<Longrightarrow> harmless a) \<Longrightarrow> quiet s s' es"
  by (simp add: quiet_def)

lemma quiet_simps [simp]:
  "s_voters s' = s_voters s \<Longrightarrow> quiet s s' []" "quiet s s' (Send a # es) \<longleftrightarrow> harmless a \<and> quiet s s' es"
  "quiet s s' (Propose_producers ps # es) = quiet s s' es" "quiet s s' (Set_finalizers w fs # es) = quiet s s' es"
  "quiet s s' (Set_resource_limits n g u # es) = quiet s s' es"
  "quiet s s' (Set_privileged n b # es) = quiet s s' es" "quiet s s' (Preactivate_feature d # es) = quiet s s' es"
  "quiet s s' (Set_parameters_packed d # es) = quiet s s' es" "quiet s s' (Set_wasm_parameters_packed d # es) = quiet s s' es"
  by (auto simp: quiet_def)

lemma quiet_append: "quiet s s1 es \<Longrightarrow> quiet s1 s2 fs \<Longrightarrow> quiet s s2 (es @ fs)"
  by (auto simp: quiet_def)

lemma quiet_voters: "quiet s s1 es \<Longrightarrow> s_voters s = s_voters s0 \<Longrightarrow> quiet s0 s1 es"
  by (simp add: quiet_def)

lemma stored_quiet:
  assumes "stored H r = Inr (s', es)" "\<And>s1. r = Inr (s1, es) \<Longrightarrow> quiet s s1 es"
  shows "quiet s s' es"
  using assms by (auto simp: stored_def quiet_def)

lemma reward_distinct [simp]:
  "vote_account \<noteq> reward_account" "names_account \<noteq> reward_account" "gas_account \<noteq> reward_account" "fees_account \<noteq> reward_account"
  by (simp_all add: account_defs)

lemma proposed_quiet: "set_proposed_finalizers H fins s = (s', es) \<Longrightarrow> quiet s s' es"
  by (auto simp: set_proposed_finalizers_def Let_def split: if_splits)

lemma elected_quiet:
  assumes "update_elected_producers H t s = (s', es)"
  shows "quiet s s' es"
proof -
  have proposed: "quiet s s1 fs" if "set_proposed_finalizers H fins (s\<lparr>sg := g\<rparr>) = (s1, fs)" for fins g s1 fs
    using quiet_voters [OF proposed_quiet [OF that], of s] by simp
  show ?thesis
    using assms unfolding update_elected_producers_def Let_def by (auto split: if_splits prod.splits intro: proposed)
qed

lemma finalizers_quiet:
  "regfinkey H x n k pop s = Inr (s', es) \<Longrightarrow> quiet s s' es"
  "delfinkey H x n k s = Inr (s', es) \<Longrightarrow> quiet s s' es"
  "switchtosvnn H x s = Inr (s', es) \<Longrightarrow> quiet s s' es"
  by (auto simp: regfinkey_def delfinkey_def switchtosvnn_def Let_def get_next_finalizer_key_id_def
      split: option.splits if_splits prod.splits intro: proposed_quiet)

lemma actfinkey_quiet:
  assumes "actfinkey H x n k s = Inr (s', es)"
  shows "quiet s s' es"
proof -
  have "\<exists>F. (s' = s\<lparr>s_finalizers := F\<rparr> \<and> es = []) \<or> (\<exists>l. set_proposed_finalizers H l (s\<lparr>s_finalizers := F\<rparr>) = (s', es))"
    using assms by (auto simp: actfinkey_def Let_def split: option.splits if_splits)
  then show ?thesis using quiet_voters [OF proposed_quiet, of _ _ _ s' es s] by fastforce
qed

lemma onblock_quiet:
  assumes "onblock C H x ts p b s = Inr (s', es)"
  shows "quiet s s' es"
proof -
  have credit: "s_voters s1 = s_voters s0" if "credit_producer H t p s0 = Inr s1" for t s0 s1
    using that by (auto simp: credit_producer_def Let_def split: option.splits if_splits)
  have close: "quiet s0 s1 fs" if "close_auction C H x ts s0 = Inr (s1, fs)" for s0 s1 fs
    using that by (auto simp: close_auction_def channel_to_system_fees_def split: option.splits if_splits)
  obtain t where t: "add_to_blockinfo_table C b ts (s_block_info s) = Inr t" using assms by (auto simp: onblock_def)
  consider (idle) "s_voters s' = s_voters s" "es = []"
    | (elect) s1 s2 es2 where "s_voters s1 = s_voters s" "update_elected_producers H ts s1 = (s2, es2)"
        "(s' = s2 \<and> es = es2) \<or> (\<exists>fs. close_auction C H x ts s2 = Inr (s', fs) \<and> es = es2 @ fs)"
    using assms t unfolding onblock_def Let_def by (auto split: if_splits prod.splits dest!: credit)
  then show ?thesis
  proof cases
    case (elect s1 s2 es2)
    then show ?thesis using quiet_voters [OF elected_quiet [OF elect(2)] elect(1)] close quiet_append by blast
  qed simp
qed

lemma registered_quiet: "register_producer C H x R n a url loc ratio s = Inr (s', es) \<Longrightarrow> quiet s s' es"
  by (auto simp: register_producer_def Let_def split: option.splits if_splits)

lemma bids_quiet:
  assumes "\<not> has_auth x reward_account"
  shows "bidname C H x n m q s = Inr (s', es) \<Longrightarrow> quiet s s' es" "bidrefund H x n m s = Inr (s', es) \<Longrightarrow> quiet s s' es"
    "buygas C H x n n' q s = Inr (s', es) \<Longrightarrow> quiet s s' es" "Voting.voterefund x n s = Inr (s', es) \<Longrightarrow> quiet s s' es"
    "newaccount C x n m s = Inr (s', es) \<Longrightarrow> quiet s s' es"
  using assms
  by (auto simp: bidname_def bidrefund_def buygas_def Voting.voterefund_def newaccount_def Let_def
      split: option.splits if_splits prod.splits)

lemma admin_quiet:
  "setparams H x p m s = Inr (s', es) \<Longrightarrow> quiet s s' es" "setpriv x n b s = Inr (s', es) \<Longrightarrow> quiet s s' es"
  "setalimits H x n g u s = Inr (s', es) \<Longrightarrow> quiet s s' es" "activate x d s = Inr (s', es) \<Longrightarrow> quiet s s' es"
  "logsystemfee x n q memo s = Inr (s', es) \<Longrightarrow> quiet s s' es" "setibintervl x i s = Inr (s', es) \<Longrightarrow> quiet s s' es"
  "wasmcfg x n s = Inr (s', es) \<Longrightarrow> quiet s s' es" "limitauthchg x n al dis s = Inr (s', es) \<Longrightarrow> quiet s s' es"
  "setabi H n abi s = Inr (s', es) \<Longrightarrow> quiet s s' es" "cfgelection C H x e r q s = Inr (s', es) \<Longrightarrow> quiet s s' es"
  "unregprod H x n s = Inr (s', es) \<Longrightarrow> quiet s s' es" "rmvproducer H x n s = Inr (s', es) \<Longrightarrow> quiet s s' es"
  by (auto simp: admin_defs setabi_def cfgelection_def unregprod_def rmvproducer_def Let_def
      split: if_splits prod.splits option.splits)

lemma auth_quiet:
  "updateauth x n b s = Inr (s', es) \<Longrightarrow> quiet s s' es" "deleteauth x n b s = Inr (s', es) \<Longrightarrow> quiet s s' es"
  "linkauth x n b s = Inr (s', es) \<Longrightarrow> quiet s s' es" "unlinkauth x n b s = Inr (s', es) \<Longrightarrow> quiet s s' es"
  by (auto simp: updateauth_def deleteauth_def linkauth_def unlinkauth_def)

fun votes_act :: "sys_action \<Rightarrow> bool" where
  "votes_act (Sys_voteproducer _ _ _ _) = True"
| "votes_act (Sys_addvote _ _) = True"
| "votes_act (Sys_subvote _ _) = True"
| "votes_act (Sys_init _ _) = True"
| "votes_act _ = False"

lemma sys_exec_quiet:
  assumes na: "\<not> has_auth x reward_account" and a: "\<not> votes_act a" and run: "sys_exec C H x T R a s = Inr (s', es)"
  shows "quiet s s' es"
proof (cases a)
  case (Sys_newaccount c n)
  with run show ?thesis using bids_quiet(5) [OF na] by simp
next
  case (Sys_setabi n abi)
  with run show ?thesis using admin_quiet(9) by simp
next
  case Sys_onerror
  with run show ?thesis by (simp add: onerror_def)
next
  case (Sys_updateauth n b)
  with run show ?thesis using auth_quiet(1) by simp
next
  case (Sys_deleteauth n b)
  with run show ?thesis using auth_quiet(2) by simp
next
  case (Sys_linkauth n b)
  with run show ?thesis using auth_quiet(3) by simp
next
  case (Sys_unlinkauth n b)
  with run show ?thesis using auth_quiet(4) by simp
next
  case (Sys_claimrewards n)
  with run show ?thesis by (simp add: stored_def Producer_Pay.claimrewards_def)
qed (use run a in \<open>auto elim!: stored_quiet intro: registered_quiet bids_quiet [OF na] admin_quiet finalizers_quiet
      actfinkey_quiet onblock_quiet simp: Voting.regproducer_def regproducer2_def buygasself_def\<close>)

end
