(* ===== verification/Chain_Steps.thy ===== *)
theory Chain_Steps
  imports Chain_Inv
begin

text \<open>
  The invariant of the chain: the two copies of the votes agree, and the three custody accounts hold
  the tokens the contracts owe. It holds once the system contract is initialised, and every
  transaction keeps it.
\<close>

section \<open>Steps of the system contract\<close>

lemma user_custody: "user_ctx x \<Longrightarrow> custody_free (on x a (auths x))"
  by (auto simp: user_ctx_def custody_free_def has_auth_def)

lemma auths_fold [simp]: "n \<in> fst ` set (auths x) \<longleftrightarrow> has_auth x n"
  by (simp add: has_auth_def)

lemma parties_step:
  assumes "parties_ok C H ch" "step_ok C H (c_system ch) s es"
  shows "parties_ok C H (ch\<lparr>c_system := s\<rparr>)" "a_symbol (stake H s) = core_of H ch"
proof -
  show sy: "a_symbol (stake H s) = core_of H ch" using assms parties_valid [OF assms(1)] by (simp add: step_ok_def)
  show "parties_ok C H (ch\<lparr>c_system := s\<rparr>)" using assms sy by (simp add: parties_ok_def step_ok_def)
qed

text \<open>After the inline actions moved the tokens, and possibly the reward contract its votes.\<close>

lemma system_step_inv:
  assumes I: "chain_inv C H ch" and st: "step_ok C H (c_system ch) s es"
    and m: "moves C H (ch\<lparr>c_system := s\<rparr>) ch2 (\<lambda>n. flow (sym_code (core_of H ch)) n es)"
    and r: "reward_inv C R'" "gstate R' = gstate (c_reward ch2)" "claimed_total R' = claimed_total (c_reward ch2)"
      "ballot_rew R' = ballot_sys s"
  shows "chain_inv C H (ch2\<lparr>c_reward := R'\<rparr>)"
proof -
  have P: "parties_ok C H ch" and B: "backed H ch" using I by (simp_all add: chain_inv_def)
  have sy: "a_symbol (stake H s) = core_of H ch" by (rule parties_step(2) [OF P st])
  have sb: "same_books H s (c_system ch2)" and P2: "parties_ok C H ch2" using m by (simp_all add: moves_def)
  note kept = same_books_keep [OF sb]
  have core2: "core_of H ch2 = core_of H ch" using sb sy by (simp add: same_books_def)
  have bal: "core_balance H ch2 n = core_balance H ch n + flow (sym_code (core_of H ch)) n es" for n
    using m sy core2 by (simp add: moves_def)
  have ow: "reward_owed R' = reward_owed (c_reward ch2)" using r by (simp add: reward_owed_def)
  have "parties_ok C H (ch2\<lparr>c_reward := R'\<rparr>)"
    using P2 r(1,2) by (simp add: parties_ok_def Reward.core_symbol_def)
  moreover have "mirrored (ch2\<lparr>c_reward := R'\<rparr>)"
    using r(4) sb by (simp add: mirrored_def ballot_sys_def [abs_def] same_books_def)
  moreover have "held H (c_system ch2) \<le> core_balance H ch2 vote_account"
    "held_names (c_system ch2) \<le> core_balance H ch2 names_account"
    using B st sy kept(2,3) bal by (simp_all add: backed_def step_ok_def)
  moreover have "reward_owed (c_reward ch2) \<le> core_balance H ch2 reward_account"
    using m B sy bal [of reward_account] by (simp add: moves_def backed_def)
  ultimately show ?thesis by (simp add: chain_inv_def backed_def ow)
qed

lemma transfer_amount_ok:
  assumes "cdt_laws C" "transfer C x f t q m T = Inr r"
  shows "amount_ok (a_amount q)"
  using assms by (auto simp: transfer_def cdt_inv split: option.splits if_splits)

lemma order_amount_ok:
  assumes "cdt_laws C" "rfold (run_effect C H x) (Send (Token_transfer au f t q m) # es) ch = Inr ch'"
  shows "amount_ok (a_amount q)"
proof -
  obtain r where "transfer C (on x token_account au) f t q m (c_token ch) = Inr r"
    using assms(2) by (auto simp: run_transfer_def)
  from transfer_amount_ok [OF assms(1) this] show ?thesis .
qed

lemma orders_first:
  "Voting.addvote C H x n q s = Inr (s', es) \<Longrightarrow> \<exists>au f t m es'. es = Send (Token_transfer au f t q m) # es'"
  "bidname C H x n nm q s = Inr (s', es) \<Longrightarrow> \<exists>au f t m es'. es = Send (Token_transfer au f t q m) # es'"
  by (auto simp: Voting.addvote_def bidname_def Let_def split: option.splits if_splits)

lemma system_admissible:
  assumes C: "cdt_laws C" and u: "user_act x (System_act a) ch"
    and run: "sys_exec C H y T R a (c_system ch) = Inr (s, es)" "rfold (run_effect C H x) es ch1 = Inr ch'"
  shows "sys_admissible a (c_system ch)"
proof (cases a)
  case (Sys_addvote n q)
  then obtain s1 where "Voting.addvote C H y n q (c_system ch) = Inr (s1, es)" using run(1) by (auto simp: stored_def)
  from orders_first(1) [OF this] show ?thesis using order_amount_ok [OF C] run(2) Sys_addvote by auto
next
  case (Sys_bidname n m q)
  then obtain s1 where "bidname C H y n m q (c_system ch) = Inr (s1, es)" using run(1) by (auto simp: stored_def)
  from orders_first(2) [OF this] show ?thesis using order_amount_ok [OF C] run(2) Sys_bidname by auto
qed (use u in simp_all)

lemma ballot_sys_put:
  "s_voters s' = tput n w (s_voters s) \<Longrightarrow> ballot_sys s' = (ballot_sys s)(n := (vi_votes w, vi_producers w))"
  by (auto simp: ballot_sys_def tfind_tput)

lemma ballot_sys_of: "ballot_sys s n = (vi_votes (voter_of n s), vi_producers (voter_of n s))"
  by (simp add: ballot_sys_def voter_of_def split: option.split)

lemma permitted_on:
  "indeterminate x = 0 \<Longrightarrow> permitted (on x a [(system_account, p), (n, p')]) n"
  by (simp add: permitted_def)

lemma vote_step:
  assumes C: "cdt_laws C" and I: "chain_inv C H ch" and u: "user_ctx x"
    and adm: "sys_admissible (Sys_voteproducer po pn n ns) (c_system ch)"
    and run: "sys_exec C H (on x system_account (auths x)) T R (Sys_voteproducer po pn n ns) (c_system ch) = Inr (s, es)"
  shows "\<exists>ch'. rfold (run_effect C H x) es (ch\<lparr>c_system := s\<rparr>) = Inr ch' \<and> chain_inv C H ch'"
proof -
  let ?y = "on x system_account (auths x)" and ?S = "c_system ch" and ?ch1 = "ch\<lparr>c_system := s\<rparr>"
  have P: "parties_ok C H ch" and V: "voting_inv C H ?S" and mi: "ballot_rew (c_reward ch) = ballot_sys ?S"
    using I by (simp_all add: chain_inv_def parties_ok_def sys_inv_def mirrored_def)
  have st: "step_ok C H ?S s es"
    using sys_exec_ok [OF C _ user_custody [OF u] adm run] P by (simp add: parties_ok_def)
  obtain s1 where s1: "Voting.voteproducer C H ?y po pn n ns ?S = Inr (s1, es)" "s_voters s = s_voters s1"
    using run by (auto simp: stored_def)
  obtain v where v: "tfind (s_voters ?S) n = Some v"
    using s1(1) by (auto simp: Voting.voteproducer_def split: option.splits if_splits)
  have r: "ascending ns" "s1 = revoted_state C ?y n v ns ?S"
      "es = [Send (Reward_voteproducer [(system_account, active_permission), (n, active_permission)] n ns)]"
    using voteproducer_Inr [OF V v, of po pn ns ?y "(s1, es)"] s1(1) adm v by auto
  have b: "ballot_sys s = (ballot_sys ?S)(n := (fst (ballot_sys ?S n), ns))"
    using ballot_sys_put [of s n "v\<lparr>vi_producers := ns, vi_last_unvoted_time := to_slot C (now ?y)\<rparr>" ?S] s1(2) v
    by (simp add: r(2) revoted_state_def ballot_sys_def [of ?S n])
  have G: "cdt_laws C \<and> reward_inv C (c_reward ch)" using C P by (simp add: parties_ok_def)
  have pe: "permitted (on x reward_account [(system_account, active_permission), (n, active_permission)]) n"
    using u by (intro permitted_on) (simp add: user_ctx_def)
  obtain R' where R': "Reward.voteproducer C (on x reward_account [(system_account, active_permission), (n, active_permission)]) n ns (c_reward ch) = Inr R'"
    "reward_inv C R'" "ballot_rew R' = (ballot_rew (c_reward ch))(n := (fst (ballot_rew (c_reward ch) n), ns))"
    "gstate R' = gstate (c_reward ch)" "claimed_total R' = claimed_total (c_reward ch)"
    using reward_vote_law [OF G pe r(1)] by blast
  have "moves C H ?ch1 ?ch1 (\<lambda>m. flow (sym_code (core_of H ch)) m es)"
    using moves_refl [OF parties_step(1) [OF P st]] by (simp add: r(3))
  then have "chain_inv C H (?ch1\<lparr>c_reward := R'\<rparr>)"
    using R' b mi by (intro system_step_inv [OF I st]) auto
  moreover have "rfold (run_effect C H x) es ?ch1 = Inr (?ch1\<lparr>c_reward := R'\<rparr>)"
    using R'(1) by (simp add: r(3) run_reward_def)
  ultimately show ?thesis by blast
qed

lemma unstake_step:
  assumes C: "cdt_laws C" and I: "chain_inv C H ch" and u: "user_ctx x"
    and run: "sys_exec C H (on x system_account (auths x)) T R (Sys_subvote n q) (c_system ch) = Inr (s, es)"
  shows "\<exists>ch'. rfold (run_effect C H x) es (ch\<lparr>c_system := s\<rparr>) = Inr ch' \<and> chain_inv C H ch'"
proof -
  let ?y = "on x system_account (auths x)" and ?S = "c_system ch" and ?ch1 = "ch\<lparr>c_system := s\<rparr>"
  let ?z = "on x reward_account [(system_account, active_permission), (n, active_permission)]"
  have P: "parties_ok C H ch" and V: "voting_inv C H ?S" and mi: "ballot_rew (c_reward ch) = ballot_sys ?S"
    using I by (simp_all add: chain_inv_def parties_ok_def sys_inv_def mirrored_def)
  have st: "step_ok C H ?S s es"
    using sys_exec_ok [OF C _ user_custody [OF u] _ run] P by (simp add: parties_ok_def)
  obtain s1 where s1: "Voting.subvote C H ?y n q ?S = Inr (s1, es)" "s_voters s = s_voters s1"
    using run by (auto simp: stored_def)
  obtain v where v: "tfind (s_voters ?S) n = Some v" "0 < a_amount q" "a_amount q \<le> vi_votes v" "s1 = unstaked_state C H ?y n v q ?S"
      and es: "es = [Send (Reward_subvote [(system_account, active_permission), (n, active_permission)] n (a_amount q)),
              Deferred_voterefund n refund_delay_sec]"
    using subvote_Inr [OF C V, of ?y n q "(s1, es)"] s1(1) by auto
  have b: "ballot_sys s = (ballot_sys ?S)(n := (fst (ballot_sys ?S n) - a_amount q, snd (ballot_sys ?S n)))"
    using ballot_sys_put [of s n _ ?S] s1(2) v(1) by (simp add: v(4) unstaked_state_def ballot_sys_def [of ?S n])
  have G: "cdt_laws C \<and> reward_inv C (c_reward ch)" using C P by (simp add: parties_ok_def)
  have pe: "permitted ?z n" using u by (intro permitted_on) (simp add: user_ctx_def)
  have le: "a_amount q \<le> fst (ballot_rew (c_reward ch) n)" using v mi by (simp add: ballot_sys_def)
  obtain R' where R': "Reward.subvote C ?z n (a_amount q) (c_reward ch) = Inr R'"
    "reward_inv C R'" "ballot_rew R' = (ballot_rew (c_reward ch))(n := (fst (ballot_rew (c_reward ch) n) - a_amount q, snd (ballot_rew (c_reward ch) n)))"
    "gstate R' = gstate (c_reward ch)" "claimed_total R' = claimed_total (c_reward ch)"
    using reward_change_law [OF G pe v(2), of False] le by (auto simp: reward_change_def)
  have "moves C H ?ch1 ?ch1 (\<lambda>m. flow (sym_code (core_of H ch)) m es)"
    using moves_refl [OF parties_step(1) [OF P st]] by (simp add: es)
  then have "chain_inv C H (?ch1\<lparr>c_reward := R'\<rparr>)"
    using R' b mi by (intro system_step_inv [OF I st]) auto
  moreover have "rfold (run_effect C H x) es ?ch1 = Inr (?ch1\<lparr>c_reward := R'\<rparr>)"
    using R'(1) by (simp add: es run_reward_def)
  ultimately show ?thesis by blast
qed

text \<open>A stake also needs the voter's tokens: the transfer decides.\<close>

lemma stake_step:
  assumes C: "cdt_laws C" and I: "chain_inv C H ch" and u: "user_ctx x" and q: "amount_ok (a_amount q)"
    and run: "sys_exec C H (on x system_account (auths x)) T R (Sys_addvote n q) (c_system ch) = Inr (s, es)"
  defines "tr \<equiv> run_transfer C (on x token_account [(n, active_permission)]) n vote_account q ''addvote'' (ch\<lparr>c_system := s\<rparr>)"
  shows "\<And>ch2. tr = Inr ch2 \<Longrightarrow> \<exists>ch'. rfold (run_effect C H x) es (ch\<lparr>c_system := s\<rparr>) = Inr ch' \<and> chain_inv C H ch'
      \<and> c_token ch' = c_token ch2"
    "\<And>e. tr = Inl e \<Longrightarrow> rfold (run_effect C H x) es (ch\<lparr>c_system := s\<rparr>) = Inl e"
proof -
  let ?y = "on x system_account (auths x)" and ?S = "c_system ch" and ?ch1 = "ch\<lparr>c_system := s\<rparr>"
  let ?z = "on x reward_account [(system_account, active_permission), (n, active_permission)]"
  have P: "parties_ok C H ch" and V: "voting_inv C H ?S" and mi: "ballot_rew (c_reward ch) = ballot_sys ?S"
    using I by (simp_all add: chain_inv_def parties_ok_def sys_inv_def mirrored_def)
  have st: "step_ok C H ?S s es"
    using sys_exec_ok [OF C _ user_custody [OF u] _ run] P q by (simp add: parties_ok_def)
  obtain s1 where s1: "Voting.addvote C H ?y n q ?S = Inr (s1, es)" "s_voters s = s_voters s1"
    using run by (auto simp: stored_def)
  have r: "has_auth ?y n" "0 < a_amount q" "a_amount (stake H ?S) + a_amount q \<le> max_amount"
      "s1 = staked_state H n (a_amount q) (a_symbol q) ?S"
      and es: "es = [Send (Token_transfer [(n, active_permission)] n vote_account q ''addvote''),
          Send (Reward_addvote [(system_account, active_permission), (n, active_permission)] n (a_amount q))]"
    using addvote_Inr [OF C V q, of ?y n "(s1, es)"] s1(1) by auto
  have nr: "n \<noteq> reward_account" "n \<noteq> vote_account" using r(1) u by (auto simp: user_ctx_def)
  have b: "ballot_sys s = (ballot_sys ?S)(n := (fst (ballot_sys ?S n) + a_amount q, snd (ballot_sys ?S n)))"
    using ballot_sys_put [of s n _ ?S] s1(2) by (simp add: r(4) staked_state_def ballot_sys_of [of ?S n])
  have P1: "parties_ok C H ?ch1" by (rule parties_step(1) [OF P st])
  show "\<exists>ch'. rfold (run_effect C H x) es ?ch1 = Inr ch' \<and> chain_inv C H ch' \<and> c_token ch' = c_token ch2" if tr: "tr = Inr ch2" for ch2
  proof -
    have "flow c k es = moved n vote_account q k c" for c k using nr by (simp add: es moved_def)
    then have m: "moves C H ?ch1 ch2 (\<lambda>k. flow (sym_code (core_of H ch)) k es)"
      using run_transfer_ok [OF C P1 tr [unfolded tr_def] nr(1)] parties_step(2) [OF P st] by simp
    have G: "cdt_laws C \<and> reward_inv C (c_reward ch2)" and vo: "ballot_rew (c_reward ch2) = ballot_rew (c_reward ch)"
      using C m by (simp_all add: moves_def parties_ok_def ballot_rew_def [abs_def])
    have pe: "permitted ?z n" using u by (intro permitted_on) (simp add: user_ctx_def)
    have room: "ballot_total (ballot_rew (c_reward ch2)) + a_amount q \<le> max_amount"
      using ballot_sys_total [OF V] r(3) mi vo by simp
    obtain R' where R': "Reward.addvote C ?z n (a_amount q) (c_reward ch2) = Inr R'" "reward_inv C R'"
      "ballot_rew R' = (ballot_rew (c_reward ch2))(n := (fst (ballot_rew (c_reward ch2) n) + a_amount q, snd (ballot_rew (c_reward ch2) n)))"
      "gstate R' = gstate (c_reward ch2)" "claimed_total R' = claimed_total (c_reward ch2)"
      using reward_change_law [OF G pe r(2), of True] room by (auto simp: reward_change_def)
    have "chain_inv C H (ch2\<lparr>c_reward := R'\<rparr>)"
      using R' b mi vo by (intro system_step_inv [OF I st m]) auto
    moreover have "rfold (run_effect C H x) es ?ch1 = Inr (ch2\<lparr>c_reward := R'\<rparr>)"
      using R'(1) tr by (simp add: es run_reward_def tr_def)
    ultimately show ?thesis by auto
  qed
  show "rfold (run_effect C H x) es ?ch1 = Inl e" if "tr = Inl e" for e
    using that by (simp add: es tr_def)
qed

lemma quiet_step:
  assumes C: "cdt_laws C" and I: "chain_inv C H ch" and u: "user_ctx x" and a: "\<not> votes_act a" and adm: "sys_admissible a (c_system ch)"
    and run: "sys_exec C H (on x system_account (auths x)) T R a (c_system ch) = Inr (s, es)"
      "rfold (run_effect C H x) es (ch\<lparr>c_system := s\<rparr>) = Inr ch'"
  shows "chain_inv C H ch'"
proof -
  have P: "parties_ok C H ch" and mi: "ballot_rew (c_reward ch) = ballot_sys (c_system ch)"
    using I by (simp_all add: chain_inv_def mirrored_def)
  have st: "step_ok C H (c_system ch) s es"
    using sys_exec_ok [OF C _ user_custody [OF u] adm run(1)] P by (simp add: parties_ok_def)
  have q: "quiet (c_system ch) s es" using sys_exec_quiet [OF _ a run(1)] u by (simp add: user_ctx_def)
  have m: "moves C H (ch\<lparr>c_system := s\<rparr>) ch' (\<lambda>n. flow (sym_code (core_of H ch)) n es)"
    using effects_ok [OF C parties_step(1) [OF P st] _ run(2)] parties_step(2) [OF P st] q by (simp add: quiet_def)
  have "ballot_rew (c_reward ch') = ballot_sys s"
    using m q mi by (simp add: moves_def quiet_def ballot_rew_def [abs_def] ballot_sys_def [abs_def])
  then show ?thesis
    using system_step_inv [OF I st m, of "c_reward ch'"] m by (simp add: moves_def parties_ok_def)
qed

lemma system_step:
  assumes C: "cdt_laws C" and I: "chain_inv C H ch" and u: "user_ctx x" and ua: "user_act x (System_act a) ch"
    and run: "chain_exec C H x (System_act a) ch = Inr ch'"
  shows "chain_inv C H ch'"
proof -
  let ?y = "on x system_account (auths x)"
  obtain s es where r: "sys_exec C H ?y (c_token ch) (c_reward ch) a (c_system ch) = Inr (s, es)"
      "rfold (run_effect C H x) es (ch\<lparr>c_system := s\<rparr>) = Inr ch'"
    using run by auto
  have adm: "sys_admissible a (c_system ch)" by (rule system_admissible [OF C ua r])
  show ?thesis
  proof (cases "votes_act a")
    case True
    then show ?thesis
    proof (cases a)
      case (Sys_voteproducer po pn n ns)
      then show ?thesis using vote_step [OF C I u] adm r by fastforce
    next
      case (Sys_addvote n q)
      have q: "amount_ok (a_amount q)" using adm Sys_addvote by simp
      note sts = stake_step [OF C I u q r(1) [unfolded Sys_addvote]]
      show ?thesis
      proof (cases "run_transfer C (on x token_account [(n, active_permission)]) n vote_account q ''addvote'' (ch\<lparr>c_system := s\<rparr>)")
        case (Inl e)
        then show ?thesis using sts(2) r(2) by simp
      next
        case (Inr ch2)
        then show ?thesis using sts(1) r(2) by force
      qed
    next
      case (Sys_subvote n q)
      then show ?thesis using unstake_step [OF C I u] r by fastforce
    next
      case (Sys_init v y)
      have "symbol_is_valid C (core_of H ch)" using I parties_valid by (auto simp: chain_inv_def)
      then show ?thesis using r(1) Sys_init by (auto simp: stored_def System_Admin.init_def Let_def)
    qed simp_all
  next
    case False
    then show ?thesis using quiet_step [OF C I u False adm r] by simp
  qed
qed

section \<open>Steps of the token and the reward contract\<close>

lemma token_other_inv:
  assumes C: "cdt_laws C" and I: "chain_inv C H ch" and u: "user_ctx x"
    and ex: "token_exec C (on x token_account (auths x)) a (c_token ch) = Inr T"
  shows "chain_inv C H (ch\<lparr>c_token := T\<rparr>)"
proof -
  let ?y = "on x token_account (auths x)" and ?c = "sym_code (core_of H ch)"
  have P: "parties_ok C H ch" and T: "cdt_laws C \<and> token_wf C (c_token ch)" and B: "backed H ch"
    using I C by (simp_all add: chain_inv_def parties_ok_def)
  have na: "\<not> has_auth ?y vote_account" "\<not> has_auth ?y names_account" "\<not> has_auth ?y reward_account"
    using u by (simp_all add: user_ctx_def)
  note keep = tok.backed_unsigned [OF T ex]
  have "token_wf C T" "token_has (core_of H ch) T"
    using token_exec_effect(1) [OF C _ ex] token_has_exec [OF C _ ex] P by (simp_all add: parties_ok_def)
  moreover have "held H (c_system ch) \<le> balance_of T vote_account ?c" "held_names (c_system ch) \<le> balance_of T names_account ?c"
    "reward_owed (c_reward ch) \<le> balance_of T reward_account ?c"
    using B keep na by (auto simp: backed_def)
  ultimately show ?thesis using I by (simp add: chain_inv_def parties_ok_def mirrored_def backed_def)
qed

lemma token_step:
  assumes C: "cdt_laws C" and I: "chain_inv C H ch" and u: "user_ctx x" and run: "chain_exec C H x (Token_act a) ch = Inr ch'"
  shows "chain_inv C H ch'"
proof (cases a)
  case (Transfer f t q m)
  let ?y = "on x token_account (auths x)"
  have r: "run_transfer C ?y f t q m ch = Inr ch'" using run Transfer by simp
  have P: "parties_ok C H ch" and T: "token_wf C (c_token ch)" using I by (simp_all add: chain_inv_def parties_ok_def)
  have "transfer_guard ?y f t q m (c_token ch)" by (rule run_transfer_split [OF C T r])
  then have f: "f \<noteq> vote_account" "f \<noteq> names_account" "f \<noteq> reward_account" "0 < a_amount q"
    using u by (auto simp: transfer_guard_def user_ctx_def)
  have m: "moves C H ch ch' (\<lambda>n. moved f t q n (sym_code (core_of H ch)))" by (rule run_transfer_ok [OF C P r f(3)])
  have sb: "same_books H (c_system ch) (c_system ch')" using m by (simp add: moves_def)
  have nn: "0 \<le> moved f t q n (sym_code (core_of H ch))" if "n \<noteq> f" for n using that f(4) by (simp add: moved_def)
  have "mirrored ch'"
    using m I by (simp add: chain_inv_def mirrored_def moves_def ballot_rew_def [abs_def] ballot_sys_def [abs_def] same_books_def)
  moreover have "backed H ch'"
  proof -
    have bal: "core_balance H ch' n = core_balance H ch n + moved f t q n (sym_code (core_of H ch))" for n
      using m by (simp add: moves_def)
    have "held H (c_system ch) \<le> core_balance H ch' vote_account" "held_names (c_system ch) \<le> core_balance H ch' names_account"
      using I bal [of vote_account] bal [of names_account] nn [of vote_account] nn [of names_account] f
      by (simp_all add: chain_inv_def backed_def)
    moreover have "reward_owed (c_reward ch') \<le> core_balance H ch' reward_account"
      using I m bal [of reward_account] by (simp add: chain_inv_def backed_def moves_def)
    ultimately show ?thesis using same_books_keep(2,3) [OF sb] by (simp add: backed_def)
  qed
  ultimately show ?thesis using m by (simp add: chain_inv_def moves_def)
qed (use token_other_inv [OF C I u, of a] run in auto)

lemma claimed_row:
  assumes "0 \<le> v_votes v"
  shows "v_votes (claimed core P u v) = v_votes v" "map fst (v_producers (claimed core P u v)) = map fst (v_producers v)"
    "a_amount (v_claimed_rewards (claimed core P u v)) = a_amount (v_claimed_rewards v) + claimable core P v"
  using assms by (auto simp: claimed_def Let_def revoted_def claimable_def total_owed_no_votes)

text \<open>A claim: the books first, then the transfer, which the contract's own notification ignores.\<close>

lemma claim_step:
  assumes C: "cdt_laws C" and I: "chain_inv C H ch"
    and cl: "claim_rewards C (on x reward_account au) n (c_reward ch) = Inr (R, outs)"
  obtains v where "tfind (rs_voters (c_reward ch)) n = Some v" "0 < claimable (core_of H ch) (rs_producers (c_reward ch)) v"
    "outs = [Token_transfer [(reward_account, active_permission)] reward_account n
        (mk_asset (claimable (core_of H ch) (rs_producers (c_reward ch)) v) (core_of H ch)) ''voted rewards'']"
    "reward_inv C R" "Reward.core_symbol R = core_of H ch" "ballot_rew R = ballot_rew (c_reward ch)"
    "reward_owed R = reward_owed (c_reward ch) - claimable (core_of H ch) (rs_producers (c_reward ch)) v"
proof -
  let ?R = "c_reward ch" and ?x = "on x reward_account au"
  have G: "reward_inv C ?R" and co: "Reward.core_symbol ?R = core_of H ch" using I by (simp_all add: chain_inv_def parties_ok_def)
  obtain v where v: "tfind (rs_voters ?R) n = Some v" using cl by (auto simp: claim_rewards_def split: option.splits)
  have L: "ledger_ok (core_of H ch) (a_amount (gstate ?R)) (rs_voters ?R) (rs_producers ?R) (\<lambda>_. 0)"
    using G co by (simp add: reward_inv_def)
  have nn: "0 \<le> v_votes v" and wf: "twf (rs_voters ?R)" using ledger_voter [OF L v] ledger_tables [OF L] by (auto simp: voter_ok_def)
  have pos: "0 < claimable (core_of H ch) (rs_producers ?R) v"
    using claim_refused [OF C G v, of ?x] cl co by (cases "0 < claimable (core_of H ch) (rs_producers ?R) v") auto
  define w where "w = claimed (core_of H ch) (rs_producers ?R) (to_slot C (now ?x)) v"
  obtain P' where R: "R = ?R\<lparr>rs_producers := P', rs_voters := tput n w (rs_voters ?R)\<rparr>" "reward_inv C R"
    and outs: "outs = [Token_transfer [(reward_account, active_permission)] reward_account n
        (mk_asset (claimable (core_of H ch) (rs_producers ?R) v) (core_of H ch)) ''voted rewards'']"
    using claim_rewards_ok [OF C G v, of ?x] pos cl unfolding w_def co by auto
  note wr = claimed_row [OF nn, of "core_of H ch" "rs_producers ?R" "to_slot C (now ?x)", folded w_def]
  have g: "gstate R = gstate ?R" by (simp add: R(1) gstate_def)
  have "ballot_rew R = ballot_rew ?R"
    using ballot_rew_put [of R n w ?R] wr(1,2) v by (auto simp: R(1) ballot_rew_def)
  moreover have "claimed_total R = claimed_total ?R + claimable (core_of H ch) (rs_producers ?R) v"
    using tsum_tput_old [OF wf v, of "\<lambda>_ v. a_amount (v_claimed_rewards v)" w] wr(3) by (simp add: R(1))
  ultimately show thesis
    using that [OF v pos outs R(2)] g co by (simp add: reward_owed_def Reward.core_symbol_def)
qed

lemma payout_step:
  assumes C: "cdt_laws C" and P: "parties_ok C H ch" and run: "run_transfer C y reward_account n q m ch = Inr ch'" and y: "first_receiver y = token_account"
  shows "parties_ok C H ch'" "c_reward ch' = c_reward ch" "c_system ch' = c_system ch" "n \<noteq> reward_account"
    "core_balance H ch' k = core_balance H ch k + moved reward_account n q k (sym_code (core_of H ch))"
proof -
  have T: "token_wf C (c_token ch)" using P by (simp add: parties_ok_def)
  obtain T' R' where ex: "token_exec C y (Transfer reward_account n q m) (c_token ch) = Inr T'" and ch': "ch' = ch\<lparr>c_token := T', c_reward := R'\<rparr>"
    and R': "R' = c_reward ch" and n: "n \<noteq> reward_account"
  proof (rule run_transfer_split [OF C T run])
    fix T' R1 R'
    assume a: "token_exec C y (Transfer reward_account n q m) (c_token ch) = Inr T'" "ch' = ch\<lparr>c_token := T', c_reward := R'\<rparr>"
      "(if reward_account = reward_account then ontransfer C (y\<lparr>self := reward_account\<rparr>) reward_account n q m (c_reward ch)
        else Inr (c_reward ch)) = Inr R1"
      "(if n = reward_account then ontransfer C (y\<lparr>self := reward_account\<rparr>) reward_account n q m R1 else Inr R1) = Inr R'"
      "transfer_guard y reward_account n q m (c_token ch)"
    have n: "n \<noteq> reward_account" using a(5) by (auto simp: transfer_guard_def)
    then have "R' = c_reward ch" using a(3,4) by (simp add: ontransfer_def)
    then show thesis using that [OF a(1,2)] n by blast
  qed
  show "c_reward ch' = c_reward ch" "c_system ch' = c_system ch" "n \<noteq> reward_account" using ch' R' n by simp_all
  show "parties_ok C H ch'"
    using P token_exec_effect(1) [OF C T ex] token_has_exec [OF C _ ex] by (simp add: parties_ok_def ch' R')
  show "core_balance H ch' k = core_balance H ch k + moved reward_account n q k (sym_code (core_of H ch))"
    using tok.move_law [of C "c_token ch" y reward_account n q m T' k] C T ex by (simp add: ch')
qed

lemma claim_paid_inv:
  assumes C: "cdt_laws C" and I: "chain_inv C H ch"
    and cl: "claim_rewards C (on x reward_account au) n (c_reward ch) = Inr (R, outs)"
    and run: "rfold (run_inline C H x) outs (ch\<lparr>c_reward := R\<rparr>) = Inr ch'"
  shows "chain_inv C H ch'"
proof (rule claim_step [OF C I cl])
  fix v
  let ?pay = "claimable (core_of H ch) (rs_producers (c_reward ch)) v" and ?ch1 = "ch\<lparr>c_reward := R\<rparr>"
  assume pos: "0 < ?pay" and outs: "outs = [Token_transfer [(reward_account, active_permission)] reward_account n
        (mk_asset ?pay (core_of H ch)) ''voted rewards'']"
    and R: "reward_inv C R" "Reward.core_symbol R = core_of H ch" "ballot_rew R = ballot_rew (c_reward ch)"
      "reward_owed R = reward_owed (c_reward ch) - ?pay"
  have P1: "parties_ok C H ?ch1" using I R(1,2) by (simp add: chain_inv_def parties_ok_def)
  have tr: "run_transfer C (on x token_account [(reward_account, active_permission)]) reward_account n (mk_asset ?pay (core_of H ch)) ''voted rewards'' ?ch1 = Inr ch'"
    using run by (simp add: outs split: sum.splits)
  note p = payout_step [OF C P1 tr]
  have "mirrored ch'" using I R(3) p(2,3) by (simp add: chain_inv_def mirrored_def)
  moreover have "backed H ch'"
    using I p(2-5) pos R(4) by (auto simp: chain_inv_def backed_def moved_def)
  ultimately show ?thesis using p(1) by (simp add: chain_inv_def)
qed

lemma reward_step:
  assumes C: "cdt_laws C" and I: "chain_inv C H ch" and ua: "\<not> has_auth x system_account"
    and run: "chain_exec C H x (Reward_act a) ch = Inr ch'"
  shows "chain_inv C H ch'"
proof -
  let ?y = "on x reward_account (auths x)"
  have G: "reward_inv C (c_reward ch)" and P: "parties_ok C H ch" using I by (simp_all add: chain_inv_def parties_ok_def)
  obtain R outs where r: "reward_exec C (called ?y a) (c_reward ch) = Inr (R, outs)" "rfold (run_inline C H x) outs (ch\<lparr>c_reward := R\<rparr>) = Inr ch'"
    using run by auto
  have na: "\<not> has_auth ?y system_account" using ua by simp
  show ?thesis
  proof (cases a)
    case (Call_regproducer p)
    have "reward_inv C R" using exec_inv [OF C G _ r(1)] by (simp add: Call_regproducer)
    moreover have "rs_voters R = rs_voters (c_reward ch)" "rs_global R = rs_global (c_reward ch)" "outs = []"
      using r(1) by (auto simp: Call_regproducer silent_def Reward.regproducer_def)
    moreover have "ch' = ch\<lparr>c_reward := R\<rparr>" using r(2) calculation(4) by simp
    ultimately show ?thesis
      using I by (simp add: chain_inv_def parties_ok_def mirrored_def backed_def reward_owed_def
          Reward.core_symbol_def gstate_def ballot_rew_def [abs_def])
  next
    case (Call_claimrewards n)
    then have "claim_rewards C ?y n (c_reward ch) = Inr (R, outs)" using r(1) by (simp add: Reward.claimrewards_def)
    from claim_paid_inv [OF C I this r(2)] show ?thesis .
  next
    case (Call_claimfor c n)
    then have "claim_rewards C ?y n (c_reward ch) = Inr (R, outs)" using r(1) by (simp add: claimfor_def)
    from claim_paid_inv [OF C I this r(2)] show ?thesis .
  qed (use r(1) na in \<open>auto simp: silent_def Reward.init_def Reward.addvote_def Reward.subvote_def
        Reward.voteproducer_def change_vote_def simp del: on_simps split: if_splits\<close>)
qed

section \<open>Reachable states\<close>

lemma launch_inv:
  assumes C: "cdt_laws C" and T: "token_reachable C T" and u: "user_ctx x"
    and run: "chain_exec C H x (System_act (Sys_init 0 core)) \<lparr>c_token = T, c_reward = reward_empty, c_system = system_empty\<rparr> = Inr ch"
  shows "chain_inv C H ch"
proof -
  let ?y = "on x system_account (auths x)"
  obtain s es where i: "sys_exec C H ?y T reward_empty (Sys_init 0 core) system_empty = Inr (s, es)"
    and e: "rfold (run_effect C H x) es \<lparr>c_token = T, c_reward = reward_empty, c_system = s\<rparr> = Inr ch"
    using run by auto
  have st: "step_ok C H system_empty s es"
    using sys_exec_ok [OF C system_empty_inv [OF C] user_custody [OF u] _ i] by simp
  have es: "es = [Send (Token_open [(system_account, active_permission)] gas_account core system_account),
             Send (Reward_init [(system_account, active_permission)] core)]"
    and sv: "s_voters s = []" "s_vote_refunds s = []" "s_name_bids s = []" "s_bid_refunds s = []"
    and stk: "stake H s = mk_asset 0 core"
    and sup: "\<exists>u. get_supply T (sym_code core) = Inr u \<and> a_symbol u = core"
    using i by (auto simp: stored_def System_Admin.init_def Let_def system_empty_def gs_def default_gstate_def null_asset_def)
  obtain T' R where T': "token_exec C (on x token_account [(system_account, active_permission)]) (Open gas_account core system_account) T = Inr T'"
    and R: "Reward.init C (on x reward_account [(system_account, active_permission)]) core reward_empty = Inr R"
    and ch: "ch = \<lparr>c_token = T', c_reward = R, c_system = s\<rparr>"
    using e by (auto simp: es run_reward_def)
  have tw: "token_wf C T" by (rule token_reachable_wf [OF C T])
  have has: "token_has core T" using sup by (auto simp: get_supply_def token_has_def split: option.splits)
  have tw': "token_wf C T'" "token_has core T'"
    using token_exec_effect(1) [OF C tw T'] token_has_exec [OF C has T'] by simp_all
  have r: "reward_inv C R" "Reward.core_symbol R = core" "R = reward_empty\<lparr>rs_global := Some (mk_asset 0 core)\<rparr>"
    using init_ok [OF C R] R C by (auto simp: Reward.init_def cdt_inv)
  have P: "parties_ok C H ch" using tw' r st stk by (simp add: parties_ok_def ch step_ok_def)
  have nn: "0 \<le> balance_of T' n c" for n c using balance_nonneg [of C "\<lambda>_. 0" T' n c] tw'(1) by (simp add: token_wf_gap)
  have "mirrored ch" by (simp add: mirrored_def ch r(3) reward_empty_def ballot_rew_def [abs_def] ballot_sys_def [abs_def] sv)
  moreover have "backed H ch"
    using nn by (simp add: backed_def ch held_def held_names_def sv stk reward_owed_def r(3) reward_empty_def gstate_def)
  ultimately show ?thesis using P by (simp add: chain_inv_def)
qed

lemma chain_exec_inv:
  assumes "cdt_laws C" "chain_inv C H ch" "user_ctx x" "user_act x a ch" "chain_exec C H x a ch = Inr ch'"
  shows "chain_inv C H ch'"
proof (cases a)
  case (Token_act b)
  then show ?thesis using token_step [OF assms(1-3)] assms(5) by simp
next
  case (Reward_act b)
  then show ?thesis using reward_step [OF assms(1,2)] assms(4,5) by simp
next
  case (System_act b)
  then show ?thesis using system_step [OF assms(1-3)] assms(4,5) by simp
qed

lemma chain_reachable_inv:
  assumes "cdt_laws C" "chain_reachable C H ch"
  shows "chain_inv C H ch"
  using assms(2) by induction (auto intro: launch_inv [OF assms(1)] chain_exec_inv [OF assms(1)] simp del: chain_exec.simps)

end
