(* ===== verification/Chain_Props.thy ===== *)
theory Chain_Props
  imports Chain_Steps
begin

text \<open>
  What the three contracts guarantee together: the money is there, the votes agree, and neither the
  reward contract nor the token contract can block what the system contract has accepted.
\<close>

section \<open>Consequences of the invariant\<close>

lemma owed_claim_le:
  assumes I: "reward_inv C r" and v: "tfind (rs_voters r) n = Some v"
  shows "claimable (Reward.core_symbol r) (rs_producers r) v \<le> reward_owed r"
proof -
  have L: "ledger_ok (Reward.core_symbol r) (a_amount (gstate r)) (rs_voters r) (rs_producers r) (\<lambda>_. 0)"
    using I by (simp add: reward_inv_def)
  have nn: "0 \<le> claimable (Reward.core_symbol r) (rs_producers r) w" if "tfind (rs_voters r) k = Some w" for k w
  proof -
    have ok: "voter_ok (Reward.core_symbol r) (rs_producers r) k w" by (rule ledger_voter [OF L that])
    have "0 \<le> owed_by (Reward.core_symbol r) (rs_producers r) q k w" for q
      using owed_bounds(4) [OF L that, of q] by (auto simp: owed_by_def voted_at_def split: option.split)
    then show ?thesis using total_owed_by [OF ok] ok by (simp add: claimable_def voter_ok_def sum_nonneg)
  qed
  have "claimable (Reward.core_symbol r) (rs_producers r) v
      \<le> tsum (\<lambda>_. claimable (Reward.core_symbol r) (rs_producers r)) (rs_voters r)"
    using ledger_tables [OF L] nn v by (intro tsum_row_le [where f = "\<lambda>_. claimable (Reward.core_symbol r) (rs_producers r)"]) auto
  then show ?thesis using claims_covered [OF I] by (simp add: reward_owed_def)
qed

lemma owed_refund_le:
  assumes V: "voting_inv C H s" and r: "tfind (s_vote_refunds s) n = Some r"
  shows "a_amount (vr_vote_staked r) \<le> held H s"
proof -
  have ok: "votes_ok (s_voters s) (s_producers s) (a_amount (stake H s))" using V by (simp add: voting_inv_def)
  have "0 \<le> a_amount (stake H s)" using backing_bounds(1,2) [OF ok, of undefined] by linarith
  moreover have "0 \<le> a_amount (vr_vote_staked w)" if "tfind (s_vote_refunds s) k = Some w" for k w
    using V that by (force simp: voting_inv_def refunds_ok_def)
  then have "a_amount (vr_vote_staked r) \<le> tsum (\<lambda>_ r. a_amount (vr_vote_staked r)) (s_vote_refunds s)"
    using V r by (intro tsum_row_le [where f = "\<lambda>_ r. a_amount (vr_vote_staked r)"]) (auto simp: voting_inv_def refunds_ok_def)
  ultimately show ?thesis by (simp add: held_def)
qed

text \<open>A transfer the sender can afford succeeds; the reward contract has no say unless it is paid.\<close>

lemma affordable_transfer:
  assumes C: "cdt_laws C" and P: "parties_ok C H ch" and y: "first_receiver y = token_account" "has_auth y f" "is_account y t"
    and ft: "f \<noteq> t" "t \<noteq> reward_account" and q: "a_symbol q = core_of H ch" "0 < a_amount q" "a_amount q \<le> core_balance H ch f"
    and m: "length m \<le> 256"
  shows "\<exists>T'. run_transfer C y f t q m ch = Inr (ch\<lparr>c_token := T'\<rparr>)
     \<and> (\<forall>n c. balance_of T' n c = balance_of (c_token ch) n c + moved f t q n c)"
proof -
  have T: "token_wf C (c_token ch)" using P by (simp add: parties_ok_def)
  have g: "transfer_guard y f t q m (c_token ch)"
    using P y ft q m by (auto simp: transfer_guard_def parties_ok_def token_has_def)
  obtain T' where T': "transfer C y f t q m (c_token ch) = Inr (T', [f, t])"
      "\<And>n c. balance_of T' n c = balance_of (c_token ch) n c + moved f t q n c"
    using transfer_succeeds [OF C T g] by metis
  have "ontransfer C (y\<lparr>self := reward_account\<rparr>) n t q m r = Inr r" for n r using ft(2) by (simp add: ontransfer_def)
  then have "run_transfer C y f t q m ch = Inr (ch\<lparr>c_token := T'\<rparr>)"
    using T'(1) ft(2) by (simp add: run_transfer_def)
  then show ?thesis using T'(2) by blast
qed

lemma same_votes:
  assumes "voting_inv C H s" "reward_inv C r" "ballot_rew r = ballot_sys s" "tfind (s_producers s) q = Some p"
  shows "p_votes (prow (Reward.core_symbol r) (rs_producers r) q) = pi_total_votes p"
proof -
  let ?g = "\<lambda>n. if q \<in> set (snd (ballot_sys s n)) then fst (ballot_sys s n) else 0"
  have L: "ledger_ok (Reward.core_symbol r) (a_amount (gstate r)) (rs_voters r) (rs_producers r) (\<lambda>_. 0)"
    using assms(2) by (simp add: reward_inv_def)
  have "tsum (vote_share q) (rs_voters r) = (\<Sum>n | ?g n \<noteq> 0. ?g n)"
    using assms(3) [symmetric] ledger_tables [OF L]
    by (intro tsum_support) (auto simp: ballot_rew_def vote_share_mem split: option.split)
  moreover have "tsum (backing q) (s_voters s) = (\<Sum>n | ?g n \<noteq> 0. ?g n)"
    using assms(1) by (intro tsum_support) (auto simp: ballot_sys_def backing_def voting_inv_def votes_ok_def split: option.split)
  ultimately show ?thesis
    using ledger_votes [OF L, of q] votes_ok_producer [of _ _ _ q p] assms(1,4) by (auto simp: voting_inv_def)
qed

section \<open>A sample chain\<close>

text \<open>
  Alice issues 1000 units and stakes 300 of them for producer Bob, who then shares a reward of 100
  with his voters. Carol stakes 50. After the election has been activated Alice withdraws 100 of her
  votes. Bob bids 5 units for the name x and Carol outbids him with 8.
\<close>

definition premium :: name where "premium = 0xe800000000000000" \<comment> \<open>the name x\<close>

definition demo_at :: "int \<Rightarrow> name list \<Rightarrow> ctx" where
  "demo_at seconds ns = (demo_ctx system_account ns)
     \<lparr>now := 1700000000000000 + seconds * 1000000, is_account := \<lambda>n. n \<noteq> premium\<rparr>"

definition demo_mint :: token_state where
  "demo_mint = \<lparr>ts_accounts = [(Scoped alice (sym_code demo_symbol), \<lparr>acc_balance = mk_asset 1000 demo_symbol\<rparr>)],
     ts_stats = [(sym_code demo_symbol, \<lparr>st_supply = mk_asset 1000 demo_symbol,
                    st_max_supply = mk_asset 1000 demo_symbol, st_issuer = alice\<rparr>)]\<rparr>"

fun chain_run :: "cdt \<Rightarrow> host \<Rightarrow> (ctx \<times> chain_action) list \<Rightarrow> chain \<Rightarrow> chain option" where
  "chain_run C H [] ch = Some ch"
| "chain_run C H ((x, a) # as) ch =
     (if user_ctx x \<and> user_act x a ch then case chain_exec C H x a ch of Inl _ \<Rightarrow> None | Inr ch' \<Rightarrow> chain_run C H as ch'
      else None)"

lemma chain_run_reachable: "chain_run C H as ch = Some ch' \<Longrightarrow> chain_reachable C H ch \<Longrightarrow> chain_reachable C H ch'"
proof (induction as arbitrary: ch)
  case (Cons xa as)
  obtain x a where xa: "xa = (x, a)" by (cases xa)
  from Cons.prems(1) obtain ch1 where "user_ctx x" "user_act x a ch" "chain_exec C H x a ch = Inr ch1" "chain_run C H as ch1 = Some ch'"
    by (auto simp: xa split: if_splits sum.splits simp del: chain_exec.simps)
  then show ?case using Cons.IH chain_reachable.transacted [OF Cons.prems(2)] by blast
qed simp

definition demo_launch :: "chain res" where
  "demo_launch = chain_exec cdt_ref demo_host (demo_ctx system_account [system_account]) (System_act (Sys_init 0 demo_symbol))
     \<lparr>c_token = demo_mint, c_reward = reward_empty, c_system = system_empty\<rparr>"

definition demo_transactions :: "(ctx \<times> chain_action) list" where
  "demo_transactions =
    [(demo_ctx system_account [bob], System_act (Sys_regproducer bob [1] [] 0 None)),
     (demo_ctx system_account [alice], System_act (Sys_addvote alice (mk_asset 300 demo_symbol))),
     (demo_ctx system_account [alice], System_act (Sys_voteproducer 0 1000 alice [bob])),
     (demo_ctx token_account [alice], Token_act (Transfer alice bob (mk_asset 400 demo_symbol) [])),
     (demo_ctx token_account [bob], Token_act (Transfer bob reward_account (mk_asset 100 demo_symbol) [])),
     (demo_ctx token_account [alice], Token_act (Transfer alice carol (mk_asset 60 demo_symbol) [])),
     (demo_ctx system_account [carol], System_act (Sys_addvote carol (mk_asset 50 demo_symbol))),
     (demo_at 0 [system_account],
        System_act (Sys_cfgelection 1700000001000000 1700000001000000 (mk_asset 8 demo_symbol))),
     (demo_at 10 [alice], System_act (Sys_subvote alice (mk_asset 100 demo_symbol))),
     (demo_at 11 [bob], System_act (Sys_bidname bob premium (mk_asset 5 demo_symbol))),
     (demo_at 12 [carol], System_act (Sys_bidname carol premium (mk_asset 8 demo_symbol)))]"

definition demo_chain :: chain where
  "demo_chain =
  \<lparr>c_token = \<lparr>ts_accounts = [(Scoped alice (sym_code demo_symbol),
      \<lparr>acc_balance = mk_asset 240 demo_symbol\<rparr>), (Scoped bob (sym_code demo_symbol),
      \<lparr>acc_balance = mk_asset 295 demo_symbol\<rparr>), (Scoped carol (sym_code demo_symbol),
      \<lparr>acc_balance = mk_asset 2 demo_symbol\<rparr>), (Scoped gas_account (sym_code demo_symbol),
      \<lparr>acc_balance = mk_asset 0 demo_symbol\<rparr>), (Scoped names_account (sym_code demo_symbol),
      \<lparr>acc_balance = mk_asset 13 demo_symbol\<rparr>), (Scoped reward_account (sym_code demo_symbol),
      \<lparr>acc_balance = mk_asset 100 demo_symbol\<rparr>), (Scoped vote_account (sym_code demo_symbol),
      \<lparr>acc_balance = mk_asset 350 demo_symbol\<rparr>)], ts_stats = [(sym_code demo_symbol,
      \<lparr>st_supply = mk_asset 1000 demo_symbol, st_max_supply = mk_asset 1000 demo_symbol,
      st_issuer = alice\<rparr>)]\<rparr>, c_reward = \<lparr>rs_global = Some (mk_asset 100 demo_symbol),
      rs_voters = [(alice, \<lparr>v_owner = alice, v_votes = 200, v_producers = [(bob,
      333333333333333333)], v_unclaimed_rewards = mk_asset 99 demo_symbol,
      v_claimed_rewards = mk_asset 0 demo_symbol, v_update_at = 1506630420\<rparr>), (carol,
      \<lparr>v_owner = carol, v_votes = 50, v_producers = [], v_unclaimed_rewards = mk_asset 0 demo_symbol,
      v_claimed_rewards = mk_asset 0 demo_symbol, v_update_at = 1506630400\<rparr>)], rs_producers = [(bob,
      \<lparr>p_owner = bob, p_is_registered = True, p_total_rewards = mk_asset 100 demo_symbol,
      p_allocating_rewards = mk_asset 1 demo_symbol, p_allocated_rewards = mk_asset 99 demo_symbol,
      p_votes = 200, p_rewards_per_vote = 333333333333333333, p_update_at = 1506630420\<rparr>)]\<rparr>,
      c_system = \<lparr>sg = Some \<lparr>g_params = \<lparr>parameters_before = replicate 16 [0],
      max_authority_depth = 6, parameters_after = replicate 4 [0]\<rparr>,
      g_total_vote_stake = mk_asset 250 demo_symbol, g_max_ram_size = 68719476736,
      g_total_ram_bytes_reserved = 0, g_total_ram_stake = 0, g_election_activated_time = 1700000001000000,
      g_reward_started_time = 1700000001000000, g_initial_rewards_per_block = mk_asset 8 demo_symbol,
      g_total_produced_rewards = mk_asset 0 demo_symbol, g_total_unclaimed_rewards = mk_asset 0 demo_symbol,
      g_last_producer_schedule_size = 0, g_last_producer_schedule_update = 0, g_last_name_close = 0,
      g_revision = 0\<rparr>, s_voters = [(alice, \<lparr>vi_owner = alice, vi_producers = [bob],
      vi_votes = 200, vi_last_unvoted_time = 1506630420, vi_revision = 0\<rparr>), (carol,
      \<lparr>vi_owner = carol, vi_producers = [], vi_votes = 50, vi_last_unvoted_time = 0,
      vi_revision = 0\<rparr>)], s_producers = [(bob, \<lparr>pi_owner = bob, pi_total_votes = 200,
      pi_producer_key = [1], pi_is_active = True, pi_url = [],
      pi_unclaimed_rewards = mk_asset 0 demo_symbol, pi_last_claim_time = 1700000000000000, pi_location = 0,
      pi_producer_authority = \<lparr>bsa_threshold = 1, bsa_keys = [([1], 1)]\<rparr>,
      pi_reward_shared_ratio = 0, pi_revision = 0\<rparr>)], s_vote_refunds = [(alice,
      \<lparr>vr_owner = alice, vr_request_time = 1700000010,
      vr_vote_staked = mk_asset 100 demo_symbol\<rparr>)], s_finalizer_keys = [], s_finalizers = [],
      s_last_prop_finalizers = None, s_fin_key_id_generator = None, s_name_bids = [(premium,
      \<lparr>nb_newname = premium, nb_high_bidder = carol, nb_high_bid = 8,
      nb_last_bid_time = 1700000012000000\<rparr>)], s_bid_refunds = [(Scoped premium bob,
      \<lparr>br_bidder = bob, br_amount = mk_asset 5 demo_symbol\<rparr>)], s_block_info = [],
      s_creators = [], s_abi_hash = [], s_limit_auth = [], s_idle_block_interval_ms = None\<rparr>\<rparr>"

lemma demo_chain_runs:
  "(case demo_launch of Inl _ \<Rightarrow> None | Inr ch \<Rightarrow> chain_run cdt_ref demo_host demo_transactions ch) = Some demo_chain"
  by code_simp

lemma demo_mint_reachable: "token_reachable cdt_ref demo_mint"
proof -
  let ?y = "demo_ctx token_account [token_account]" and ?z = "demo_ctx token_account [alice]"
  have e: "rbind (token_exec cdt_ref ?y (Create alice (mk_asset 1000 demo_symbol)) token_empty)
      (token_exec cdt_ref ?z (Issue alice (mk_asset 1000 demo_symbol) [])) = Inr demo_mint" by code_simp
  then obtain s1 where "token_exec cdt_ref ?y (Create alice (mk_asset 1000 demo_symbol)) token_empty = Inr s1"
    "token_exec cdt_ref ?z (Issue alice (mk_asset 1000 demo_symbol) []) s1 = Inr demo_mint"
    unfolding rbind_eq_Inr by blast
  then show ?thesis using token_reachable.token_step token_start by metis
qed

lemma demo_chain_reachable: "chain_reachable cdt_ref demo_host demo_chain"
proof -
  obtain ch0 where l: "demo_launch = Inr ch0" and r: "chain_run cdt_ref demo_host demo_transactions ch0 = Some demo_chain"
    using demo_chain_runs by (cases demo_launch rule: sum.exhaust) (auto split: sum.splits)
  have u: "user_ctx (demo_ctx system_account [system_account])" by code_simp
  have "chain_reachable cdt_ref demo_host ch0"
    by (rule chain_reachable.launched [OF demo_mint_reachable u l [unfolded demo_launch_def]])
  from chain_run_reachable [OF r this] show ?thesis .
qed

section \<open>Properties\<close>

text \<open>C1: the money is there. In every reachable state of the chain the account \<open>flon.vote\<close> holds at
  least all stakes and pending refunds, \<open>flon.names\<close> all open bids and the refunds of outbid
  bidders, and \<open>flon.reward\<close> everything that all voters together could claim.\<close>
theorem custody_backed:
  assumes "cdt_laws C" "chain_reachable C H ch"
  shows "a_amount (stake H (c_system ch)) + tsum (\<lambda>_ r. a_amount (vr_vote_staked r)) (s_vote_refunds (c_system ch))
       \<le> core_balance H ch vote_account
     \<and> tsum open_bid (s_name_bids (c_system ch)) + tsum (\<lambda>_ r. a_amount (br_amount r)) (s_bid_refunds (c_system ch))
       \<le> core_balance H ch names_account
     \<and> tsum (\<lambda>_. claimable (core_of H ch) (rs_producers (c_reward ch))) (rs_voters (c_reward ch))
       \<le> core_balance H ch reward_account"
proof -
  have I: "chain_inv C H ch" by (rule chain_reachable_inv [OF assms])
  then have R: "reward_inv C (c_reward ch)" "Reward.core_symbol (c_reward ch) = core_of H ch" and B: "backed H ch"
    by (simp_all add: chain_inv_def parties_ok_def)
  show ?thesis using B claims_covered [OF R(1)] R(2) by (simp add: backed_def held_def held_names_def reward_owed_def)
qed

theorem custody_backed_witness:
  "a_amount (stake demo_host (c_system demo_chain))
      + tsum (\<lambda>_ r. a_amount (vr_vote_staked r)) (s_vote_refunds (c_system demo_chain))
      \<le> core_balance demo_host demo_chain vote_account
   \<and> a_amount (stake demo_host (c_system demo_chain)) = 250 \<and> core_balance demo_host demo_chain vote_account = 350
   \<and> core_balance demo_host demo_chain reward_account = 100"
proof -
  have "a_amount (stake demo_host (c_system demo_chain)) = 250" by code_simp
  moreover have "core_balance demo_host demo_chain vote_account = 350" by code_simp
  moreover have "core_balance demo_host demo_chain reward_account = 100" by code_simp
  ultimately show ?thesis using custody_backed [OF ref.laws demo_chain_reachable] by blast
qed

text \<open>C2: the votes agree. In every reachable state the reward contract knows every voter of the
  system contract with the same votes and the same producers, and every producer with the same total.\<close>
theorem votes_mirrored:
  assumes "cdt_laws C" "chain_reachable C H ch"
  shows "ballot_rew (c_reward ch) = ballot_sys (c_system ch)
     \<and> (\<forall>q p. tfind (s_producers (c_system ch)) q = Some p \<longrightarrow>
          p_votes (prow (core_of H ch) (rs_producers (c_reward ch)) q) = pi_total_votes p)"
proof -
  have "chain_inv C H ch" by (rule chain_reachable_inv [OF assms])
  then have I: "voting_inv C H (c_system ch)" "reward_inv C (c_reward ch)" "ballot_rew (c_reward ch) = ballot_sys (c_system ch)"
    and co: "Reward.core_symbol (c_reward ch) = core_of H ch"
    by (simp_all add: chain_inv_def parties_ok_def sys_inv_def mirrored_def)
  show ?thesis using same_votes [OF I] I(3) co by simp
qed

theorem votes_mirrored_witness:
  "ballot_rew (c_reward demo_chain) alice = ballot_sys (c_system demo_chain) alice
   \<and> ballot_sys (c_system demo_chain) alice = (200, [bob])"
proof -
  have "ballot_sys (c_system demo_chain) alice = (200, [bob])" by code_simp
  then show ?thesis using votes_mirrored [OF ref.laws demo_chain_reachable] by simp
qed

text \<open>C10: the reward contract has no veto. In a reachable state a vote is accepted by the whole chain
  exactly when the checks of the system contract pass: the voter signed, at most 30 producers in
  strictly increasing order, a change, and every producer registered and, if the voter has
  votes, active.\<close>
theorem vote_not_vetoed:
  assumes "cdt_laws C" "chain_reachable C H ch" "user_ctx x" "tfind (s_voters (c_system ch)) n = Some v"
    "disjoint_buffers po (vi_producers v) pn ns"
  shows "(\<exists>ch'. chain_exec C H x (System_act (Sys_voteproducer po pn n ns)) ch = Inr ch') \<longleftrightarrow>
     has_auth x n \<and> length ns \<le> 30 \<and> ascending ns \<and> vi_producers v \<noteq> ns
     \<and> (\<forall>q \<in> set ns. \<exists>p. tfind (s_producers (c_system ch)) q = Some p \<and> (0 < vi_votes v \<longrightarrow> pi_is_active p))"
proof -
  let ?y = "on x system_account (auths x)" and ?S = "c_system ch"
  have I: "chain_inv C H ch" by (rule chain_reachable_inv [OF assms(1,2)])
  then have V: "voting_inv C H ?S" by (simp add: chain_inv_def parties_ok_def sys_inv_def)
  note iff = voteproducer_Inr [OF V assms(4,5), of ?y]
  have adm: "sys_admissible (Sys_voteproducer po pn n ns) ?S" using assms(4,5) by simp
  have "(\<exists>ch'. chain_exec C H x (System_act (Sys_voteproducer po pn n ns)) ch = Inr ch')
      \<longleftrightarrow> (\<exists>r. Voting.voteproducer C H ?y po pn n ns ?S = Inr r)"
  proof
    assume "\<exists>r. Voting.voteproducer C H ?y po pn n ns ?S = Inr r"
    then obtain s es where "sys_exec C H ?y (c_token ch) (c_reward ch) (Sys_voteproducer po pn n ns) ?S = Inr (s, es)"
      by (auto simp: stored_def)
    then show "\<exists>ch'. chain_exec C H x (System_act (Sys_voteproducer po pn n ns)) ch = Inr ch'"
      using vote_step [OF assms(1) I assms(3) adm] by (simp only: chain_exec.simps rbind_simps split) blast
  qed (auto simp: stored_def)
  then show ?thesis unfolding iff by (auto simp: votable_def max_vote_producer_count_def)
qed

theorem vote_not_vetoed_witness:
  "\<exists>ch'. chain_exec cdt_ref demo_host (demo_at 20 [carol]) (System_act (Sys_voteproducer 0 1000 carol [bob])) demo_chain = Inr ch'"
proof -
  let ?v = "the (tfind (s_voters (c_system demo_chain)) carol)" and ?p = "the (tfind (s_producers (c_system demo_chain)) bob)"
  have v: "tfind (s_voters (c_system demo_chain)) carol = Some ?v" by code_simp
  have p: "tfind (s_producers (c_system demo_chain)) bob = Some ?p" by code_simp
  have u: "user_ctx (demo_at 20 [carol])" by code_simp
  have d: "disjoint_buffers 0 (vi_producers ?v) 1000 [bob]" by code_simp
  have "has_auth (demo_at 20 [carol]) carol" "ascending [bob]" "vi_producers ?v \<noteq> [bob]" "pi_is_active ?p" by code_simp+
  moreover from this p have "\<forall>q \<in> set [bob]. \<exists>p. tfind (s_producers (c_system demo_chain)) q = Some p \<and> (0 < vi_votes ?v \<longrightarrow> pi_is_active p)"
    by (metis empty_iff empty_set set_ConsD)
  ultimately show ?thesis using vote_not_vetoed [OF ref.laws demo_chain_reachable u v d] by (simp del: chain_exec.simps)
qed

text \<open>C11: withdrawing votes is not vetoed either, and it needs no tokens: in a reachable state it is
  accepted exactly when the system contract's checks pass. The stake is then pending as a refund.\<close>
theorem unstake_not_vetoed:
  assumes "cdt_laws C" "chain_reachable C H ch" "user_ctx x"
  shows "(\<exists>ch'. chain_exec C H x (System_act (Sys_subvote n q)) ch = Inr ch') \<longleftrightarrow>
     has_auth x n \<and> election_active H x (c_system ch) \<and> a_symbol q = core_of H ch \<and> 0 < a_amount q
     \<and> tfind (s_vote_refunds (c_system ch)) n = None
     \<and> (\<exists>v. tfind (s_voters (c_system ch)) n = Some v \<and> a_amount q \<le> vi_votes v)"
proof -
  let ?y = "on x system_account (auths x)" and ?S = "c_system ch"
  have I: "chain_inv C H ch" by (rule chain_reachable_inv [OF assms(1,2)])
  then have V: "voting_inv C H ?S" and sy: "symbol_is_valid C (core_of H ch)"
    using parties_valid by (auto simp: chain_inv_def parties_ok_def sys_inv_def)
  have "(\<exists>ch'. chain_exec C H x (System_act (Sys_subvote n q)) ch = Inr ch') \<longleftrightarrow> (\<exists>r. Voting.subvote C H ?y n q ?S = Inr r)"
  proof
    assume "\<exists>r. Voting.subvote C H ?y n q ?S = Inr r"
    then obtain s es where "sys_exec C H ?y (c_token ch) (c_reward ch) (Sys_subvote n q) ?S = Inr (s, es)"
      by (auto simp: stored_def)
    then show "\<exists>ch'. chain_exec C H x (System_act (Sys_subvote n q)) ch = Inr ch'"
      using unstake_step [OF assms(1) I assms(3)] by (simp only: chain_exec.simps rbind_simps split) blast
  qed (auto simp: stored_def)
  then show ?thesis unfolding subvote_Inr [OF assms(1) V] using sy by (auto simp: election_active_def)
qed

theorem unstake_not_vetoed_witness:
  "\<exists>ch'. chain_exec cdt_ref demo_host (demo_at 20 [carol]) (System_act (Sys_subvote carol (mk_asset 50 demo_symbol))) demo_chain = Inr ch'"
proof -
  let ?v = "the (tfind (s_voters (c_system demo_chain)) carol)"
  have v: "tfind (s_voters (c_system demo_chain)) carol = Some ?v" by code_simp
  have u: "user_ctx (demo_at 20 [carol])" by code_simp
  have "has_auth (demo_at 20 [carol]) carol" "election_active demo_host (demo_at 20 [carol]) (c_system demo_chain)"
    "core_of demo_host demo_chain = demo_symbol" "tfind (s_vote_refunds (c_system demo_chain)) carol = None" "50 \<le> vi_votes ?v"
    by code_simp+
  moreover from this v have "\<exists>v. tfind (s_voters (c_system demo_chain)) carol = Some v \<and> 50 \<le> vi_votes v" by blast
  ultimately show ?thesis using unstake_not_vetoed [OF ref.laws demo_chain_reachable u] by (simp del: chain_exec.simps)
qed

text \<open>A refund is paid. Three days after the request anybody can have the stake paid out: the
  transaction succeeds whatever else happened in between, the voter's balance grows by the
  stake and the refund is gone.\<close>
lemma refund_paid:
  assumes "cdt_laws C" "chain_reachable C H ch" "user_ctx x" "tfind (s_vote_refunds (c_system ch)) n = Some r"
    "uint (vr_request_time r) * 1000000 + 3 * 24 * 3600 * 1000000 \<le> now x"
    "n \<noteq> vote_account" "n \<noteq> reward_account" "is_account x n"
  shows "\<exists>ch'. chain_exec C H x (System_act (Sys_voterefund n)) ch = Inr ch'
     \<and> core_balance H ch' n = core_balance H ch n + a_amount (vr_vote_staked r)
     \<and> tfind (s_vote_refunds (c_system ch')) n = None"
proof -
  let ?y = "on x system_account (auths x)" and ?S = "c_system ch"
  let ?z = "on x token_account [(vote_account, active_permission)]"
  define s where "s = ?S\<lparr>s_vote_refunds := terase n (s_vote_refunds ?S), sg := Some (gs H ?S)\<rparr>"
  have I: "chain_inv C H ch" by (rule chain_reachable_inv [OF assms(1,2)])
  then have P: "parties_ok C H ch" and V: "voting_inv C H ?S" and B: "held H ?S \<le> core_balance H ch vote_account"
    by (simp_all add: chain_inv_def parties_ok_def sys_inv_def backed_def)
  note ri = voterefund_inv [OF V assms(4)]
  have pos: "0 < a_amount (vr_vote_staked r)" using V assms(4) by (auto simp: voting_inv_def refunds_ok_def)
  have run: "sys_exec C H ?y (c_token ch) (c_reward ch) (Sys_voterefund n) ?S
      = Inr (s, [Send (Token_transfer [(vote_account, active_permission)] vote_account n (vr_vote_staked r) ''voterefund'')])"
    using assms(4,5) ri(3) by (simp add: stored_def Voting.voterefund_def refund_delay_sec_def seconds_per_day_def s_def)
  have st: "step_ok C H ?S s [Send (Token_transfer [(vote_account, active_permission)] vote_account n (vr_vote_staked r) ''voterefund'')]"
    using sys_exec_ok [OF assms(1) _ user_custody [OF assms(3)] _ run] P by (simp add: parties_ok_def)
  note ps = parties_step [OF P st]
  obtain T' where tr: "run_transfer C ?z vote_account n (vr_vote_staked r) ''voterefund'' (ch\<lparr>c_system := s\<rparr>) = Inr (ch\<lparr>c_system := s, c_token := T'\<rparr>)"
    and bal: "\<And>k c. balance_of T' k c = balance_of (c_token ch) k c + moved vote_account n (vr_vote_staked r) k c"
    using affordable_transfer [OF assms(1) ps(1), of ?z vote_account n "vr_vote_staked r" "''voterefund''"]
      assms(6-8) ri(4) pos ps(2) owed_refund_le [OF V assms(4)] B by auto
  have "chain_exec C H x (System_act (Sys_voterefund n)) ch = Inr (ch\<lparr>c_system := s, c_token := T'\<rparr>)"
    unfolding chain_exec.simps run by (simp add: tr)
  then show ?thesis
    using bal [of n] assms(6) ri(4) ps(2) by (auto simp: moved_def s_def tfind_terase)
qed

lemma refund_paid_example:
  "\<exists>ch'. chain_exec cdt_ref demo_host (demo_at 300000 [bob]) (System_act (Sys_voterefund alice)) demo_chain = Inr ch'
     \<and> core_balance demo_host ch' alice = core_balance demo_host demo_chain alice + 100
     \<and> tfind (s_vote_refunds (c_system ch')) alice = None"
proof -
  let ?r = "the (tfind (s_vote_refunds (c_system demo_chain)) alice)"
  have r: "tfind (s_vote_refunds (c_system demo_chain)) alice = Some ?r" by code_simp
  have q: "a_amount (vr_vote_staked ?r) = 100" by code_simp
  have u: "user_ctx (demo_at 300000 [bob])" by code_simp
  have t: "uint (vr_request_time ?r) * 1000000 + 3 * 24 * 3600 * 1000000 \<le> now (demo_at 300000 [bob])" by code_simp
  have n: "alice \<noteq> vote_account" "alice \<noteq> reward_account" "is_account (demo_at 300000 [bob]) alice" by code_simp+
  show ?thesis using refund_paid [OF ref.laws demo_chain_reachable u r t n] q by simp
qed

text \<open>C7: a claim is paid. In a reachable state a voter to whom rewards are owed can claim them: the
  transaction succeeds and its balance grows by exactly that amount.\<close>
theorem claim_paid:
  assumes "cdt_laws C" "chain_reachable C H ch" "has_auth x n" "n \<noteq> reward_account" "is_account x n"
    "tfind (rs_voters (c_reward ch)) n = Some v" "0 < claimable (core_of H ch) (rs_producers (c_reward ch)) v"
  shows "\<exists>ch'. chain_exec C H x (Reward_act (Call_claimrewards n)) ch = Inr ch'
     \<and> core_balance H ch' n = core_balance H ch n + claimable (core_of H ch) (rs_producers (c_reward ch)) v
     \<and> (\<forall>m. m \<noteq> n \<and> m \<noteq> reward_account \<longrightarrow> core_balance H ch' m = core_balance H ch m)"
proof -
  let ?y = "on x reward_account (auths x)" and ?R = "c_reward ch" and ?z = "on x token_account [(reward_account, active_permission)]"
  let ?pay = "claimable (core_of H ch) (rs_producers ?R) v"
  have I: "chain_inv C H ch" by (rule chain_reachable_inv [OF assms(1,2)])
  then have P: "parties_ok C H ch" and G: "reward_inv C ?R" and co: "Reward.core_symbol ?R = core_of H ch"
    and B: "reward_owed ?R \<le> core_balance H ch reward_account"
    by (simp_all add: chain_inv_def parties_ok_def backed_def)
  obtain R outs where cl: "claim_rewards C ?y n ?R = Inr (R, outs)"
    using claim_rewards_ok [OF assms(1) G assms(6), of ?y] assms(7) co by auto
  obtain R1: "reward_inv C R" "Reward.core_symbol R = core_of H ch"
    and outs: "outs = [Token_transfer [(reward_account, active_permission)] reward_account n (mk_asset ?pay (core_of H ch)) ''voted rewards'']"
    by (rule claim_step [OF assms(1) I cl]) (use assms(6) in auto)
  have P1: "parties_ok C H (ch\<lparr>c_reward := R\<rparr>)" using P R1 by (simp add: parties_ok_def)
  have le: "?pay \<le> core_balance H ch reward_account" using owed_claim_le [OF G assms(6)] co B by simp
  obtain T' where tr: "run_transfer C ?z reward_account n (mk_asset ?pay (core_of H ch)) ''voted rewards'' (ch\<lparr>c_reward := R\<rparr>)
        = Inr (ch\<lparr>c_reward := R, c_token := T'\<rparr>)"
    and bal: "\<And>k c. balance_of T' k c = balance_of (c_token ch) k c + moved reward_account n (mk_asset ?pay (core_of H ch)) k c"
    using affordable_transfer [OF assms(1) P1, of ?z reward_account n "mk_asset ?pay (core_of H ch)" "''voted rewards''"] assms(4,5,7) le
    by auto
  have "check_init C ?R" using G by (simp add: reward_inv_def check_init_def)
  then have "chain_exec C H x (Reward_act (Call_claimrewards n)) ch = Inr (ch\<lparr>c_reward := R, c_token := T'\<rparr>)"
    using cl assms(3) by (simp add: Reward.claimrewards_def outs tr)
  then show ?thesis using bal assms(4) by (auto simp: moved_def)
qed

theorem claim_paid_witness:
  "\<exists>ch'. chain_exec cdt_ref demo_host (demo_at 20 [alice]) (Reward_act (Call_claimrewards alice)) demo_chain = Inr ch'
     \<and> core_balance demo_host ch' alice = core_balance demo_host demo_chain alice + 99"
proof -
  let ?v = "the (tfind (rs_voters (c_reward demo_chain)) alice)"
  have v: "tfind (rs_voters (c_reward demo_chain)) alice = Some ?v" by code_simp
  have q: "claimable (core_of demo_host demo_chain) (rs_producers (c_reward demo_chain)) ?v = 99" by code_simp
  then have p: "0 < claimable (core_of demo_host demo_chain) (rs_producers (c_reward demo_chain)) ?v" by linarith
  have n: "has_auth (demo_at 20 [alice]) alice" "alice \<noteq> reward_account" "is_account (demo_at 20 [alice]) alice" by code_simp+
  show ?thesis using claim_paid [OF ref.laws demo_chain_reachable n v p] q by auto
qed

end
