(* ===== verification/Frames.thy ===== *)
theory Frames
  imports Chain_Props
begin

text \<open>
  What a transaction leaves alone. Many properties follow one part of the tables of \<open>flon.system\<close> through the
  transactions of the chain: only few actions are meant to change it. The locale \<open>system_frame\<close> carries
  such a fact from the actions of the contract over inline actions, notifications and sequences of transactions.
\<close>

lemma storedD: "stored H r = Inr (s', es) \<Longrightarrow> \<exists>s1. r = Inr (s1, es) \<and> s' = s1\<lparr>sg := Some (gs H s1)\<rparr>"
  by (auto simp: stored_def)

lemma run_transfer_system: "run_transfer C x f t q m ch = Inr ch' \<Longrightarrow> c_system ch' = c_system ch"
  by (auto simp: run_transfer_def)

locale system_frame =
  fixes C :: cdt and H :: host
    and keeps :: "sys_state \<Rightarrow> sys_state \<Rightarrow> bool"
    and special :: "sys_action \<Rightarrow> bool"
  assumes keeps_refl: "keeps s s"
    and keeps_trans: "keeps s s1 \<Longrightarrow> keeps s1 s2 \<Longrightarrow> keeps s s2"
    and keeps_exec: "\<not> special a \<Longrightarrow> sys_exec C H x T R a s = Inr (s', es) \<Longrightarrow> keeps s s'"
    and log_plain: "\<not> special (Sys_logsystemfee p q m)"
begin

lemma inline_keeps: "run_inline C H x a ch = Inr ch' \<Longrightarrow> keeps (c_system ch) (c_system ch')"
proof (cases a)
  case (System_logsystemfee au p q m)
  assume "run_inline C H x a ch = Inr ch'"
  then obtain s es where "sys_exec C H (on x system_account au) (c_token ch) (c_reward ch) (Sys_logsystemfee p q m) (c_system ch) = Inr (s, es)"
    "c_system ch' = s" unfolding System_logsystemfee by (auto simp del: sys_exec.simps)
  then show ?thesis using keeps_exec [OF log_plain] by simp
qed (auto simp: run_reward_def keeps_refl dest!: run_transfer_system)

lemma effect_keeps: "run_effect C H x e ch = Inr ch' \<Longrightarrow> keeps (c_system ch) (c_system ch')"
  by (cases e) (auto simp: keeps_refl dest: inline_keeps)

lemma rfold_keeps:
  assumes "rfold f es ch = Inr ch'" "\<And>e u v. f e u = Inr v \<Longrightarrow> keeps (c_system u) (c_system v)"
  shows "keeps (c_system ch) (c_system ch')"
  using rfold_invariant [OF assms(1), where P = "\<lambda>u. keeps (c_system ch) (c_system u)"] assms(2) keeps_trans keeps_refl by blast

text \<open>A transaction keeps the part, or it is a special action that does its work.\<close>

lemma chain_exec_frame:
  assumes "chain_exec C H x a ch = Inr ch'"
  shows "keeps (c_system ch) (c_system ch') \<or> (\<exists>b s es. a = System_act b \<and> special b
     \<and> sys_exec C H (on x system_account (auths x)) (c_token ch) (c_reward ch) b (c_system ch) = Inr (s, es)
     \<and> keeps s (c_system ch'))"
proof (cases a)
  case (Token_act t)
  then have "c_system ch' = c_system ch" using assms by (cases t) (auto dest!: run_transfer_system)
  then show ?thesis by (simp add: keeps_refl)
next
  case (Reward_act r)
  then obtain R outs where "rfold (run_inline C H x) outs (ch\<lparr>c_reward := R\<rparr>) = Inr ch'" using assms by auto
  from rfold_keeps [OF this inline_keeps] show ?thesis by simp
next
  case (System_act b)
  then obtain s es where r: "sys_exec C H (on x system_account (auths x)) (c_token ch) (c_reward ch) b (c_system ch) = Inr (s, es)"
    "rfold (run_effect C H x) es (ch\<lparr>c_system := s\<rparr>) = Inr ch'" using assms by auto
  have k: "keeps s (c_system ch')" using rfold_keeps [OF r(2) effect_keeps] by simp
  show ?thesis
  proof (cases "special b")
    case False
    then show ?thesis using keeps_exec [OF False r(1)] k keeps_trans by blast
  qed (use System_act r(1) k in blast)
qed

lemma chain_exec_plain:
  "chain_exec C H x a ch = Inr ch' \<Longrightarrow> (\<And>b. a = System_act b \<Longrightarrow> \<not> special b) \<Longrightarrow> keeps (c_system ch) (c_system ch')"
  using chain_exec_frame by blast

end

end
