(* ===== verification/System_Props.thy ===== *)
theory System_Props
  imports Frames
begin

text \<open>
  What holds for names, authority limits, the election schedule, block rewards and gas: the rules
  an account or the network has set stay in force until the action that is meant to change them.
\<close>

section \<open>Rules that stay in force\<close>

definition rules_kept :: "host \<Rightarrow> sys_state \<Rightarrow> sys_state \<Rightarrow> bool" where
  "rules_kept H s s' \<longleftrightarrow> s_limit_auth s' = s_limit_auth s
     \<and> g_election_activated_time (gs H s') = g_election_activated_time (gs H s)
     \<and> g_reward_started_time (gs H s') = g_reward_started_time (gs H s)"

lemma rules_kept_refl [simp]: "rules_kept H s s"
  by (simp add: rules_kept_def)

lemma rules_kept_trans: "rules_kept H s s1 \<Longrightarrow> rules_kept H s1 s' \<Longrightarrow> rules_kept H s s'"
  by (simp add: rules_kept_def)

lemma stored_rules: "stored H r = Inr (s', es) \<Longrightarrow> (\<And>s1. r = Inr (s1, es) \<Longrightarrow> rules_kept H s s1) \<Longrightarrow> rules_kept H s s'"
  by (auto simp: stored_def rules_kept_def)

lemma gs_other [simp]:
  "gs H (s\<lparr>s_creators := c\<rparr>) = gs H s" "gs H (s\<lparr>s_abi_hash := a\<rparr>) = gs H s" "gs H (s\<lparr>s_limit_auth := l\<rparr>) = gs H s"
  "gs H (s\<lparr>s_idle_block_interval_ms := i\<rparr>) = gs H s"
  by (simp_all add: gs_def)

lemma vote_rules:
  "register_producer C H x R n a url loc ratio s = Inr (s', es) \<Longrightarrow> rules_kept H s s'"
  "Voting.unregprod H x n s = Inr (s', es) \<Longrightarrow> rules_kept H s s'"
  "Voting.rmvproducer H x n s = Inr (s', es) \<Longrightarrow> rules_kept H s s'"
  "Voting.voteproducer C H x po pn n ns s = Inr (s', es) \<Longrightarrow> rules_kept H s s'"
  "Voting.addvote C H x n q s = Inr (s', es) \<Longrightarrow> rules_kept H s s'"
  "Voting.subvote C H x n q s = Inr (s', es) \<Longrightarrow> rules_kept H s s'"
  "Voting.voterefund x n s = Inr (s', es) \<Longrightarrow> rules_kept H s s'"
  by (auto simp: register_producer_def Voting.unregprod_def Voting.rmvproducer_def Voting.voteproducer_def Voting.addvote_def
      Voting.subvote_def Voting.voterefund_def Let_def rules_kept_def split: option.splits if_splits prod.splits)

lemma proposed_rules: "set_proposed_finalizers H fins s = (s', es) \<Longrightarrow> rules_kept H s s'"
  by (auto simp: set_proposed_finalizers_def Let_def rules_kept_def split: if_splits)

lemma finalizer_rules:
  "regfinkey H x n k pop s = Inr (s', es) \<Longrightarrow> rules_kept H s s'"
  "delfinkey H x n k s = Inr (s', es) \<Longrightarrow> rules_kept H s s'"
  "switchtosvnn H x s = Inr (s', es) \<Longrightarrow> rules_kept H s s'"
  by (auto simp: regfinkey_def delfinkey_def switchtosvnn_def get_next_finalizer_key_id_def Let_def rules_kept_def
      split: option.splits if_splits prod.splits dest!: proposed_rules)

lemma actfinkey_rules:
  assumes "actfinkey H x n k s = Inr (s', es)"
  shows "rules_kept H s s'"
proof -
  have "\<exists>F. (s' = s\<lparr>s_finalizers := F\<rparr> \<and> es = []) \<or> (\<exists>l. set_proposed_finalizers H l (s\<lparr>s_finalizers := F\<rparr>) = (s', es))"
    using assms by (auto simp: actfinkey_def Let_def split: option.splits if_splits)
  then show ?thesis by (auto simp: rules_kept_def dest!: proposed_rules)
qed

lemma elected_rules: "update_elected_producers H t s = (s', es) \<Longrightarrow> rules_kept H s s'"
  unfolding update_elected_producers_def Let_def
  by (auto simp: rules_kept_def split: if_splits prod.splits dest!: proposed_rules)

lemma onblock_rules:
  assumes "onblock C H x ts p b s = Inr (s', es)"
  shows "rules_kept H s s'"
proof -
  have credit: "rules_kept H s0 s1" if "credit_producer H t p s0 = Inr s1" for t s0 s1
    using that by (auto simp: credit_producer_def Let_def rules_kept_def split: option.splits if_splits)
  have close: "rules_kept H s0 s1" if "close_auction C H x ts s0 = Inr (s1, fs)" for s0 s1 fs
    using that by (auto simp: close_auction_def rules_kept_def split: option.splits if_splits)
  obtain t where t: "add_to_blockinfo_table C b ts (s_block_info s) = Inr t" using assms by (auto simp: onblock_def)
  have b: "rules_kept H s (s\<lparr>s_block_info := t\<rparr>)" by (simp add: rules_kept_def)
  consider (idle) "s' = s\<lparr>s_block_info := t\<rparr>"
    | (step) s1 where "credit_producer H (slot_time C ts) p (s\<lparr>s_block_info := t\<rparr>) = Inr s1"
        "s' = s1 \<or> (\<exists>s2 es2. update_elected_producers H ts s1 = (s2, es2)
           \<and> (s' = s2 \<or> (\<exists>fs. close_auction C H x ts s2 = Inr (s', fs))))"
    using assms t unfolding onblock_def Let_def by (auto split: if_splits prod.splits)
  then show ?thesis
  proof cases
    case (step s1)
    have "rules_kept H s s1" using rules_kept_trans [OF b credit [OF step(1)]] .
    then show ?thesis using step(2) rules_kept_trans elected_rules close by blast
  qed (use b in simp)
qed

lemma name_rules:
  "bidname C H x n m q s = Inr (s', es) \<Longrightarrow> rules_kept H s s'" "bidrefund H x n m s = Inr (s', es) \<Longrightarrow> rules_kept H s s'"
  "newaccount C x n m s = Inr (s', es) \<Longrightarrow> rules_kept H s s'" "setabi H n abi s = Inr (s', es) \<Longrightarrow> rules_kept H s s'"
  "buygas C H x n m q s = Inr (s', es) \<Longrightarrow> rules_kept H s s'" "System_Admin.init C H x T v y s = Inr (s', es) \<Longrightarrow> rules_kept H s s'"
  by (auto simp: bidname_def bidrefund_def newaccount_def setabi_def buygas_def System_Admin.init_def Let_def rules_kept_def
      split: option.splits if_splits prod.splits)

lemma admin_rules:
  "setparams H x p m s = Inr (s', es) \<Longrightarrow> rules_kept H s s'" "setpriv x n b s = Inr (s', es) \<Longrightarrow> rules_kept H s s'"
  "setalimits H x n g u s = Inr (s', es) \<Longrightarrow> rules_kept H s s'" "activate x d s = Inr (s', es) \<Longrightarrow> rules_kept H s s'"
  "logsystemfee x n q memo s = Inr (s', es) \<Longrightarrow> rules_kept H s s'" "setibintervl x i s = Inr (s', es) \<Longrightarrow> rules_kept H s s'"
  "wasmcfg x n s = Inr (s', es) \<Longrightarrow> rules_kept H s s'"
  by (auto simp: admin_defs Let_def rules_kept_def split: if_splits prod.splits option.splits)

fun sets_rules :: "sys_action \<Rightarrow> bool" where
  "sets_rules (Sys_limitauthchg n al dis) = True"
| "sets_rules (Sys_cfgelection e r q) = True"
| "sets_rules _ = False"

lemma sys_exec_rules:
  assumes "\<not> sets_rules a" "sys_exec C H x T R a s = Inr (s', es)"
  shows "rules_kept H s s'"
proof (cases a)
  case (Sys_newaccount c n)
  with assms show ?thesis using name_rules(3) by simp
next
  case (Sys_setabi n abi)
  with assms show ?thesis using name_rules(4) by simp
next
  case Sys_onerror
  with assms show ?thesis by (simp add: onerror_def)
next
  case (Sys_claimrewards n)
  with assms show ?thesis by (simp add: stored_def Producer_Pay.claimrewards_def)
qed (use assms in \<open>auto elim!: stored_rules intro: vote_rules finalizer_rules actfinkey_rules onblock_rules name_rules admin_rules
      simp: Voting.regproducer_def regproducer2_def buygasself_def updateauth_def deleteauth_def linkauth_def unlinkauth_def\<close>)

text \<open>On the whole chain only the two actions change them.\<close>

interpretation rules: system_frame C H "rules_kept H" sets_rules for C H
  by unfold_locales (auto intro: rules_kept_trans sys_exec_rules simp del: sys_exec.simps)

section \<open>Authority limits\<close>

definition limit_row_ok :: "limit_auth_change \<Rightarrow> bool" where
  "limit_row_ok r \<longleftrightarrow> (la_allow_perms r = [] \<or> owner_permission \<in> set (la_allow_perms r))
     \<and> owner_permission \<notin> set (la_disallow_perms r)"

definition limits_ok :: "sys_state \<Rightarrow> bool" where
  "limits_ok s \<longleftrightarrow> (\<forall>n r. tfind (s_limit_auth s) n = Some r \<longrightarrow> limit_row_ok r)"

lemma limitauthchg_row:
  assumes "limitauthchg x n al dis s = Inr (s', es)"
  shows "has_auth x n" "gs H s' = gs H s"
    "s_limit_auth s' = terase n (s_limit_auth s) \<or> (\<exists>r. limit_row_ok r \<and> s_limit_auth s' = tput n r (s_limit_auth s))"
proof -
  show "has_auth x n" "gs H s' = gs H s" using assms by (auto simp: limitauthchg_def Let_def split: if_splits)
  define r where "r = (case tfind (s_limit_auth s) n of
      None \<Rightarrow> \<lparr>la_version = 0, la_account = n, la_allow_perms = al, la_disallow_perms = dis\<rparr>
    | Some r \<Rightarrow> r\<lparr>la_allow_perms := al, la_disallow_perms := dis\<rparr>)"
  have "la_allow_perms r = al" "la_disallow_perms r = dis" by (auto simp: r_def split: option.split)
  moreover have "(al = [] \<or> owner_permission \<in> set al) \<and> owner_permission \<notin> set dis"
    "s_limit_auth s' = terase n (s_limit_auth s) \<or> s_limit_auth s' = tput n r (s_limit_auth s)"
    using assms by (auto simp: limitauthchg_def Let_def r_def split: if_splits)
  ultimately show "s_limit_auth s' = terase n (s_limit_auth s) \<or> (\<exists>r. limit_row_ok r \<and> s_limit_auth s' = tput n r (s_limit_auth s))"
    unfolding limit_row_ok_def by metis
qed

lemma cfgelection_limits: "cfgelection C H x e r q s = Inr (s', es) \<Longrightarrow> s_limit_auth s' = s_limit_auth s"
  by (auto simp: cfgelection_def Let_def split: if_splits)

text \<open>How the table of limits changes in a transaction.\<close>

lemma chain_exec_limits:
  assumes "chain_exec C H x a ch = Inr ch'"
  shows "s_limit_auth (c_system ch') = s_limit_auth (c_system ch) \<or> (\<exists>n. has_auth x n
     \<and> (s_limit_auth (c_system ch') = terase n (s_limit_auth (c_system ch))
        \<or> (\<exists>r. limit_row_ok r \<and> s_limit_auth (c_system ch') = tput n r (s_limit_auth (c_system ch)))))"
  using rules.chain_exec_frame [OF assms]
proof (elim disjE exE conjE)
  fix b s es
  assume b: "sets_rules b" and k: "rules_kept H s (c_system ch')"
    and r: "sys_exec C H (on x system_account (auths x)) (c_token ch) (c_reward ch) b (c_system ch) = Inr (s, es)"
  from k have l: "s_limit_auth (c_system ch') = s_limit_auth s" by (simp add: rules_kept_def)
  have au: "has_auth (on x system_account (auths x)) n = has_auth x n" for n by (simp only: on_simps has_auth_def [of x])
  from b show ?thesis
  proof (cases b rule: sets_rules.elims(2))
    case (1 n al dis)
    have "stored H (limitauthchg (on x system_account (auths x)) n al dis (c_system ch)) = Inr (s, es)"
      using r unfolding 1 sys_exec.simps .
    from storedD [OF this] obtain s1 where s1: "limitauthchg (on x system_account (auths x)) n al dis (c_system ch) = Inr (s1, es)"
      "s_limit_auth s = s_limit_auth s1" by auto
    show ?thesis using limitauthchg_row(1,3) [OF s1(1)] unfolding l s1(2) au by blast
  next
    case (2 e t q)
    have "stored H (cfgelection C H (on x system_account (auths x)) e t q (c_system ch)) = Inr (s, es)"
      using r unfolding 2 sys_exec.simps .
    from storedD [OF this] obtain s1 where s1: "cfgelection C H (on x system_account (auths x)) e t q (c_system ch) = Inr (s1, es)"
      "s_limit_auth s = s_limit_auth s1" by auto
    show ?thesis using cfgelection_limits [OF s1(1)] unfolding l s1(2) by blast
  qed
qed (simp add: rules_kept_def)

lemma chain_reachable_limits: "chain_reachable C H ch \<Longrightarrow> limits_ok (c_system ch)"
proof (induction rule: chain_reachable.induct)
  case (launched T x core ch)
  from chain_exec_limits [OF launched(3)] show ?case by (auto simp: limits_ok_def system_empty_def terase_def split: if_splits)
next
  case (transacted ch x a ch')
  from chain_exec_limits [OF transacted(4)] transacted.IH show ?case
    by (auto simp: limits_ok_def table_simps split: if_splits)
qed

text \<open>C18: nobody locks an account out. In every reachable state an action of an account on its own
  authorities that it signs with its owner permission, and that names this permission, is accepted,
  whatever limits were set before.\<close>
theorem owner_not_locked_out:
  assumes "chain_reachable C H ch" "(n, owner_permission) \<in> set (auths x)"
    "a \<in> {Sys_updateauth n (Some owner_permission), Sys_deleteauth n (Some owner_permission),
           Sys_linkauth n (Some owner_permission), Sys_unlinkauth n (Some owner_permission)}"
  shows "chain_exec C H x (System_act a) ch = Inr ch"
proof -
  have L: "limits_ok (c_system ch)" by (rule chain_reachable_limits [OF assms(1)])
  have "check_auth_change (on x system_account (auths x)) n (Some owner_permission) (c_system ch) = Inr ()"
    using L assms(2)
    by (auto simp: check_auth_change_def Let_def has_perm_def limits_ok_def limit_row_ok_def owner_permission_def split: option.split)
  then show ?thesis
    using assms(3) by (auto simp: updateauth_def deleteauth_def linkauth_def unlinkauth_def)
qed

theorem owner_not_locked_out_witness:
  "chain_exec cdt_ref demo_host ((demo_at 20 [])\<lparr>auths := [(alice, owner_permission)]\<rparr>)
     (System_act (Sys_updateauth alice (Some owner_permission))) demo_chain = Inr demo_chain"
  by (rule owner_not_locked_out [OF demo_chain_reachable, where n = alice]) simp_all

text \<open>An account's limits are its own. Whatever transaction the account does not sign, its row of
  allowed and disallowed permissions stays as it was.\<close>
lemma limits_are_own:
  assumes "chain_exec C H x a ch = Inr ch'" "\<not> has_auth x n"
  shows "tfind (s_limit_auth (c_system ch')) n = tfind (s_limit_auth (c_system ch)) n"
  using chain_exec_limits [OF assms(1)] assms(2) by (auto simp: table_simps)

lemma limits_are_own_example:
  "\<exists>ch'. chain_exec cdt_ref demo_host (demo_at 20 [alice]) (System_act (Sys_limitauthchg alice [owner_permission] [])) demo_chain = Inr ch'
     \<and> tfind (s_limit_auth (c_system ch')) bob = tfind (s_limit_auth (c_system demo_chain)) bob
     \<and> tfind (s_limit_auth (c_system ch')) alice \<noteq> None"
proof -
  let ?r = "chain_exec cdt_ref demo_host (demo_at 20 [alice]) (System_act (Sys_limitauthchg alice [owner_permission] [])) demo_chain"
  have "(case ?r of Inl _ \<Rightarrow> None | Inr c \<Rightarrow> tfind (s_limit_auth (c_system c)) alice) \<noteq> None" by code_simp
  then obtain c where c: "?r = Inr c" "tfind (s_limit_auth (c_system c)) alice \<noteq> None" by (cases ?r) auto
  have "\<not> has_auth (demo_at 20 [alice]) bob" by code_simp
  from limits_are_own [OF c(1) this] show ?thesis using c by blast
qed

section \<open>The election\<close>

text \<open>C20: the election cannot be moved. Once it is active, no transaction changes the time of its
  activation, and once rewards have started, none changes the time of their start.\<close>
theorem election_irrevocable:
  assumes "chain_exec C H x a ch = Inr ch'" "election_active H x (c_system ch)"
  shows "g_election_activated_time (gs H (c_system ch')) = g_election_activated_time (gs H (c_system ch))
     \<and> (g_reward_started_time (gs H (c_system ch)) = 0 \<or> now x < g_reward_started_time (gs H (c_system ch))
        \<or> g_reward_started_time (gs H (c_system ch')) = g_reward_started_time (gs H (c_system ch)))"
  using rules.chain_exec_frame [OF assms(1)]
proof (elim disjE exE conjE)
  fix b s es
  assume b: "sets_rules b" and k: "rules_kept H s (c_system ch')"
    and r: "sys_exec C H (on x system_account (auths x)) (c_token ch) (c_reward ch) b (c_system ch) = Inr (s, es)"
  from b show ?thesis
  proof (cases b rule: sets_rules.elims(2))
    case (1 n al dis)
    have "stored H (limitauthchg (on x system_account (auths x)) n al dis (c_system ch)) = Inr (s, es)"
      using r unfolding 1 sys_exec.simps .
    from storedD [OF this] obtain s1 where s1: "limitauthchg (on x system_account (auths x)) n al dis (c_system ch) = Inr (s1, es)"
      "gs H s = gs H s1" by auto
    show ?thesis using k limitauthchg_row(2) [OF s1(1), of H] s1(2) by (simp add: rules_kept_def)
  next
    case (2 e t q)
    have "stored H (cfgelection C H (on x system_account (auths x)) e t q (c_system ch)) = Inr (s, es)"
      using r unfolding 2 sys_exec.simps .
    from storedD [OF this] obtain s1 where s1: "cfgelection C H (on x system_account (auths x)) e t q (c_system ch) = Inr (s1, es)"
      "gs H s = gs H s1" by auto
    show ?thesis using k s1 assms(2)
      by (auto simp: cfgelection_def Let_def rules_kept_def election_active_def split: if_splits)
  qed
qed (simp add: rules_kept_def)

theorem election_irrevocable_witness:
  "\<exists>ch'. chain_exec cdt_ref demo_host (demo_at 20 [bob]) (System_act (Sys_unregprod bob)) demo_chain = Inr ch'
     \<and> g_election_activated_time (gs demo_host (c_system ch')) = 1700000001000000"
proof -
  let ?r = "chain_exec cdt_ref demo_host (demo_at 20 [bob]) (System_act (Sys_unregprod bob)) demo_chain"
  have "(case ?r of Inl _ \<Rightarrow> False | Inr c \<Rightarrow> True)" by code_simp
  then obtain c where c: "?r = Inr c" by (cases ?r) auto
  have a: "election_active demo_host (demo_at 20 [bob]) (c_system demo_chain)" by code_simp
  have "g_election_activated_time (gs demo_host (c_system demo_chain)) = 1700000001000000" by code_simp
  then show ?thesis using election_irrevocable [OF c a] c by auto
qed

end
