(* ===== verification/Economy_Props.thy ===== *)
theory Economy_Props
  imports System_Props
begin

text \<open>
  Names, block rewards, gas and votes: what an accepted bid does to the bidders, who may create which
  account, how the block reward is halved, and what a gas purchase adds.
\<close>

section \<open>Bids\<close>

definition refund_due :: "sys_state \<Rightarrow> name \<Rightarrow> name \<Rightarrow> int" where
  "refund_due s newname bidder = (case tfind (s_bid_refunds s) (Scoped newname bidder) of None \<Rightarrow> 0 | Some r \<Rightarrow> a_amount (br_amount r))"

lemma reachable_sys_inv: "cdt_laws C \<Longrightarrow> chain_reachable C H ch \<Longrightarrow> sys_inv C H (c_system ch)"
  using chain_reachable_inv by (auto simp: chain_inv_def parties_ok_def)

lemma held_names_nonneg: "bids_ok C core s \<Longrightarrow> 0 \<le> held_names s"
  unfolding held_names_def bids_ok_def
  by (intro add_nonneg_nonneg tsum_nonneg) (auto simp: open_bid_def intro: less_imp_le)

lemma tenth: "a div 10 < d \<Longrightarrow> a < 10 * d" for a d :: int
proof -
  assume "a div 10 < d"
  moreover have "a = 10 * (a div 10) + a mod 10" "a mod 10 < 10" by simp_all
  ultimately show "a < 10 * d" by linarith
qed

text \<open>C16: an outbid bidder loses nothing. In a reachable state a bid on an open auction is accepted only
  from another bidder, for more than a tenth above the highest bid; then the amount of the highest
  bid so far is added to the refund of its bidder, every other refund stays, and the new bid and
  bidder are on record.\<close>
theorem outbid_refunded:
  assumes "cdt_laws C" "chain_reachable C H ch" "amount_ok (a_amount bid)"
    "tfind (s_name_bids (c_system ch)) newname = Some b" "bidname C H x bidder newname bid (c_system ch) = Inr (s', es)"
  shows "nb_high_bidder b \<noteq> bidder \<and> nb_high_bid b < 10 * (a_amount bid - nb_high_bid b)
     \<and> refund_due s' newname (nb_high_bidder b) = refund_due (c_system ch) newname (nb_high_bidder b) + nb_high_bid b
     \<and> (\<forall>m n. (m, n) \<noteq> (newname, nb_high_bidder b) \<longrightarrow> refund_due s' m n = refund_due (c_system ch) m n)
     \<and> tfind (s_name_bids s') newname = Some (b\<lparr>nb_high_bidder := bidder, nb_high_bid := a_amount bid, nb_last_bid_time := now x\<rparr>)"
proof -
  have B: "bids_ok C (a_symbol (stake H (c_system ch))) (c_system ch)"
    using reachable_sys_inv [OF assms(1,2)] by (simp add: sys_inv_def)
  note r = bidname_Inr [OF assms(1) B assms(3,5)]
  have "nb_high_bid b div 10 < a_amount bid - nb_high_bid b" "nb_high_bidder b \<noteq> bidder" using r(7) [OF assms(4)] by auto
  moreover from this(1) have "nb_high_bid b < 10 * (a_amount bid - nb_high_bid b)" by (rule tenth)
  ultimately show ?thesis
    using r(5) assms(4) by (auto simp: bid_state_def Let_def refund_due_def table_simps split: option.split)
qed

theorem outbid_refunded_witness:
  "\<exists>s' es. bidname cdt_ref demo_host (demo_at 20 [alice]) alice premium (mk_asset 20 demo_symbol) (c_system demo_chain) = Inr (s', es)
     \<and> refund_due s' premium carol = refund_due (c_system demo_chain) premium carol + 8
     \<and> refund_due s' premium bob = refund_due (c_system demo_chain) premium bob"
proof -
  let ?r = "bidname cdt_ref demo_host (demo_at 20 [alice]) alice premium (mk_asset 20 demo_symbol) (c_system demo_chain)"
  let ?b = "\<lparr>nb_newname = premium, nb_high_bidder = carol, nb_high_bid = 8, nb_last_bid_time = 1700000012000000\<rparr>"
  have "(case ?r of Inl _ \<Rightarrow> False | Inr c \<Rightarrow> True)" by code_simp
  then obtain s' es where c: "?r = Inr (s', es)" by (cases ?r) auto
  have a: "amount_ok (a_amount (mk_asset 20 demo_symbol))" by code_simp
  have b: "tfind (s_name_bids (c_system demo_chain)) premium = Some ?b" by code_simp
  show ?thesis using outbid_refunded [OF ref.laws demo_chain_reachable a b c] c by simp
qed

section \<open>Accounts\<close>

text \<open>The loop over the characters is a search for an empty one.\<close>

lemma has_dot_loop_iff:
  "has_dot_loop k w d \<longleftrightarrow> d \<or> (\<exists>i<k. drop_bit (5 * i) w AND 0x1f = 0)"
proof (induction k arbitrary: w d)
  case (Suc k)
  have "(\<exists>i<Suc k. drop_bit (5 * i) w AND 0x1f = 0) \<longleftrightarrow> w AND 0x1f = 0 \<or> (\<exists>i<k. drop_bit (5 * Suc i) w AND 0x1f = 0)"
    by (auto simp: less_Suc_eq_0_disj)
  moreover have "drop_bit (5 * Suc i) w = drop_bit (5 * i) (drop_bit 5 w)" for i
    by (simp add: drop_bit_drop_bit add.commute)
  ultimately show ?case using Suc.IH [of "drop_bit 5 w" "d \<or> w AND 0x1f = 0"] by auto
qed simp

definition claimed_by :: "sys_state \<Rightarrow> name \<Rightarrow> name \<Rightarrow> bool" where
  "claimed_by s creator n \<longleftrightarrow> (\<exists>b. tfind (s_name_bids s) n = Some b \<and> nb_high_bidder b = creator \<and> nb_high_bid b < 0)"

text \<open>C21: who may create which account. Once the contract has been initialised, the creation of a
  name that was not created before is accepted exactly from the system account, for a name of
  twelve full characters, for a name under the creator's own suffix, or for a name without
  suffix whose auction the creator won. The creator is put on record, a won name is taken off the
  auction list, and the new account starts without resources.\<close>
theorem who_creates_accounts:
  assumes "is_init C s" "tfind (s_creators s) n = None"
  shows "newaccount C x creator n s = Inr (s', es) \<longleftrightarrow>
       (if creator = self x \<or> (\<forall>i<12. drop_bit (5 * i + 4) n AND 0x1f \<noteq> 0) then True
        else if name_suffix C n = n then claimed_by s creator n else creator = name_suffix C n)
     \<and> s' = (if creator \<noteq> self x \<and> (\<exists>i<12. drop_bit (5 * i + 4) n AND 0x1f = 0) \<and> name_suffix C n = n
             then s\<lparr>s_name_bids := terase n (s_name_bids s)\<rparr> else s)
            \<lparr>s_creators := tput n \<lparr>ac_owner = n, ac_creator = creator\<rparr> (s_creators s)\<rparr>
     \<and> es = [Set_resource_limits n 0 False]"
proof -
  have dot: "(\<exists>i<12. drop_bit (5 * i + 4) n AND 0x1f = 0) \<longleftrightarrow> has_dot n"
    by (simp add: has_dot_def has_dot_loop_iff drop_bit_drop_bit add.commute)
  then have nodot: "(\<forall>i<12. drop_bit (5 * i + 4) n AND 0x1f \<noteq> 0) \<longleftrightarrow> \<not> has_dot n" by blast
  have "newaccount C x creator n s = Inr (s', es) \<longleftrightarrow>
       (if creator = self x \<or> \<not> has_dot n then True
        else if name_suffix C n = n then claimed_by s creator n else creator = name_suffix C n)
     \<and> s' = (if creator \<noteq> self x \<and> has_dot n \<and> name_suffix C n = n
             then s\<lparr>s_name_bids := terase n (s_name_bids s)\<rparr> else s)
            \<lparr>s_creators := tput n \<lparr>ac_owner = n, ac_creator = creator\<rparr> (s_creators s)\<rparr>
     \<and> es = [Set_resource_limits n 0 False]"
    using assms by (auto simp: newaccount_def claimed_by_def split: option.split)
  then show ?thesis unfolding dot nodot .
qed

theorem who_creates_accounts_witness:
  "newaccount cdt_ref (demo_ctx system_account []) system_account carol (c_system demo_chain)
     = Inr ((c_system demo_chain)\<lparr>s_creators := [(carol, \<lparr>ac_owner = carol, ac_creator = system_account\<rparr>)]\<rparr>,
            [Set_resource_limits carol 0 False])"
proof -
  have i: "is_init cdt_ref (c_system demo_chain)" and n: "tfind (s_creators (c_system demo_chain)) carol = None" by code_simp+
  show ?thesis
    using who_creates_accounts [OF i n, of "demo_ctx system_account []" system_account] by (simp add: demo_chain_def)
qed

text \<open>C17: an auction goes to the highest bidder. Closing auctions never fails in a reachable state. Either
  nothing happens, because there is no open auction or the highest open bid is not a full day old, or exactly
  the auction with the highest bid is closed, its bidder can claim the name, and its bid goes from the
  names account to the fees account.\<close>
theorem auction_to_highest:
  assumes "cdt_laws C" "chain_reachable C H ch"
  shows "\<exists>s' es. close_auction C H x ts (c_system ch) = Inr (s', es) \<and>
     (s' = c_system ch \<and> es = []
        \<and> (\<forall>n b. tfind (s_name_bids (c_system ch)) n = Some b \<and> 0 < nb_high_bid b \<longrightarrow>
             (\<exists>m c. tfind (s_name_bids (c_system ch)) m = Some c \<and> nb_high_bid b \<le> nb_high_bid c
                \<and> now x - nb_last_bid_time c \<le> useconds_per_day))
      \<or> (\<exists>n b. tfind (s_name_bids (c_system ch)) n = Some b \<and> 0 < nb_high_bid b \<and> useconds_per_day < now x - nb_last_bid_time b
        \<and> (\<forall>m c. tfind (s_name_bids (c_system ch)) m = Some c \<longrightarrow> nb_high_bid c \<le> nb_high_bid b)
        \<and> claimed_by s' (nb_high_bidder b) n
        \<and> (\<forall>m. m \<noteq> n \<longrightarrow> tfind (s_name_bids s') m = tfind (s_name_bids (c_system ch)) m)
        \<and> hd es = channel_to_system_fees H names_account (mk_asset (nb_high_bid b) (core_of H ch))))"
proof -
  have B: "bids_ok C (core_of H ch) (c_system ch)" using reachable_sys_inv [OF assms] by (simp add: sys_inv_def)
  show ?thesis
  proof (cases "highest_bid (s_name_bids (c_system ch))")
    case None
    have "nb_high_bid b < 0" if "tfind (s_name_bids (c_system ch)) n = Some b" for n b
      using highest_bid_spec(2) [OF B None that] .
    then show ?thesis using None by (force simp: close_auction_def)
  next
    case (Some nb)
    obtain n b where nb: "nb = (n, b)" by (cases nb)
    note h = highest_bid_spec(1) [OF B Some [unfolded nb]]
    have v: "symbol_is_valid C (core_of H ch)"
      using parties_valid chain_reachable_inv [OF assms] by (auto simp: chain_inv_def)
    show ?thesis
    proof (cases "useconds_per_day < now x - nb_last_bid_time b")
      case False
      then have "close_auction C H x ts (c_system ch) = Inr (c_system ch, [])" by (simp add: close_auction_def Some nb)
      then show ?thesis using False h by fastforce
    next
      case True
      have a: "asset_make C (nb_high_bid b) (core_of H ch) = Inr (mk_asset (nb_high_bid b) (core_of H ch))"
        using assms(1) v bids_ok_bid [OF B, of n b] h by (auto simp: cdt_inv amount_ok_def)
      have i: "i64 (- nb_high_bid b) = - nb_high_bid b"
        using bids_ok_bid [OF B, of n b] h by (intro i64_id) (auto simp: max_amount_def)
      show ?thesis
        using h True v a i by (auto simp: close_auction_def Some nb core_symbol_def claimed_by_def tfind_tput)
    qed
  qed
qed

theorem auction_to_highest_witness:
  "close_auction cdt_ref demo_host (demo_at 20 []) 0 (c_system demo_chain) = Inr (c_system demo_chain, [])"
proof -
  let ?b = "\<lparr>nb_newname = premium, nb_high_bidder = carol, nb_high_bid = 8, nb_last_bid_time = 1700000012000000\<rparr>"
  have b: "tfind (s_name_bids (c_system demo_chain)) m = (if m = premium then Some ?b else None)" for m
    by (simp add: demo_chain_def)
  have t: "now (demo_at 20 []) - 1700000012000000 \<le> useconds_per_day" by code_simp
  show ?thesis using auction_to_highest [OF ref.laws demo_chain_reachable, of "demo_at 20 []" 0] t by (auto simp: b split: if_splits)
qed

section \<open>Block rewards\<close>

lemma i64_eq_iff: "i64 x = i64 y \<longleftrightarrow> x mod 2 ^ 64 = y mod 2 ^ 64"
proof -
  have "i64 x = i64 y \<longleftrightarrow> (x + 2 ^ 63) mod 2 ^ 64 = (y + 2 ^ 63) mod 2 ^ 64" by (simp add: i64_def)
  also have "\<dots> \<longleftrightarrow> x mod 2 ^ 64 = y mod 2 ^ 64" by (simp add: mod_eq_dvd_iff)
  finally show ?thesis .
qed

lemma i64_mod: "i64 x mod 2 ^ 64 = x mod 2 ^ 64"
  unfolding i64_def by (metis add_diff_cancel_right' mod_diff_left_eq)

lemma i64_mult: "i64 (i64 x * y) = i64 (x * y)"
  unfolding i64_eq_iff by (metis i64_mod mod_mult_left_eq)

lemma power_loop_eq: "power_loop n 2 (i64 a) = i64 (a * 2 ^ n)"
proof (induction n arbitrary: a)
  case (Suc n)
  show ?case using Suc.IH [of "a * 2"] by (simp add: i64_mult mult.assoc)
qed simp

lemma power_two: "power 2 (int k) = (if k < 63 then 2 ^ k else if k = 63 then - (2 ^ 63) else 0)"
proof -
  have p: "power 2 (int k) = i64 (2 ^ k)"
    using power_loop_eq [of k 1] by (simp add: power_def i64_def)
  consider "k < 63" | "k = 63" | "64 \<le> k" by linarith
  then show ?thesis
  proof cases
    case 1
    then have "(2 :: int) ^ k < 2 ^ 63" by (intro power_strict_increasing) auto
    moreover have "- (2 ^ 63) \<le> (2 :: int) ^ k" by (rule order_trans [of _ 0]) simp_all
    ultimately have "i64 (2 ^ k) = 2 ^ k" by (intro i64_id)
    then show ?thesis using p 1 by simp
  next
    case 2
    then show ?thesis using p by (simp add: i64_def)
  next
    case 3
    then have "(2 :: int) ^ 64 dvd 2 ^ k" by (rule le_imp_power_dvd)
    then have "(2 :: int) ^ k mod 2 ^ 64 = 0 mod 2 ^ 64" by auto
    then have "i64 (2 ^ k) = i64 0" unfolding i64_eq_iff .
    then show ?thesis using p 3 by (simp add: i64_def)
  qed
qed

lemma halving_sum: "0 \<le> a \<Longrightarrow> (\<Sum>k<n. a div 2 ^ k) \<le> 2 * a" for a :: int
proof (induction n arbitrary: a)
  case (Suc n)
  have "(\<Sum>k<Suc n. a div 2 ^ k) = a + (\<Sum>k<n. a div 2 ^ Suc k)" by (simp only: sum.lessThan_Suc_shift power_0 div_by_1)
  also have "(\<Sum>k<n. a div 2 ^ Suc k) = (\<Sum>k<n. (a div 2) div 2 ^ k)" by (simp add: zdiv_zmult2_eq)
  also have "\<dots> \<le> 2 * (a div 2)" using Suc by simp
  finally show ?case by linarith
qed simp

text \<open>C19: the block reward is halved every five years. In the \<open>k\<close>-th period it is the initial reward
  divided by \<open>2 ^ k\<close>, so over all periods at most twice the initial reward per block of a period
  is produced. After 64 periods the divisor has wrapped around to zero and the division traps.\<close>
theorem reward_halving:
  assumes "0 \<le> initial" "initial \<le> max_amount"
  shows "block_reward initial (int k) =
      (if k < 64 then Inr (initial div 2 ^ k) else Inl (Library ''integer divide by zero''))
    \<and> (\<Sum>j<64. case block_reward initial (int j) of Inl _ \<Rightarrow> 0 | Inr r \<Rightarrow> r) \<le> 2 * initial"
proof -
  have r: "block_reward initial (int j) =
      (if j < 64 then Inr (initial div 2 ^ j) else Inl (Library ''integer divide by zero''))" for j
  proof -
    consider "j < 63" | "j = 63" | "64 \<le> j" by linarith
    then show ?thesis
    proof cases
      case 2
      have "initial div 2 ^ 63 = 0" using assms by (simp add: max_amount_def)
      then show ?thesis using 2 power_two [of 63] by (simp add: block_reward_def cdiv_def)
    qed (use assms(1) in \<open>auto simp: block_reward_def power_two cdiv_nonneg\<close>)
  qed
  have "(\<Sum>j<64. case block_reward initial (int j) of Inl _ \<Rightarrow> 0 | Inr r \<Rightarrow> r) = (\<Sum>j<64. initial div 2 ^ j)"
    by (rule sum.cong) (auto simp: r)
  then show ?thesis using r [of k] halving_sum [OF assms(1), of 64] by simp
qed

theorem reward_halving_witness:
  "block_reward 800 (int 3) = Inr 100 \<and> block_reward 800 (int 70) = Inl (Library ''integer divide by zero'')"
  using reward_halving [of 800 3] reward_halving [of 800 70] by (simp add: max_amount_def)

section \<open>Gas\<close>

lemma gas_fits:
  fixes gas :: "64 word"
  assumes "0 < n" "n < 2 ^ 63"
  shows "(word_of_int n \<le> - 1 - gas \<longleftrightarrow> uint gas + n < 2 ^ 64)
    \<and> (uint gas + n < 2 ^ 64 \<longrightarrow> uint (gas + word_of_int n) = uint gas + n)"
proof -
  have a: "uint (word_of_int n :: 64 word) = n" using assms by (simp add: uint_word_of_int)
  have top: "uint (- 1 :: 64 word) = 2 ^ 64 - 1" by (simp add: unsigned_minus_1_eq_mask mask_eq_exp_minus_1)
  have g: "uint gas \<le> uint (- 1 :: 64 word)" using uint_lt2p [of gas] unfolding top by simp
  have m: "uint (- 1 - gas) = uint (- 1 :: 64 word) - uint gas" using g by (simp add: uint_sub_if')
  have "word_of_int n \<le> - 1 - gas \<longleftrightarrow> uint gas + n < 2 ^ 64" unfolding word_le_def a m top by linarith
  moreover have "uint (gas + word_of_int n) = uint gas + n" if "uint gas + n < 2 ^ 64"
    using that uint_add_lem [of gas "word_of_int n"] unfolding a by simp
  ultimately show ?thesis by blast
qed

text \<open>C23: a gas purchase is exact. In a reachable state it is accepted exactly from the payer, for a positive amount of core
  tokens, for an existing receiver, if neither party is the gas account and the sum fits into 64
  bits; the receiver's reserve grows by the amount paid, which is transferred to the gas account, and
  the tables stay as they are.\<close>
theorem gas_bought:
  assumes "cdt_laws C" "chain_reachable C H ch" "amount_ok (a_amount q)" "resource_limits H receiver = (gas, unl)"
  shows "buygas C H x payer receiver q (c_system ch) = Inr (s', es) \<longleftrightarrow>
     has_auth x payer \<and> a_symbol q = core_of H ch \<and> 0 < a_amount q \<and> is_account x receiver
     \<and> payer \<noteq> gas_account \<and> receiver \<noteq> gas_account \<and> uint gas + a_amount q < 2 ^ 64
     \<and> s' = c_system ch
     \<and> (\<exists>g. uint g = uint gas + a_amount q \<and> es =
         [Send (Token_transfer [(payer, active_permission), (gas_account, active_permission)] payer gas_account q ''buy gas''),
          Set_resource_limits receiver g unl])"
proof -
  have v: "symbol_is_valid C (core_of H ch)"
    using parties_valid chain_reachable_inv [OF assms(1,2)] by (auto simp: chain_inv_def)
  have fit: "(word_of_int (a_amount q) \<le> - 1 - gas \<longleftrightarrow> uint gas + a_amount q < 2 ^ 64)
      \<and> (uint gas + a_amount q < 2 ^ 64 \<longrightarrow> uint (gas + word_of_int (a_amount q)) = uint gas + a_amount q)" if "0 < a_amount q"
    using that assms(3) by (intro gas_fits) (auto simp: amount_ok_def max_amount_def)
  have uniq: "(\<exists>g :: 64 word. uint g = uint gas + a_amount q \<and> es = f g) \<longleftrightarrow> es = f (gas + word_of_int (a_amount q))"
    if "uint (gas + word_of_int (a_amount q)) = uint gas + a_amount q" for f
    using that by (metis word_uint_eqI)
  show ?thesis
  proof (cases "0 < a_amount q \<and> uint gas + a_amount q < 2 ^ 64")
    case True
    then show ?thesis using assms(4) v fit uniq by (auto simp: buygas_def)
  next
    case False
    then show ?thesis using assms(4) v fit by (auto simp: buygas_def)
  qed
qed

theorem gas_bought_witness:
  "buygas cdt_ref demo_host (demo_at 20 [alice]) alice bob (mk_asset 7 demo_symbol) (c_system demo_chain)
     = Inr (c_system demo_chain,
         [Send (Token_transfer [(alice, active_permission), (gas_account, active_permission)] alice gas_account (mk_asset 7 demo_symbol) ''buy gas''),
          Set_resource_limits bob 7 False])"
proof -
  have a: "amount_ok (a_amount (mk_asset 7 demo_symbol))" and r: "resource_limits demo_host bob = (0, False)"
    and g: "has_auth (demo_at 20 [alice]) alice" "is_account (demo_at 20 [alice]) bob" "alice \<noteq> gas_account" "bob \<noteq> gas_account"
      "core_of demo_host demo_chain = demo_symbol" by code_simp+
  have "uint (7 :: 64 word) = uint (0 :: 64 word) + a_amount (mk_asset 7 demo_symbol)" by simp
  then show ?thesis
    using gas_bought [OF ref.laws demo_chain_reachable a r, of "demo_at 20 [alice]" alice] g by auto
qed

section \<open>Votes for inactive producers\<close>

text \<open>C15: a voter cannot vote for an inactive producer, nor keep one. The loop of \<open>voteproducer\<close> is written to treat a
  producer that is on both lists as unchanged, for which no activity is asked. It compares addresses instead of
  names, so every listed producer counts as a new one: in a reachable state a voter with votes
  is refused every list with an inactive producer, also when that producer is already voted for, as long as the
  two vectors do not overlap in memory.\<close>
theorem keeping_inactive_refused:
  assumes "cdt_laws C" "chain_reachable C H ch" "tfind (s_voters (c_system ch)) n = Some v" "0 < vi_votes v"
    "disjoint_buffers po (vi_producers v) pn ns" "q \<in> set ns"
    "tfind (s_producers (c_system ch)) q = Some p" "\<not> pi_is_active p"
  shows "diff_loop po pn (vi_producers v) ns = (vi_producers v, [], ns)
     \<and> (\<exists>e. chain_exec C H x (System_act (Sys_voteproducer po pn n ns)) ch = Inl e)"
proof -
  let ?y = "on x system_account (auths x)"
  have V: "voting_inv C H (c_system ch)" using reachable_sys_inv [OF assms(1,2)] by (simp add: sys_inv_def)
  have "\<not> votable (s_producers (c_system ch)) (vi_votes v) ns" using assms(4,6-8) by (force simp: votable_def)
  then have "Voting.voteproducer C H ?y po pn n ns (c_system ch) \<noteq> Inr r" for r
    using voteproducer_Inr [OF V assms(3,5), of ?y r] by blast
  then obtain e where "Voting.voteproducer C H ?y po pn n ns (c_system ch) = Inl e" by (metis sum.exhaust)
  then have "chain_exec C H x (System_act (Sys_voteproducer po pn n ns)) ch = Inl e" by (simp add: stored_def)
  then show ?thesis using diff_loop_disjoint [OF assms(5)] by blast
qed

definition demo_inactive :: chain where
  "demo_inactive = demo_chain\<lparr>c_system := (c_system demo_chain)\<lparr>s_producers :=
     map (\<lambda>(k, p). (k, deactivate demo_host p)) (s_producers (c_system demo_chain))\<rparr>\<rparr>"

lemma demo_inactive_reachable: "chain_reachable cdt_ref demo_host demo_inactive"
proof -
  have u: "user_ctx (demo_at 20 [bob])" by code_simp
  have a: "user_act (demo_at 20 [bob]) (System_act (Sys_unregprod bob)) demo_chain" by simp
  have e: "chain_exec cdt_ref demo_host (demo_at 20 [bob]) (System_act (Sys_unregprod bob)) demo_chain = Inr demo_inactive" by code_simp
  show ?thesis by (rule chain_reachable.transacted [OF demo_chain_reachable u a e])
qed

theorem keeping_inactive_refused_witness:
  "\<exists>v e. tfind (s_voters (c_system demo_inactive)) alice = Some v \<and> bob \<in> set (vi_producers v)
     \<and> chain_exec cdt_ref demo_host (demo_at 30 [alice]) (System_act (Sys_voteproducer 0 1000 alice [bob, carol])) demo_inactive = Inl e"
proof -
  let ?v = "the (tfind (s_voters (c_system demo_inactive)) alice)" and ?p = "the (tfind (s_producers (c_system demo_inactive)) bob)"
  have v: "tfind (s_voters (c_system demo_inactive)) alice = Some ?v" and p: "tfind (s_producers (c_system demo_inactive)) bob = Some ?p"
    and g: "0 < vi_votes ?v" "disjoint_buffers 0 (vi_producers ?v) 1000 [bob, carol]" "bob \<in> set (vi_producers ?v)"
      "bob \<in> set [bob, carol]" "\<not> pi_is_active ?p" by code_simp+
  show ?thesis using keeping_inactive_refused [OF ref.laws demo_inactive_reachable v g(1,2,4) p g(5)] v g(3) by blast
qed

section \<open>Rows\<close>

text \<open>C22: every row is well typed. In a reachable state the rows of the system contract are filed under their
  owner, the votes of a voter and of a producer are between zero and the largest amount of a token, so that no
  vote counter wraps around, the producers of a voter are registered and in strictly increasing order, and
  refunds are positive amounts of the core token.\<close>
theorem rows_well_typed:
  assumes "cdt_laws C" "chain_reachable C H ch"
  shows "(\<forall>n v. tfind (s_voters (c_system ch)) n = Some v \<longrightarrow> vi_owner v = n \<and> 0 \<le> vi_votes v \<and> vi_votes v \<le> max_amount
        \<and> ascending (vi_producers v) \<and> (\<forall>q \<in> set (vi_producers v). tfind (s_producers (c_system ch)) q \<noteq> None))
     \<and> (\<forall>n p. tfind (s_producers (c_system ch)) n = Some p \<longrightarrow> pi_owner p = n \<and> 0 \<le> pi_total_votes p \<and> pi_total_votes p \<le> max_amount)
     \<and> (\<forall>n r. tfind (s_vote_refunds (c_system ch)) n = Some r \<longrightarrow> vr_owner r = n
        \<and> a_symbol (vr_vote_staked r) = core_of H ch \<and> 0 < a_amount (vr_vote_staked r))
     \<and> (\<forall>n b. tfind (s_name_bids (c_system ch)) n = Some b \<longrightarrow> nb_newname b = n \<and> nb_high_bid b \<noteq> 0 \<and> \<bar>nb_high_bid b\<bar> \<le> max_amount)"
proof -
  let ?s = "c_system ch"
  have I: "voting_inv C H ?s" "bids_ok C (core_of H ch) ?s" using reachable_sys_inv [OF assms] by (simp_all add: sys_inv_def)
  then have ok: "votes_ok (s_voters ?s) (s_producers ?s) (a_amount (stake H ?s))" and rf: "refunds_ok C (core_of H ch) (s_vote_refunds ?s)"
    by (simp_all add: voting_inv_def)
  have le: "a_amount (stake H ?s) \<le> max_amount" using ok by (simp add: votes_ok_def)
  have "vi_votes v \<le> max_amount" if v: "tfind (s_voters ?s) n = Some v" for n v
  proof -
    have "vi_votes v \<le> tsum (\<lambda>_. vi_votes) (s_voters ?s)"
      using ok v by (intro tsum_row_le [where f = "\<lambda>_. vi_votes"]) (auto simp: votes_ok_def voter_row_ok_def)
    then show ?thesis using ok le by (simp add: votes_ok_def)
  qed
  moreover have "0 \<le> pi_total_votes p \<and> pi_total_votes p \<le> max_amount" if p: "tfind (s_producers ?s) n = Some p" for n p
    using backing_bounds(1,2) [OF ok, of n] votes_ok_producer [OF ok p] le by linarith
  ultimately show ?thesis
    using ok rf I(2) by (auto simp: votes_ok_def voter_row_ok_def refunds_ok_def bids_ok_def)
qed

theorem rows_well_typed_witness:
  "pi_total_votes (the (tfind (s_producers (c_system demo_chain)) bob)) \<le> max_amount
   \<and> pi_total_votes (the (tfind (s_producers (c_system demo_chain)) bob)) = 200"
proof -
  let ?p = "the (tfind (s_producers (c_system demo_chain)) bob)"
  have "tfind (s_producers (c_system demo_chain)) bob = Some ?p" "pi_total_votes ?p = 200" by code_simp+
  then show ?thesis using rows_well_typed [OF ref.laws demo_chain_reachable] by blast
qed

end
