(* ===== verification/Multisig.thy ===== *)
theory Multisig
  imports Platform
begin

text \<open>
  The contracts \<open>flon.msig\<close> and \<open>flon.wrap\<close>. A proposal stores a packed transaction, the levels
  that are asked for their approval and those that gave it; executing it sends the actions of the
  transaction inline. The wire format of transactions and \<open>pack\<close> belong to the development kit: they
  are the functions of \<open>trx_api\<close>. Whether a list of levels satisfies a transaction is
  answered by the chain and may change from action to action: \<open>auth\<close> is the answer at the time
  of the action.
\<close>

section \<open>Transactions\<close>

record transaction_header =
  th_expiration :: "32 word"
  th_ref_block_num :: "16 word"
  th_ref_block_prefix :: "32 word"
  th_max_net_usage_words :: "32 word"
  th_max_cpu_usage_ms :: "8 word"
  th_delay_sec :: "32 word"

record raw_action =
  ra_account :: name
  ra_name :: name
  ra_authorization :: "permission_level list"
  ra_data :: bytes

record trx_api =
  read_header :: "bytes \<Rightarrow> (transaction_header \<times> bytes) res"     \<comment> \<open>\<open>ds >> trx_header\<close>\<close>
  read_actions :: "bytes \<Rightarrow> (raw_action list \<times> bytes) res"       \<comment> \<open>\<open>ds >> actions\<close>\<close>
  read_name :: "bytes \<Rightarrow> (name \<times> bytes) res"                     \<comment> \<open>\<open>ds >> executer\<close>\<close>
  pack_levels :: "permission_level list \<Rightarrow> bytes"                \<comment> \<open>\<open>pack(approvals)\<close>\<close>
  digest :: "bytes \<Rightarrow> bytes"                                     \<comment> \<open>SHA-256\<close>

type_synonym authority_check = "bytes \<Rightarrow> bytes \<Rightarrow> int"

section \<open>Tables\<close>

record proposal =
  pr_proposal_name :: name
  pr_packed_transaction :: bytes
  pr_earliest_exec_time :: "time_point option option"  \<comment> \<open>absent in rows of older versions\<close>

record approval =
  ap_level :: permission_level
  ap_time :: time_point

record approvals_info =
  ai_version :: "8 word"
  ai_proposal_name :: name
  ai_requested_approvals :: "approval list"
  ai_provided_approvals :: "approval list"

record invalidation =
  iv_account :: name
  iv_last_invalidation_time :: time_point

text \<open>Proposals and approvals are scoped by the proposer.\<close>

record msig_state =
  ms_proposals :: "(scoped, proposal) table"
  ms_approvals :: "(scoped, approvals_info) table"
  ms_invals :: "(name, invalidation) table"

definition msig_empty :: msig_state where
  "msig_empty = \<lparr>ms_proposals = [], ms_approvals = [], ms_invals = []\<rparr>"

section \<open>Helpers\<close>

definition get_trx_header :: "trx_api \<Rightarrow> bytes \<Rightarrow> transaction_header res" where
  "get_trx_header M b = rbind (read_header M b) (\<lambda>(h, _). Inr h)"

definition trx_is_authorized :: "trx_api \<Rightarrow> authority_check \<Rightarrow> permission_level list \<Rightarrow> bytes \<Rightarrow> bool" where
  "trx_is_authorized M auth approvals packed_trx = (auth packed_trx (pack_levels M approvals) \<noteq> 0)"

definition still_valid :: "(name, invalidation) table \<Rightarrow> approval \<Rightarrow> bool" where
  "still_valid I permission =
     (case tfind I (fst (ap_level permission)) of
        None \<Rightarrow> True
      | Some i \<Rightarrow> iv_last_invalidation_time i < ap_time permission)"

definition get_approvals_and_adjust_table ::
  "name \<Rightarrow> name \<Rightarrow> (scoped \<Rightarrow> (scoped, approvals_info) table \<Rightarrow> (scoped, approvals_info) table) \<Rightarrow> msig_state
     \<Rightarrow> permission_level list \<times> msig_state" where
  "get_approvals_and_adjust_table proposer proposal_name table_op s =
     (let k = Scoped proposer proposal_name in
      case tfind (ms_approvals s) k of
        None \<Rightarrow> ([], s)
      | Some a \<Rightarrow> (map ap_level (filter (still_valid (ms_invals s)) (ai_provided_approvals a)),
                   s\<lparr>ms_approvals := table_op k (ms_approvals s)\<rparr>))"

text \<open>\<open>std::find_if\<close> for a level followed by \<open>erase\<close> of what was found.\<close>

fun erase_level :: "permission_level \<Rightarrow> approval list \<Rightarrow> approval list option" where
  "erase_level l [] = None"
| "erase_level l (a # as) = (if ap_level a = l then Some as else map_option ((#) a) (erase_level l as))"

section \<open>Actions\<close>

definition propose ::
  "trx_api \<Rightarrow> authority_check \<Rightarrow> ctx \<Rightarrow> name \<Rightarrow> name \<Rightarrow> permission_level list \<Rightarrow> bytes \<Rightarrow> msig_state \<Rightarrow> msig_state res" where
  "propose M auth x proposer proposal_name requested trx s =
     (if \<not> has_auth x proposer then Inl (MissingAuth proposer)
      else if proposal_name = 0 then Inl (Check ''proposal name cannot be empty'')
      else if requested = [] then Inl (Check ''must request at least one approval'')
      else rbind (read_header M trx) (\<lambda>(trx_header, rest).
        if \<not> to_sec (now x) \<le> th_expiration trx_header then Inl (Check ''transaction expired'')
        else rbind (read_actions M rest) (\<lambda>(context_free_actions, _).
        if context_free_actions \<noteq> []
          then Inl (Check ''not allowed to `propose` a transaction with context-free actions'')
        else let k = Scoped proposer proposal_name in
        if tfind (ms_proposals s) k \<noteq> None then Inl (Check ''proposal with the same name exists'')
        else if \<not> 0 < auth trx (pack_levels M requested) then Inl (Check ''transaction authorization failed'')
        else rbind (templace DuplicateKey k
               \<lparr>pr_proposal_name = proposal_name, pr_packed_transaction = trx, pr_earliest_exec_time = Some None\<rparr>
               (ms_proposals s)) (\<lambda>P.
        rbind (templace DuplicateKey k
               \<lparr>ai_version = 1, ai_proposal_name = proposal_name,
                ai_requested_approvals = map (\<lambda>l. \<lparr>ap_level = l, ap_time = 0\<rparr>) requested, ai_provided_approvals = []\<rparr>
               (ms_approvals s)) (\<lambda>A.
        Inr (s\<lparr>ms_proposals := P, ms_approvals := A\<rparr>))))))"

definition approve ::
  "trx_api \<Rightarrow> authority_check \<Rightarrow> ctx \<Rightarrow> name \<Rightarrow> name \<Rightarrow> permission_level \<Rightarrow> bytes option \<Rightarrow> msig_state \<Rightarrow> msig_state res" where
  "approve M auth x proposer proposal_name level proposal_hash s =
     (let k = Scoped proposer proposal_name in
      if \<not> has_perm x (fst level) (snd level) then Inl (MissingPerm (fst level) (snd level))
      else case tfind (ms_proposals s) k of
        None \<Rightarrow> Inl (Check ''proposal not found'')
      | Some prop \<Rightarrow>
          if \<not> (case proposal_hash of None \<Rightarrow> True | Some h \<Rightarrow> digest M (pr_packed_transaction prop) = h)
            then Inl (Library ''hash mismatch'')
          else rbind (case tfind (ms_approvals s) k of
                 None \<Rightarrow> Inr s
               | Some a \<Rightarrow>
                   (case erase_level level (ai_requested_approvals a) of
                      None \<Rightarrow> Inl (Check ''approval is not on the list of requested approvals'')
                    | Some rest \<Rightarrow> Inr (s\<lparr>ms_approvals := tput k
                        (a\<lparr>ai_provided_approvals := ai_provided_approvals a @ [\<lparr>ap_level = level, ap_time = now x\<rparr>],
                           ai_requested_approvals := rest\<rparr>) (ms_approvals s)\<rparr>))) (\<lambda>s1.
          rbind (get_trx_header M (pr_packed_transaction prop)) (\<lambda>trx_header.
          case pr_earliest_exec_time prop of
            None \<Rightarrow>
              if th_delay_sec trx_header \<noteq> 0
                then Inl (Check ''old proposals are not allowed to have non-zero `delay_sec`; cancel and retry'')
              else Inr s1
          | Some (Some _) \<Rightarrow> Inr s1
          | Some None \<Rightarrow>
              if trx_is_authorized M auth (fst (get_approvals_and_adjust_table proposer proposal_name (\<lambda>_ t. t) s1))
                   (pr_packed_transaction prop)
                then Inr (s1\<lparr>ms_proposals := tput k
                  (prop\<lparr>pr_earliest_exec_time := Some (Some (i64 (now x + uint (th_delay_sec trx_header) * 1000000)))\<rparr>)
                  (ms_proposals s1)\<rparr>)
              else Inr s1)))"

definition unapprove ::
  "trx_api \<Rightarrow> authority_check \<Rightarrow> ctx \<Rightarrow> name \<Rightarrow> name \<Rightarrow> permission_level \<Rightarrow> msig_state \<Rightarrow> msig_state res" where
  "unapprove M auth x proposer proposal_name level s =
     (let k = Scoped proposer proposal_name in
      if \<not> has_perm x (fst level) (snd level) then Inl (MissingPerm (fst level) (snd level))
      else case tfind (ms_approvals s) k of
        None \<Rightarrow> Inl (Check ''proposal not found'')
      | Some a \<Rightarrow>
          (case erase_level level (ai_provided_approvals a) of
             None \<Rightarrow> Inl (Check ''no approval previously granted'')
           | Some rest \<Rightarrow>
               let s1 = s\<lparr>ms_approvals := tput k
                 (a\<lparr>ai_requested_approvals := ai_requested_approvals a @ [\<lparr>ap_level = level, ap_time = now x\<rparr>],
                    ai_provided_approvals := rest\<rparr>) (ms_approvals s)\<rparr> in
               case tfind (ms_proposals s1) k of
                 None \<Rightarrow> Inl (Check ''proposal not found'')
               | Some prop \<Rightarrow>
                   (case pr_earliest_exec_time prop of
                      None \<Rightarrow>
                        rbind (get_trx_header M (pr_packed_transaction prop)) (\<lambda>trx_header.
                        if th_delay_sec trx_header \<noteq> 0
                          then Inl (Check ''old proposals are not allowed to have non-zero `delay_sec`; cancel and retry'')
                        else Inr s1)
                    | Some None \<Rightarrow> Inr s1
                    | Some (Some _) \<Rightarrow>
                        if \<not> trx_is_authorized M auth
                             (fst (get_approvals_and_adjust_table proposer proposal_name (\<lambda>_ t. t) s1))
                             (pr_packed_transaction prop)
                          then Inr (s1\<lparr>ms_proposals := tput k (prop\<lparr>pr_earliest_exec_time := Some None\<rparr>) (ms_proposals s1)\<rparr>)
                        else Inr s1)))"

definition cancel :: "trx_api \<Rightarrow> ctx \<Rightarrow> name \<Rightarrow> name \<Rightarrow> name \<Rightarrow> msig_state \<Rightarrow> msig_state res" where
  "cancel M x proposer proposal_name canceler s =
     (let k = Scoped proposer proposal_name in
      if \<not> has_auth x canceler then Inl (MissingAuth canceler)
      else case tfind (ms_proposals s) k of
        None \<Rightarrow> Inl (Check ''proposal not found'')
      | Some prop \<Rightarrow>
          rbind (if canceler \<noteq> proposer
                 then rbind (get_trx_header M (pr_packed_transaction prop)) (\<lambda>h.
                   if \<not> th_expiration h < to_sec (now x) then Inl (Check ''cannot cancel until expiration'') else Inr ())
                 else Inr ()) (\<lambda>_.
          Inr (s\<lparr>ms_proposals := terase k (ms_proposals s), ms_approvals := terase k (ms_approvals s)\<rparr>)))"

text \<open>The second component is the list of inline actions that are sent.\<close>

definition exec ::
  "trx_api \<Rightarrow> authority_check \<Rightarrow> ctx \<Rightarrow> name \<Rightarrow> name \<Rightarrow> name \<Rightarrow> msig_state \<Rightarrow> (msig_state \<times> raw_action list) res" where
  "exec M auth x proposer proposal_name executer s =
     (let k = Scoped proposer proposal_name in
      if \<not> has_auth x executer then Inl (MissingAuth executer)
      else case tfind (ms_proposals s) k of
        None \<Rightarrow> Inl (Check ''proposal not found'')
      | Some prop \<Rightarrow>
          rbind (read_header M (pr_packed_transaction prop)) (\<lambda>(trx_header, rest).
          if \<not> to_sec (now x) \<le> th_expiration trx_header then Inl (Check ''transaction expired'')
          else rbind (read_actions M rest) (\<lambda>(context_free_actions, rest).
          if context_free_actions \<noteq> []
            then Inl (Check ''not allowed to `exec` a transaction with context-free actions'')
          else rbind (read_actions M rest) (\<lambda>(actions, _).
          let (approvals, s1) = get_approvals_and_adjust_table proposer proposal_name terase s in
          if \<not> trx_is_authorized M auth approvals (pr_packed_transaction prop)
            then Inl (Check ''transaction authorization failed'')
          else rbind (case pr_earliest_exec_time prop of
                 Some (Some t) \<Rightarrow> if \<not> t \<le> now x then Inl (Check ''too early to execute'') else Inr ()
               | _ \<Rightarrow> if th_delay_sec trx_header \<noteq> 0
                        then Inl (Check ''old proposals are not allowed to have non-zero `delay_sec`; cancel and retry'')
                      else Inr ()) (\<lambda>_.
          Inr (s1\<lparr>ms_proposals := terase k (ms_proposals s1)\<rparr>, actions))))))"

definition invalidate :: "ctx \<Rightarrow> name \<Rightarrow> msig_state \<Rightarrow> msig_state res" where
  "invalidate x account s =
     (if \<not> has_auth x account then Inl (MissingAuth account)
      else case tfind (ms_invals s) account of
        None \<Rightarrow> Inr (s\<lparr>ms_invals := tput account \<lparr>iv_account = account, iv_last_invalidation_time = now x\<rparr> (ms_invals s)\<rparr>)
      | Some i \<Rightarrow> Inr (s\<lparr>ms_invals := tput account (i\<lparr>iv_last_invalidation_time := now x\<rparr>) (ms_invals s)\<rparr>))"

text \<open>\<open>exec\<close> of \<open>flon.wrap\<close> reads its arguments from the data of the action and keeps no state.\<close>

definition wrap_exec :: "trx_api \<Rightarrow> ctx \<Rightarrow> bytes \<Rightarrow> raw_action list res" where
  "wrap_exec M x ds =
     (if \<not> has_auth x (self x) then Inl (MissingAuth (self x))
      else rbind (read_name M ds) (\<lambda>(executer, ds).
        if \<not> has_auth x executer then Inl (MissingAuth executer)
        else rbind (read_header M ds) (\<lambda>(_, ds).
        rbind (read_actions M ds) (\<lambda>(context_free_actions, ds).
        if context_free_actions \<noteq> []
          then Inl (Check ''not allowed to `exec` a transaction with context-free actions'')
        else rbind (read_actions M ds) (\<lambda>(actions, _). Inr actions)))))"

section \<open>Histories\<close>

datatype msig_action =
    Propose name name "permission_level list" bytes
  | Approve name name permission_level "bytes option"
  | Unapprove name name permission_level
  | Cancel name name name
  | Exec name name name
  | Invalidate name

fun msig_exec :: "trx_api \<Rightarrow> authority_check \<Rightarrow> ctx \<Rightarrow> msig_action \<Rightarrow> msig_state \<Rightarrow> (msig_state \<times> raw_action list) res" where
  "msig_exec M auth x (Propose p n rs t) s = rbind (propose M auth x p n rs t s) (\<lambda>s. Inr (s, []))"
| "msig_exec M auth x (Approve p n l h) s = rbind (approve M auth x p n l h s) (\<lambda>s. Inr (s, []))"
| "msig_exec M auth x (Unapprove p n l) s = rbind (unapprove M auth x p n l s) (\<lambda>s. Inr (s, []))"
| "msig_exec M auth x (Cancel p n c) s = rbind (cancel M x p n c s) (\<lambda>s. Inr (s, []))"
| "msig_exec M auth x (Exec p n e) s = exec M auth x p n e s"
| "msig_exec M auth x (Invalidate a) s = rbind (invalidate x a s) (\<lambda>s. Inr (s, []))"

text \<open>
  A history lists the actions that succeeded, the latest first. What it says about a proposal:
  its transaction, the levels it asks, the approvals that were given and not taken back, and
  when an account last invalidated its approvals.
\<close>

type_synonym history = "(ctx \<times> msig_action) list"

fun closes :: "scoped \<Rightarrow> msig_action \<Rightarrow> bool" where
  "closes k (Cancel p n c) \<longleftrightarrow> Scoped p n = k"
| "closes k (Exec p n e) \<longleftrightarrow> Scoped p n = k"
| "closes k _ \<longleftrightarrow> False"

fun proposed :: "history \<Rightarrow> scoped \<Rightarrow> (permission_level list \<times> bytes) option" where
  "proposed [] k = None"
| "proposed ((x, Propose p n rs t) # L) k = (if Scoped p n = k then Some (rs, t) else proposed L k)"
| "proposed ((x, a) # L) k = (if closes k a then None else proposed L k)"

fun grants :: "history \<Rightarrow> scoped \<Rightarrow> approval list" where
  "grants [] k = []"
| "grants ((x, Propose p n rs t) # L) k = (if Scoped p n = k then [] else grants L k)"
| "grants ((x, Approve p n l h) # L) k =
     (if Scoped p n = k then grants L k @ [\<lparr>ap_level = l, ap_time = now x\<rparr>] else grants L k)"
| "grants ((x, Unapprove p n l) # L) k =
     (if Scoped p n = k then the (erase_level l (grants L k)) else grants L k)"
| "grants ((x, a) # L) k = (if closes k a then [] else grants L k)"

fun approval_times :: "history \<Rightarrow> scoped \<Rightarrow> time_point list" where
  "approval_times [] k = []"
| "approval_times ((x, Propose p n rs t) # L) k = (if Scoped p n = k then [] else approval_times L k)"
| "approval_times ((x, Approve p n l h) # L) k =
     (if Scoped p n = k then now x # approval_times L k else approval_times L k)"
| "approval_times ((x, a) # L) k = (if closes k a then [] else approval_times L k)"

fun invalidated :: "history \<Rightarrow> name \<Rightarrow> time_point option" where
  "invalidated [] n = None"
| "invalidated ((x, Invalidate a) # L) n = (if a = n then Some (now x) else invalidated L n)"
| "invalidated ((x, a) # L) n = invalidated L n"

definition standing :: "history \<Rightarrow> scoped \<Rightarrow> permission_level list" where
  "standing L k = map ap_level (filter (\<lambda>g. case invalidated L (fst (ap_level g)) of
     None \<Rightarrow> True | Some t \<Rightarrow> t < ap_time g) (grants L k))"

text \<open>Every action may meet another answer \<open>auth\<close> of the chain.\<close>

inductive msig_run :: "trx_api \<Rightarrow> history \<Rightarrow> msig_state \<Rightarrow> bool" for M where
  msig_start: "msig_run M [] msig_empty"
| msig_step: "msig_run M L s \<Longrightarrow> 0 \<le> now x \<Longrightarrow> now x < 2 ^ 62 \<Longrightarrow> msig_exec M auth x a s = Inr (s', acts) \<Longrightarrow>
     msig_run M ((x, a) # L) s'"

end
