(* ===== verification/Multisig_Props.thy ===== *)
theory Multisig_Props
  imports Multisig "HOL-Library.Multiset"
begin

text \<open>
  What the tables of \<open>flon.msig\<close> say is what the history says: \<open>tracks\<close> relates the two and every
  action keeps it. The properties of \<open>exec\<close> follow from it.
\<close>

section \<open>The tables and the history\<close>

definition row_agrees :: "trx_api \<Rightarrow> proposal option \<Rightarrow> approvals_info option \<Rightarrow> (permission_level list \<times> bytes) option
     \<Rightarrow> approval list \<Rightarrow> time_point list \<Rightarrow> bool" where
  "row_agrees M P A pd gs ts \<longleftrightarrow>
     (case pd of
        None \<Rightarrow> P = None \<and> A = None \<and> gs = []
      | Some (rs, t) \<Rightarrow> \<exists>pr a e. P = Some pr \<and> A = Some a
          \<and> pr_packed_transaction pr = t \<and> ai_provided_approvals a = gs
          \<and> mset (map ap_level (ai_requested_approvals a)) + mset (map ap_level gs) = mset rs
          \<and> pr_earliest_exec_time pr = Some e
          \<and> (\<forall>\<tau> h. e = Some \<tau> \<and> get_trx_header M t = Inr h \<longrightarrow>
               \<tau> \<in> (\<lambda>y. y + uint (th_delay_sec h) * 1000000) ` set ts))"

abbreviation row_tracks :: "trx_api \<Rightarrow> history \<Rightarrow> msig_state \<Rightarrow> scoped \<Rightarrow> bool" where
  "row_tracks M L s k \<equiv> row_agrees M (tfind (ms_proposals s) k) (tfind (ms_approvals s) k)
     (proposed L k) (grants L k) (approval_times L k)"

definition tracks :: "trx_api \<Rightarrow> history \<Rightarrow> msig_state \<Rightarrow> bool" where
  "tracks M L s \<longleftrightarrow> (\<forall>k. row_tracks M L s k)
     \<and> (\<forall>n. map_option iv_last_invalidation_time (tfind (ms_invals s) n) = invalidated L n)"

lemma row_tracks_None:
  assumes "row_tracks M L s k"
  shows "tfind (ms_proposals s) k = None \<longleftrightarrow> proposed L k = None" "tfind (ms_approvals s) k = None \<longleftrightarrow> proposed L k = None"
  using assms by (auto simp: row_agrees_def split: option.splits)

lemma row_tracksE:
  assumes "row_tracks M L s k" "tfind (ms_proposals s) k = Some pr"
  obtains rs a e where "proposed L k = Some (rs, pr_packed_transaction pr)" "tfind (ms_approvals s) k = Some a"
    "ai_provided_approvals a = grants L k"
    "mset (map ap_level (ai_requested_approvals a)) + mset (map ap_level (grants L k)) = mset rs"
    "pr_earliest_exec_time pr = Some e"
    "\<And>\<tau> h. e = Some \<tau> \<Longrightarrow> get_trx_header M (pr_packed_transaction pr) = Inr h \<Longrightarrow>
       \<tau> \<in> (\<lambda>y. y + uint (th_delay_sec h) * 1000000) ` set (approval_times L k)"
  using assms by (auto simp: row_agrees_def split: option.splits)

text \<open>An action on one proposal leaves the others alone.\<close>

definition only_at :: "scoped \<Rightarrow> msig_state \<Rightarrow> msig_state \<Rightarrow> bool" where
  "only_at k s s' \<longleftrightarrow> ms_invals s' = ms_invals s \<and> (\<forall>j. j \<noteq> k \<longrightarrow>
     tfind (ms_proposals s') j = tfind (ms_proposals s) j \<and> tfind (ms_approvals s') j = tfind (ms_approvals s) j)"

fun target :: "msig_action \<Rightarrow> scoped option" where
  "target (Propose p n rs t) = Some (Scoped p n)"
| "target (Approve p n l h) = Some (Scoped p n)"
| "target (Unapprove p n l) = Some (Scoped p n)"
| "target (Cancel p n c) = Some (Scoped p n)"
| "target (Exec p n e) = Some (Scoped p n)"
| "target (Invalidate a) = None"

lemma history_elsewhere:
  assumes "target a \<noteq> Some j"
  shows "proposed ((x, a) # L) j = proposed L j" "grants ((x, a) # L) j = grants L j"
    "approval_times ((x, a) # L) j = approval_times L j"
  using assms by (cases a; simp)+

lemma invalidated_elsewhere: "target a = Some k \<Longrightarrow> invalidated ((x, a) # L) n = invalidated L n"
  by (cases a) simp_all

lemma tracksI:
  assumes "tracks M L s" "target a = Some k" "only_at k s s'" "row_tracks M ((x, a) # L) s' k"
  shows "tracks M ((x, a) # L) s'"
proof -
  have "row_tracks M ((x, a) # L) s' j" for j
  proof (cases "j = k")
    case False
    then have "target a \<noteq> Some j" using assms(2) by simp
    moreover have "row_tracks M L s j" using assms(1) by (simp add: tracks_def)
    moreover have "tfind (ms_proposals s') j = tfind (ms_proposals s) j" "tfind (ms_approvals s') j = tfind (ms_approvals s) j"
      using False assms(3) by (simp_all add: only_at_def)
    ultimately show ?thesis by (simp add: history_elsewhere)
  qed (simp add: assms(4))
  moreover have "map_option iv_last_invalidation_time (tfind (ms_invals s') n) = invalidated ((x, a) # L) n" for n
    using assms(1-3) by (simp add: tracks_def only_at_def invalidated_elsewhere)
  ultimately show ?thesis by (simp add: tracks_def)
qed

lemma erase_level_mset:
  "erase_level l as = Some bs \<Longrightarrow> mset (map ap_level as) = add_mset l (mset (map ap_level bs))"
  by (induction as arbitrary: bs) (auto split: if_splits)

lemma erase_level_last:
  "\<exists>gs. erase_level l (as @ [\<lparr>ap_level = l, ap_time = t\<rparr>]) = Some gs \<and> (l \<notin> ap_level ` set as \<longrightarrow> gs = as)"
  by (induction as) auto

lemma delay_no_wrap:
  assumes "0 \<le> t" "t < 2 ^ 62"
  shows "i64 (t + uint (d :: 32 word) * 1000000) = t + uint d * 1000000"
proof -
  have d: "0 \<le> uint d" "uint d < 4294967296" using uint_lt2p [of d] by simp_all
  have "t < 4611686018427387904" using assms(2) by simp
  then have "t + uint d * 1000000 < 9223372036854775808" using d by linarith
  moreover have "0 \<le> t + uint d * 1000000" using d assms(1) by linarith
  moreover have "- (2 ^ 63) \<le> (0 :: int)" by simp
  ultimately show ?thesis by (intro i64_id; simp)
qed

section \<open>When an execution succeeds\<close>

definition ripe :: "ctx \<Rightarrow> proposal \<Rightarrow> transaction_header \<Rightarrow> bool" where
  "ripe x pr h \<longleftrightarrow> (case pr_earliest_exec_time pr of Some (Some t) \<Rightarrow> t \<le> now x | _ \<Rightarrow> th_delay_sec h = 0)"

lemma ripe_check:
  "rbind (case pr_earliest_exec_time pr of
       Some (Some t) \<Rightarrow> if \<not> t \<le> now x then Inl e1 else Inr ()
     | _ \<Rightarrow> if th_delay_sec h \<noteq> 0 then Inl e2 else Inr ()) (\<lambda>_. r) = Inr y \<longleftrightarrow> ripe x pr h \<and> r = Inr y"
  by (auto simp: ripe_def split: option.split)

lemma get_approvals_erased:
  "get_approvals_and_adjust_table p n terase s =
     (fst (get_approvals_and_adjust_table p n (\<lambda>_ t. t) s), s\<lparr>ms_approvals := terase (Scoped p n) (ms_approvals s)\<rparr>)"
  by (auto simp: get_approvals_and_adjust_table_def Let_def terase_absent split: option.split)

lemma exec_Inr:
  "exec M auth x p n e s = Inr (s', acts) \<longleftrightarrow> has_auth x e \<and> (\<exists>pr h r r' r''.
     tfind (ms_proposals s) (Scoped p n) = Some pr \<and> read_header M (pr_packed_transaction pr) = Inr (h, r)
     \<and> to_sec (now x) \<le> th_expiration h \<and> read_actions M r = Inr ([], r') \<and> read_actions M r' = Inr (acts, r'')
     \<and> trx_is_authorized M auth (fst (get_approvals_and_adjust_table p n (\<lambda>_ t. t) s)) (pr_packed_transaction pr)
     \<and> ripe x pr h
     \<and> s' = s\<lparr>ms_approvals := terase (Scoped p n) (ms_approvals s), ms_proposals := terase (Scoped p n) (ms_proposals s)\<rparr>)"
  by (cases "tfind (ms_proposals s) (Scoped p n)")
    (auto simp: exec_def Let_def get_approvals_erased ripe_check simp del: rbind_eq_Inr simp: rbind_eq_Inr [where m = "read_header M b" for b]
      rbind_eq_Inr [where m = "read_actions M b" for b])

section \<open>Every action keeps them in step\<close>

lemma propose_tracks:
  assumes T: "tracks M L s" and run: "propose M auth x p n rs t s = Inr s'"
  shows "tracks M ((x, Propose p n rs t) # L) s'"
proof (rule tracksI [OF T])
  show "target (Propose p n rs t) = Some (Scoped p n)" by simp
  show "only_at (Scoped p n) s s'" "row_tracks M ((x, Propose p n rs t) # L) s' (Scoped p n)"
    using run by (auto simp: propose_def Let_def only_at_def row_agrees_def tfind_tput multiset.map_comp comp_def)
qed

lemma approve_tracks:
  assumes T: "tracks M L s" and now: "0 \<le> now x" "now x < 2 ^ 62" and run: "approve M auth x p n l hash s = Inr s'"
  shows "tracks M ((x, Approve p n l hash) # L) s'"
proof (rule tracksI [OF T])
  let ?k = "Scoped p n"
  show "target (Approve p n l hash) = Some ?k" by simp
  obtain pr where pr: "tfind (ms_proposals s) ?k = Some pr" using run by (auto simp: approve_def Let_def split: option.splits)
  have "row_tracks M L s ?k" using T by (simp add: tracks_def)
  then obtain rs a e where r: "proposed L ?k = Some (rs, pr_packed_transaction pr)" and a: "tfind (ms_approvals s) ?k = Some a"
    "ai_provided_approvals a = grants L ?k"
    "mset (map ap_level (ai_requested_approvals a)) + mset (map ap_level (grants L ?k)) = mset rs"
    and e: "pr_earliest_exec_time pr = Some e"
    "\<And>\<tau> h. e = Some \<tau> \<Longrightarrow> get_trx_header M (pr_packed_transaction pr) = Inr h \<Longrightarrow>
       \<tau> \<in> (\<lambda>y. y + uint (th_delay_sec h) * 1000000) ` set (approval_times L ?k)"
    by (rule row_tracksE [OF _ pr]) (rule that)
  define a' where "a' rest = a\<lparr>ai_provided_approvals := ai_provided_approvals a @ [\<lparr>ap_level = l, ap_time = now x\<rparr>],
      ai_requested_approvals := rest\<rparr>" for rest
  from run pr a(1) obtain rest h where rest: "erase_level l (ai_requested_approvals a) = Some rest"
    and h: "get_trx_header M (pr_packed_transaction pr) = Inr h"
    and s': "s' = s\<lparr>ms_approvals := tput ?k (a' rest) (ms_approvals s)\<rparr> \<or> e = None \<and>
       s' = s\<lparr>ms_approvals := tput ?k (a' rest) (ms_approvals s), ms_proposals := tput ?k
                  (pr\<lparr>pr_earliest_exec_time := Some (Some (now x + uint (th_delay_sec h) * 1000000))\<rparr>) (ms_proposals s)\<rparr>"
    by (auto simp: approve_def Let_def a'_def e(1) delay_no_wrap [OF now] split: option.splits if_splits)
  show "only_at ?k s s'" using s' by (auto simp: only_at_def tfind_tput)
  have m: "mset (map ap_level rest) + mset (map ap_level (grants L ?k @ [\<lparr>ap_level = l, ap_time = now x\<rparr>])) = mset rs"
    using erase_level_mset [OF rest] a(3) by simp
  show "row_tracks M ((x, Approve p n l hash) # L) s' ?k"
    using s' r a(1,2) e m h pr by (auto simp: row_agrees_def tfind_tput a'_def)
qed

lemma unapprove_tracks:
  assumes T: "tracks M L s" and run: "unapprove M auth x p n l s = Inr s'"
  shows "tracks M ((x, Unapprove p n l) # L) s'"
proof (rule tracksI [OF T])
  let ?k = "Scoped p n"
  show "target (Unapprove p n l) = Some ?k" by simp
  obtain pr where pr: "tfind (ms_proposals s) ?k = Some pr" using run by (auto simp: unapprove_def Let_def split: option.splits)
  have "row_tracks M L s ?k" using T by (simp add: tracks_def)
  then obtain rs a e where r: "proposed L ?k = Some (rs, pr_packed_transaction pr)" and a: "tfind (ms_approvals s) ?k = Some a"
    "ai_provided_approvals a = grants L ?k"
    "mset (map ap_level (ai_requested_approvals a)) + mset (map ap_level (grants L ?k)) = mset rs"
    and e: "pr_earliest_exec_time pr = Some e"
    "\<And>\<tau> h. e = Some \<tau> \<Longrightarrow> get_trx_header M (pr_packed_transaction pr) = Inr h \<Longrightarrow>
       \<tau> \<in> (\<lambda>y. y + uint (th_delay_sec h) * 1000000) ` set (approval_times L ?k)"
    by (rule row_tracksE [OF _ pr]) (rule that)
  define a' where "a' rest = a\<lparr>ai_requested_approvals := ai_requested_approvals a @ [\<lparr>ap_level = l, ap_time = now x\<rparr>],
      ai_provided_approvals := rest\<rparr>" for rest
  from run pr a(1) obtain rest where rest: "erase_level l (ai_provided_approvals a) = Some rest"
    and s': "s' = s\<lparr>ms_approvals := tput ?k (a' rest) (ms_approvals s)\<rparr> \<or>
       s' = s\<lparr>ms_approvals := tput ?k (a' rest) (ms_approvals s), ms_proposals := tput ?k
                  (pr\<lparr>pr_earliest_exec_time := Some None\<rparr>) (ms_proposals s)\<rparr>"
    by (auto simp: unapprove_def Let_def a'_def e(1) split: option.splits if_splits)
  show "only_at ?k s s'" using s' by (auto simp: only_at_def tfind_tput)
  have m: "mset (map ap_level (ai_requested_approvals a @ [\<lparr>ap_level = l, ap_time = now x\<rparr>])) + mset (map ap_level rest) = mset rs"
    using erase_level_mset [OF rest] a(2,3) by simp
  show "row_tracks M ((x, Unapprove p n l) # L) s' ?k"
    using s' r a(1,2) e m rest pr by (auto simp: row_agrees_def tfind_tput a'_def)
qed

lemma cancel_tracks: "tracks M L s \<Longrightarrow> cancel M x p n c s = Inr s' \<Longrightarrow> tracks M ((x, Cancel p n c) # L) s'"
  by (rule tracksI [where k = "Scoped p n"])
    (auto simp: cancel_def Let_def only_at_def row_agrees_def tfind_terase split: option.splits if_splits)

lemma exec_tracks: "tracks M L s \<Longrightarrow> exec M auth x p n e s = Inr (s', acts) \<Longrightarrow> tracks M ((x, Exec p n e) # L) s'"
  by (rule tracksI [where k = "Scoped p n"])
    (auto simp: exec_Inr only_at_def row_agrees_def tfind_terase)

lemma invalidate_tracks:
  assumes "tracks M L s" "invalidate x n s = Inr s'"
  shows "tracks M ((x, Invalidate n) # L) s'"
proof -
  have "row_tracks M ((x, Invalidate n) # L) s' k" for k
    using assms by (auto simp: invalidate_def tracks_def split: option.splits if_splits)
  moreover have "map_option iv_last_invalidation_time (tfind (ms_invals s') m) = invalidated ((x, Invalidate n) # L) m" for m
    using assms by (auto simp: invalidate_def tracks_def tfind_tput split: option.splits if_splits)
  ultimately show ?thesis by (simp add: tracks_def)
qed

lemma msig_run_tracks: "msig_run M L s \<Longrightarrow> tracks M L s"
proof (induction rule: msig_run.induct)
  case msig_start
  show ?case by (simp add: tracks_def row_agrees_def msig_empty_def)
next
  case (msig_step L s x auth a s' acts)
  then show ?case
    using propose_tracks approve_tracks unapprove_tracks cancel_tracks exec_tracks invalidate_tracks by (cases a) auto
qed

section \<open>Approvals are signed\<close>

lemma erase_level_mem: "erase_level l as = Some bs \<Longrightarrow> g \<in> set bs \<Longrightarrow> g \<in> set as"
  by (induction as arbitrary: bs) (auto split: if_splits)

lemma approve_signed: "approve M auth x p n l h s = Inr s' \<Longrightarrow> has_perm x (fst l) (snd l)"
  by (simp add: approve_def Let_def)

lemma unapprove_given:
  "unapprove M auth x p n l s = Inr s' \<Longrightarrow>
     \<exists>a bs. tfind (ms_approvals s) (Scoped p n) = Some a \<and> erase_level l (ai_provided_approvals a) = Some bs"
  by (auto simp: unapprove_def Let_def split: option.splits)

text \<open>An approval that counts was given by its holder.\<close>

lemma grants_signed:
  assumes "msig_run M L s" "g \<in> set (grants L (Scoped p n))"
  shows "\<exists>y h. (y, Approve p n (ap_level g) h) \<in> set L \<and> has_perm y (fst (ap_level g)) (snd (ap_level g)) \<and> now y = ap_time g"
  using assms
proof (induction rule: msig_run.induct)
  case (msig_step L s x auth a s' acts)
  let ?k = "Scoped p n"
  have T: "tracks M L s" by (rule msig_run_tracks [OF msig_step.hyps(1)])
  consider "g \<in> set (grants L ?k)" | l h where "a = Approve p n l h" "g = \<lparr>ap_level = l, ap_time = now x\<rparr>"
  proof (cases a)
    case (Unapprove q m l)
    have "\<exists>bs. erase_level l (grants L ?k) = Some bs" if eq: "Scoped q m = ?k"
    proof -
      obtain b bs where "tfind (ms_approvals s) ?k = Some b" "erase_level l (ai_provided_approvals b) = Some bs"
        using msig_step.hyps(4) Unapprove eq unapprove_given [of M auth x p n l s s'] by auto
      then show ?thesis using T by (auto simp: tracks_def row_agrees_def dest!: spec [where x = ?k] split: option.splits)
    qed
    then have "g \<in> set (grants L ?k)"
      using msig_step.prems Unapprove erase_level_mem [of l "grants L ?k" _ g] by (auto split: if_splits)
    then show ?thesis by (rule that(1))
  qed (use that msig_step.prems in \<open>auto split: if_splits\<close>)
  then show ?case
  proof cases
    case 1
    then show ?thesis using msig_step.IH by auto
  next
    case 2
    then show ?thesis using msig_step.hyps(4) by (auto dest: approve_signed)
  qed
qed simp

lemma tracks_standing:
  assumes "tracks M L s"
  shows "fst (get_approvals_and_adjust_table p n (\<lambda>_ t. t) s) = standing L (Scoped p n)"
proof -
  have v: "still_valid (ms_invals s) = (\<lambda>g. case invalidated L (fst (ap_level g)) of None \<Rightarrow> True | Some t \<Rightarrow> t < ap_time g)"
  proof
    fix g :: approval
    have "invalidated L (fst (ap_level g)) = map_option iv_last_invalidation_time (tfind (ms_invals s) (fst (ap_level g)))"
      using assms by (simp add: tracks_def)
    then show "still_valid (ms_invals s) g = (case invalidated L (fst (ap_level g)) of None \<Rightarrow> True | Some t \<Rightarrow> t < ap_time g)"
      by (simp add: still_valid_def split: option.split)
  qed
  have "row_tracks M L s (Scoped p n)" using assms by (simp add: tracks_def)
  then show ?thesis unfolding standing_def v [symmetric]
    by (auto simp: get_approvals_and_adjust_table_def Let_def row_agrees_def split: option.splits)
qed

lemma standing_requested: "tracks M L s \<Longrightarrow> proposed L k = Some (rs, t) \<Longrightarrow> set (standing L k) \<subseteq> set rs"
proof -
  assume "tracks M L s" "proposed L k = Some (rs, t)"
  then have "mset (map ap_level (grants L k)) \<subseteq># mset rs"
    by (auto simp: tracks_def row_agrees_def dest!: spec [where x = k]) (metis mset_subset_eq_add_right)
  then have "set (map ap_level (grants L k)) \<subseteq> set rs" by (metis set_mset_mono set_mset_mset)
  then show ?thesis by (auto simp: standing_def)
qed

section \<open>A sample history\<close>

text \<open>
  A small wire format: one byte of seconds until expiration, one byte of delay, and lists of
  one-byte actions behind their length. Two levels are needed.
\<close>

definition demo_api :: trx_api where
  "demo_api = \<lparr>read_header = (\<lambda>b. case b of
       e # d # r \<Rightarrow> Inr (\<lparr>th_expiration = 1700000000 + ucast e, th_ref_block_num = 0, th_ref_block_prefix = 0,
                         th_max_net_usage_words = 0, th_max_cpu_usage_ms = 0, th_delay_sec = ucast d\<rparr>, r)
     | _ \<Rightarrow> Inl (Library ''datastream attempted to read past the end'')),
     read_actions = (\<lambda>b. case b of
       c # r \<Rightarrow> if unat c \<le> length r
         then Inr (map (\<lambda>v. \<lparr>ra_account = token_account, ra_name = 1, ra_authorization = [], ra_data = [v]\<rparr>) (take (unat c) r),
                   drop (unat c) r)
         else Inl (Library ''datastream attempted to read past the end'')
     | _ \<Rightarrow> Inl (Library ''datastream attempted to read past the end'')),
     read_name = (\<lambda>b. Inl (Library ''datastream attempted to read past the end'')),
     pack_levels = map (\<lambda>(a, _). ucast (drop_bit 56 a)),
     digest = rev\<rparr>"

definition demo_auth :: authority_check where
  "demo_auth trx levels = (if 0x34 \<in> set levels \<and> 0x3d \<in> set levels then 1 else 0)"

definition demo_time :: "int \<Rightarrow> name list \<Rightarrow> ctx" where
  "demo_time seconds ns = (demo_ctx system_account ns)\<lparr>now := 1700000000000000 + seconds * 1000000\<rparr>"

fun msig_replay :: "trx_api \<Rightarrow> authority_check \<Rightarrow> history \<Rightarrow> msig_state res" where
  "msig_replay M auth [] = Inr msig_empty"
| "msig_replay M auth ((x, a) # L) =
     rbind (msig_replay M auth L) (\<lambda>s. rbind (msig_exec M auth x a s) (\<lambda>(s', _). Inr s'))"

lemma msig_replay_run:
  "msig_replay M auth L = Inr s \<Longrightarrow> list_all (\<lambda>(x, _). 0 \<le> now x \<and> now x < 2 ^ 62) L \<Longrightarrow> msig_run M L s"
proof (induction L arbitrary: s)
  case (Cons xa L)
  obtain x a where xa: "xa = (x, a)" by (cases xa)
  from Cons.prems(1) obtain s0 acts where "msig_replay M auth L = Inr s0" "msig_exec M auth x a s0 = Inr (s, acts)"
    by (auto simp: xa simp del: msig_exec.simps)
  then show ?case using Cons.IH Cons.prems(2) msig_step by (simp add: xa)
qed (simp add: msig_start)

definition demo_history :: history where
  "demo_history =
    [(demo_time 2 [bob], Approve carol 5 (bob, active_permission) (Some [7, 1, 0, 10, 100])),
     (demo_time 1 [alice], Approve carol 5 (alice, active_permission) None),
     (demo_time 0 [carol], Propose carol 5 [(alice, active_permission), (bob, active_permission)] [100, 10, 0, 1, 7])]"

definition demo_msig :: msig_state where
  "demo_msig =
     \<lparr>ms_proposals = [(Scoped carol 5, \<lparr>pr_proposal_name = 5, pr_packed_transaction = [100, 10, 0, 1, 7],
          pr_earliest_exec_time = Some (Some 1700000012000000)\<rparr>)],
      ms_approvals = [(Scoped carol 5, \<lparr>ai_version = 1, ai_proposal_name = 5, ai_requested_approvals = [],
          ai_provided_approvals = [\<lparr>ap_level = (alice, active_permission), ap_time = 1700000001000000\<rparr>,
            \<lparr>ap_level = (bob, active_permission), ap_time = 1700000002000000\<rparr>]\<rparr>)],
      ms_invals = []\<rparr>"

lemma demo_msig_run: "msig_run demo_api demo_history demo_msig"
proof (rule msig_replay_run)
  show "msig_replay demo_api demo_auth demo_history = Inr demo_msig" by code_simp
  show "list_all (\<lambda>(x, _). 0 \<le> now x \<and> now x < 2 ^ 62) demo_history" by code_simp
qed

definition demo_proposed :: msig_state where
  "demo_proposed =
     \<lparr>ms_proposals = [(Scoped carol 5, \<lparr>pr_proposal_name = 5, pr_packed_transaction = [100, 10, 0, 1, 7],
          pr_earliest_exec_time = Some None\<rparr>)],
      ms_approvals = [(Scoped carol 5, \<lparr>ai_version = 1, ai_proposal_name = 5,
          ai_requested_approvals = [\<lparr>ap_level = (alice, active_permission), ap_time = 0\<rparr>, \<lparr>ap_level = (bob, active_permission), ap_time = 0\<rparr>],
          ai_provided_approvals = []\<rparr>)],
      ms_invals = []\<rparr>"

lemma demo_proposed_run: "msig_run demo_api (drop 2 demo_history) demo_proposed"
proof (rule msig_replay_run)
  show "msig_replay demo_api demo_auth (drop 2 demo_history) = Inr demo_proposed" by code_simp
  show "list_all (\<lambda>(x, _). 0 \<le> now x \<and> now x < 2 ^ 62) (drop 2 demo_history)" by code_simp
qed

definition demo_actions :: "raw_action list" where
  "demo_actions = [\<lparr>ra_account = token_account, ra_name = 1, ra_authorization = [], ra_data = [7]\<rparr>]"

lemma demo_executes:
  "msig_exec demo_api demo_auth (demo_time 30 [carol]) (Exec carol 5 carol) demo_msig
     = Inr (demo_msig\<lparr>ms_approvals := [], ms_proposals := []\<rparr>, demo_actions)"
  by code_simp

section \<open>Properties\<close>

text \<open>C12: nothing is executed without approval. When a proposal is executed, the actions sent are
  those of the transaction its proposer stored, the transaction has not expired, the chain accepts
  it with the approvals that stand (given, not taken back and later than the last invalidation
  of their account), every such approval was asked for and signed by its holder, and a
  delay has passed since one of the approvals.\<close>
theorem exec_authorized:
  assumes "msig_run M L s" "msig_exec M auth x (Exec p n e) s = Inr (s', acts)"
  shows "has_auth x e \<and> (\<exists>rs trx h r r' r''. proposed L (Scoped p n) = Some (rs, trx)
     \<and> read_header M trx = Inr (h, r) \<and> read_actions M r = Inr ([], r') \<and> read_actions M r' = Inr (acts, r'')
     \<and> to_sec (now x) \<le> th_expiration h
     \<and> auth trx (pack_levels M (standing L (Scoped p n))) \<noteq> 0
     \<and> set (standing L (Scoped p n)) \<subseteq> set rs
     \<and> (\<forall>l \<in> set (standing L (Scoped p n)). \<exists>y hash. (y, Approve p n l hash) \<in> set L \<and> has_perm y (fst l) (snd l))
     \<and> (th_delay_sec h = 0 \<or> (\<exists>t \<in> set (approval_times L (Scoped p n)). t + uint (th_delay_sec h) * 1000000 \<le> now x)))"
proof -
  let ?k = "Scoped p n"
  have T: "tracks M L s" by (rule msig_run_tracks [OF assms(1)])
  from assms(2) obtain pr h r r' r'' where a: "has_auth x e" and pr: "tfind (ms_proposals s) ?k = Some pr"
    and h: "read_header M (pr_packed_transaction pr) = Inr (h, r)" "to_sec (now x) \<le> th_expiration h"
    and acts: "read_actions M r = Inr ([], r')" "read_actions M r' = Inr (acts, r'')"
    and ok: "trx_is_authorized M auth (standing L ?k) (pr_packed_transaction pr)" "ripe x pr h"
    by (auto simp: exec_Inr tracks_standing [OF T])
  have "row_tracks M L s ?k" using T by (simp add: tracks_def)
  then obtain rs b ee where rs: "proposed L ?k = Some (rs, pr_packed_transaction pr)" "pr_earliest_exec_time pr = Some ee"
    "\<And>\<tau> h. ee = Some \<tau> \<Longrightarrow> get_trx_header M (pr_packed_transaction pr) = Inr h \<Longrightarrow>
       \<tau> \<in> (\<lambda>y. y + uint (th_delay_sec h) * 1000000) ` set (approval_times L ?k)"
    by (rule row_tracksE [OF _ pr]) (rule that)
  have delay: "th_delay_sec h = 0 \<or> (\<exists>t \<in> set (approval_times L ?k). t + uint (th_delay_sec h) * 1000000 \<le> now x)"
  proof (cases ee)
    case (Some t)
    then have "t \<in> (\<lambda>y. y + uint (th_delay_sec h) * 1000000) ` set (approval_times L ?k)" "t \<le> now x"
      using rs(2) rs(3) [of t h] h(1) ok(2) by (auto simp: ripe_def get_trx_header_def)
    then show ?thesis by auto
  qed (use ok(2) rs(2) in \<open>simp add: ripe_def\<close>)
  have signed: "\<exists>y hash. (y, Approve p n l hash) \<in> set L \<and> has_perm y (fst l) (snd l)" if "l \<in> set (standing L ?k)" for l
    using that grants_signed [OF assms(1)] by (fastforce simp: standing_def)
  from standing_requested [OF T rs(1)] show ?thesis
    using a rs(1) h acts ok(1) delay signed by (auto simp: trx_is_authorized_def)
qed

theorem exec_authorized_witness:
  "msig_exec demo_api demo_auth (demo_time 30 [carol]) (Exec carol 5 carol) demo_msig
      = Inr (demo_msig\<lparr>ms_approvals := [], ms_proposals := []\<rparr>, demo_actions)
   \<and> set (standing demo_history (Scoped carol 5)) \<subseteq> {(alice, active_permission), (bob, active_permission)}"
proof -
  have p: "proposed demo_history (Scoped carol 5) = Some ([(alice, active_permission), (bob, active_permission)], [100, 10, 0, 1, 7])"
    by code_simp
  show ?thesis using exec_authorized [OF demo_msig_run demo_executes] demo_executes p by auto
qed

text \<open>A proposal is executed at most once. Afterwards it is gone: executing, approving, taking back
  an approval or cancelling it is refused, until it is proposed again.\<close>
lemma exec_once:
  assumes "msig_run M L s" "msig_exec M auth x (Exec p n e) s = Inr (s', acts)"
    "a \<in> {Exec p n e', Approve p n l hash, Unapprove p n l, Cancel p n c}"
    "has_auth y e'" "has_perm y (fst l) (snd l)" "has_auth y c"
  shows "msig_exec M auth' y a s' = Inl (Check ''proposal not found'')"
proof -
  have "tfind (ms_proposals s') (Scoped p n) = None" "tfind (ms_approvals s') (Scoped p n) = None"
    using assms(2) by (auto simp: exec_Inr tfind_terase)
  then show ?thesis using assms(3-6) by (auto simp: exec_def approve_def unapprove_def cancel_def Let_def)
qed

lemma exec_once_example:
  "msig_exec demo_api demo_auth (demo_time 40 [carol]) (Exec carol 5 carol)
     (demo_msig\<lparr>ms_approvals := [], ms_proposals := []\<rparr>) = Inl (Check ''proposal not found'')"
proof -
  have y: "has_auth (demo_time 40 [carol]) carol" "has_perm (demo_time 40 [carol]) (fst (carol, active_permission)) (snd (carol, active_permission))"
    by code_simp+
  show ?thesis by (rule exec_once [OF demo_msig_run demo_executes _ y y(1)]) simp
qed

text \<open>C13: the tables say what the history says. A proposal is stored exactly while it is open, with its
  transaction and the approvals given; the approvals that count are the standing ones; and the levels
  still asked together with those that approved are the levels that were asked for, with
  multiplicity.\<close>
theorem msig_tables:
  assumes "msig_run M L s"
  shows "map_option pr_packed_transaction (tfind (ms_proposals s) (Scoped p n)) = map_option snd (proposed L (Scoped p n))
     \<and> map_option ai_provided_approvals (tfind (ms_approvals s) (Scoped p n))
         = map_option (\<lambda>_. grants L (Scoped p n)) (proposed L (Scoped p n))
     \<and> fst (get_approvals_and_adjust_table p n (\<lambda>_ t. t) s) = standing L (Scoped p n)
     \<and> map_option (\<lambda>a. mset (map ap_level (ai_requested_approvals a @ ai_provided_approvals a))) (tfind (ms_approvals s) (Scoped p n))
         = map_option (\<lambda>(rs, _). mset rs) (proposed L (Scoped p n))
     \<and> map_option iv_last_invalidation_time (tfind (ms_invals s) m) = invalidated L m"
proof -
  have T: "tracks M L s" by (rule msig_run_tracks [OF assms])
  then have r: "row_tracks M L s (Scoped p n)" and i: "map_option iv_last_invalidation_time (tfind (ms_invals s) m) = invalidated L m"
    by (simp_all add: tracks_def)
  show ?thesis using r i tracks_standing [OF T] by (auto simp: row_agrees_def split: option.splits)
qed

theorem msig_tables_witness:
  "fst (get_approvals_and_adjust_table carol 5 (\<lambda>_ t. t) demo_msig) = standing demo_history (Scoped carol 5)
   \<and> standing demo_history (Scoped carol 5) = [(alice, active_permission), (bob, active_permission)]"
proof -
  have "standing demo_history (Scoped carol 5) = [(alice, active_permission), (bob, active_permission)]" by code_simp
  then show ?thesis using msig_tables [OF demo_msig_run, of carol 5] by blast
qed

text \<open>An approval can be taken back. Right after it was given, its holder can take it back, the
  same levels are asked as before, and if the level had not approved before, the approvals are those
  of before.\<close>
lemma approve_unapprove:
  assumes "msig_run M L s" "approve M auth x p n l hash s = Inr s1" "has_perm y (fst l) (snd l)" "0 \<le> now x" "now x < 2 ^ 62"
  shows "\<exists>s2 a a2. unapprove M auth' y p n l s1 = Inr s2
     \<and> tfind (ms_approvals s) (Scoped p n) = Some a \<and> tfind (ms_approvals s2) (Scoped p n) = Some a2
     \<and> mset (map ap_level (ai_requested_approvals a2)) = mset (map ap_level (ai_requested_approvals a))
     \<and> (l \<notin> ap_level ` set (ai_provided_approvals a) \<longrightarrow> ai_provided_approvals a2 = ai_provided_approvals a)"
proof -
  let ?k = "Scoped p n"
  have T: "tracks M L s" by (rule msig_run_tracks [OF assms(1)])
  have T1: "row_tracks M ((x, Approve p n l hash) # L) s1 ?k"
    using approve_tracks [OF T assms(4,5,2)] unfolding tracks_def by blast
  obtain pr where "tfind (ms_proposals s) ?k = Some pr" using assms(2) by (auto simp: approve_def Let_def split: option.splits)
  then obtain a where a: "tfind (ms_approvals s) ?k = Some a" "proposed L ?k \<noteq> None"
    using T by (auto simp: tracks_def row_agrees_def dest!: spec [where x = ?k] split: option.splits)
  obtain rest where rest: "erase_level l (ai_requested_approvals a) = Some rest"
    "tfind (ms_approvals s1) ?k = Some (a\<lparr>ai_provided_approvals := ai_provided_approvals a @ [\<lparr>ap_level = l, ap_time = now x\<rparr>],
        ai_requested_approvals := rest\<rparr>)"
    using assms(2) a(1) by (auto simp: approve_def Let_def tfind_tput split: option.splits if_splits)
  obtain pr1 e where pr1: "tfind (ms_proposals s1) ?k = Some pr1" "pr_earliest_exec_time pr1 = Some e"
    using T1 a(2) by (auto simp: row_agrees_def split: option.splits)
  obtain gs where gs: "erase_level l (ai_provided_approvals a @ [\<lparr>ap_level = l, ap_time = now x\<rparr>]) = Some gs"
    "l \<notin> ap_level ` set (ai_provided_approvals a) \<Longrightarrow> gs = ai_provided_approvals a"
    using erase_level_last [of l "ai_provided_approvals a" "now x"] by auto
  define a2 where "a2 = a\<lparr>ai_requested_approvals := rest @ [\<lparr>ap_level = l, ap_time = now y\<rparr>], ai_provided_approvals := gs\<rparr>"
  have "\<exists>s2. unapprove M auth' y p n l s1 = Inr s2 \<and> tfind (ms_approvals s2) ?k = Some a2"
    using assms(3) rest(2) pr1 gs(1) by (auto simp: unapprove_def Let_def tfind_tput a2_def split: option.split)
  moreover have "mset (map ap_level (ai_requested_approvals a2)) = mset (map ap_level (ai_requested_approvals a))"
    using erase_level_mset [OF rest(1)] by (simp add: a2_def)
  ultimately show ?thesis using a(1) gs(2) by (auto simp: a2_def)
qed

lemma approve_unapprove_example:
  "\<exists>s2. unapprove demo_api demo_auth (demo_time 2 [alice]) carol 5 (alice, active_permission)
     (demo_proposed\<lparr>ms_approvals := [(Scoped carol 5, \<lparr>ai_version = 1, ai_proposal_name = 5,
        ai_requested_approvals = [\<lparr>ap_level = (bob, active_permission), ap_time = 0\<rparr>],
        ai_provided_approvals = [\<lparr>ap_level = (alice, active_permission), ap_time = 1700000001000000\<rparr>]\<rparr>)]\<rparr>) = Inr s2"
proof -
  let ?x = "demo_time 1 [alice]" and ?l = "(alice, active_permission)"
  have a: "approve demo_api demo_auth ?x carol 5 ?l None demo_proposed =
     Inr (demo_proposed\<lparr>ms_approvals := [(Scoped carol 5, \<lparr>ai_version = 1, ai_proposal_name = 5,
        ai_requested_approvals = [\<lparr>ap_level = (bob, active_permission), ap_time = 0\<rparr>],
        ai_provided_approvals = [\<lparr>ap_level = (alice, active_permission), ap_time = 1700000001000000\<rparr>]\<rparr>)]\<rparr>)"
    by code_simp
  have y: "has_perm (demo_time 2 [alice]) (fst ?l) (snd ?l)" "0 \<le> now ?x" "now ?x < 2 ^ 62" by code_simp+
  show ?thesis using approve_unapprove [OF demo_proposed_run a y] by blast
qed

text \<open>Who can cancel. A stored proposal with a readable header can be cancelled by its proposer at any
  time and by everybody else exactly once the transaction has expired; then both of its rows are
  gone and nothing else changes.\<close>
lemma cancel_iff:
  assumes "msig_run M L s" "proposed L (Scoped p n) = Some (rs, trx)" "read_header M trx = Inr (h, r)"
  shows "cancel M x p n c s = Inr s' \<longleftrightarrow> has_auth x c \<and> (c = p \<or> th_expiration h < to_sec (now x))
     \<and> s' = s\<lparr>ms_proposals := terase (Scoped p n) (ms_proposals s), ms_approvals := terase (Scoped p n) (ms_approvals s)\<rparr>"
proof -
  obtain pr where pr: "tfind (ms_proposals s) (Scoped p n) = Some pr" "pr_packed_transaction pr = trx"
    using msig_run_tracks [OF assms(1)] assms(2) by (auto simp: tracks_def row_agrees_def dest!: spec [where x = "Scoped p n"])
  then show ?thesis using assms(3) by (auto simp: cancel_def Let_def get_trx_header_def)
qed

lemma cancel_iff_example:
  "cancel demo_api (demo_time 200 [bob]) carol 5 bob demo_msig
     = Inr (demo_msig\<lparr>ms_proposals := terase (Scoped carol 5) (ms_proposals demo_msig),
              ms_approvals := terase (Scoped carol 5) (ms_approvals demo_msig)\<rparr>)"
proof -
  let ?h = "\<lparr>th_expiration = 1700000100, th_ref_block_num = 0, th_ref_block_prefix = 0,
      th_max_net_usage_words = 0, th_max_cpu_usage_ms = 0, th_delay_sec = 10\<rparr>"
  have p: "proposed demo_history (Scoped carol 5) = Some ([(alice, active_permission), (bob, active_permission)], [100, 10, 0, 1, 7])"
    and h: "read_header demo_api [100, 10, 0, 1, 7] = Inr (?h, [0, 1, 7])"
    and x: "has_auth (demo_time 200 [bob]) bob" "th_expiration ?h < to_sec (now (demo_time 200 [bob]))" by code_simp+
  show ?thesis using cancel_iff [OF demo_msig_run p h] x by blast
qed

end
