(* ===== verification/Base58_Props.thy ===== *)
theory Base58_Props
  imports Base58
begin

text \<open>The decoder computes a change of base, and its buffer is always large enough.\<close>

section \<open>Characters\<close>

lemma mapBase58_length: "length mapBase58 = 256"
  by (simp add: mapBase58_def)

lemma char_code: "of_char c < (256 :: nat)"
  by (cases c) (auto split: if_splits)

lemma b58_digit_range: "b58_digit c = - 1 \<or> (0 \<le> b58_digit c \<and> b58_digit c < 58)"
proof -
  have "list_all (\<lambda>d. d = - 1 \<or> (0 \<le> d \<and> d < 58)) mapBase58" by code_simp
  moreover have "b58_digit c \<in> set mapBase58" unfolding b58_digit_def by (rule nth_mem) (simp add: mapBase58_length char_code)
  ultimately show ?thesis by (auto simp: list_all_iff)
qed

text \<open>The table is the inverse of the alphabet.\<close>

lemma alphabet: "map b58_digit pszBase58 = map int [0..<58]"
  by code_simp

abbreviation digit_char :: "char \<Rightarrow> bool" where
  "digit_char c \<equiv> b58_digit c \<noteq> - 1"

lemma digit_not_space: "isspace c \<Longrightarrow> b58_digit c = - 1"
proof -
  assume "isspace c"
  then have "of_char c \<in> set ([32, 9, 10, 11, 12, 13] :: nat list)" by (auto simp: isspace_def)
  moreover have "list_all (\<lambda>i. mapBase58 ! i = - 1) [32, 9, 10, 11, 12, 13]" by code_simp
  ultimately show "b58_digit c = - 1" by (auto simp: b58_digit_def list_all_iff)
qed

section \<open>The loops\<close>

lemma b58_inner_spec:
  assumes "b58_inner carry i len bs = (bs', c', i')" "list_all (\<lambda>b. b = 0) (drop (len - i) bs)" "b256.digits_ok bs" "carry < 58"
  shows "length bs' = length bs \<and> b256.digits_ok bs'
    \<and> b256.low_value bs' + 256 ^ length bs * c' = 58 * b256.low_value bs + carry
    \<and> i \<le> i' \<and> list_all (\<lambda>b. b = 0) (drop (i' - i) bs')"
  using assms
proof (induction bs arbitrary: carry i bs' c' i')
  case (Cons b bs)
  show ?case
  proof (cases "carry \<noteq> 0 \<or> i < len")
    case True
    define c where "c = carry + 58 * b"
    obtain ds where r: "b58_inner (c div 256) (Suc i) len bs = (ds, c', i')" "bs' = c mod 256 # ds"
      using Cons.prems(1) True by (auto simp: c_def Let_def split: prod.splits)
    have b: "b < 256" "b256.digits_ok bs" using Cons.prems(3) by (auto simp: b256.digits_ok_def)
    have z: "list_all (\<lambda>b. b = 0) (drop (len - Suc i) bs)"
      using Cons.prems(2) by (cases "i < len") (auto simp: Suc_diff_Suc [symmetric])
    have "c < 58 * 256" using b(1) Cons.prems(4) by (simp add: c_def)
    then have "c div 256 < 58" by (simp add: less_mult_imp_div_less)
    note IH = Cons.IH [OF r(1) z b(2) this]
    have "b256.low_value bs' + 256 ^ length (b # bs) * c' = c mod 256 + 256 * (b256.low_value ds + 256 ^ length bs * c')"
      by (simp add: r(2) distrib_left)
    also have "\<dots> = c mod 256 + 256 * (58 * b256.low_value bs + c div 256)" using IH by simp
    also have "\<dots> = 58 * (256 * b256.low_value bs) + c" using mod_mult_div_eq [of c 256] by (simp add: distrib_left)
    finally have "b256.low_value bs' + 256 ^ length (b # bs) * c' = 58 * b256.low_value (b # bs) + carry" by (simp add: c_def)
    moreover have "drop (i' - i) bs' = drop (i' - Suc i) ds" using IH Suc_diff_Suc [of i i'] by (simp add: r(2) Suc_le_eq flip: Suc_diff_Suc)
    ultimately show ?thesis using IH by (simp add: r(2) b256.digits_ok_def)
  next
    case False
    then have "bs' = b # bs" "c' = 0" "i' = i" "carry = 0" using Cons.prems(1) by auto
    moreover have "list_all (\<lambda>b. b = 0) (b # bs)" using Cons.prems(2) False by simp
    moreover from this have "b # bs = replicate (length (b # bs)) 0" by (auto simp: list_all_iff intro: replicate_eqI)
    then have "b256.low_value (b # bs) = 0" by (metis b256.low_value_zeros)
    ultimately show ?thesis using Cons.prems(3) by simp
  qed
qed simp

text \<open>The outer loop, started on a buffer that is large enough.\<close>

definition b58_value :: "string \<Rightarrow> nat" where
  "b58_value cs = b58.horner (map (\<lambda>c. nat (b58_digit c)) cs)"

abbreviation word_part :: "string \<Rightarrow> string" where
  "word_part s \<equiv> takeWhile (\<lambda>c. \<not> isspace c) s"

lemma b58_loop_spec:
  assumes "list_all digit_char (word_part cs)" "b256.digits_ok b" "list_all (\<lambda>b. b = 0) (drop len b)"
    "Suc (b256.low_value b) * 58 ^ length (word_part cs) \<le> 256 ^ length b"
  shows "\<exists>b' len'. b58_loop cs b len = Some (b', len', dropWhile (\<lambda>c. \<not> isspace c) cs) \<and> length b' = length b
     \<and> b256.digits_ok b' \<and> list_all (\<lambda>b. b = 0) (drop len' b')
     \<and> b256.low_value b' = foldl (\<lambda>a d. 58 * a + d) (b256.low_value b) (map (\<lambda>c. nat (b58_digit c)) (word_part cs))"
  using assms
proof (induction cs arbitrary: b len)
  case (Cons c cs)
  show ?case
  proof (cases "isspace c")
    case True
    then show ?thesis using Cons.prems by simp
  next
    case False
    define d where "d = nat (b58_digit c)"
    obtain b1 c1 i1 where r: "b58_inner d 0 len b = (b1, c1, i1)" by (cases "b58_inner d 0 len b")
    have ok: "digit_char c" "d < 58" using Cons.prems(1) False b58_digit_range [of c] by (auto simp: d_def)
    note sp = b58_inner_spec [OF r _ Cons.prems(2) ok(2)]
    then have b1: "length b1 = length b" "b256.digits_ok b1" "list_all (\<lambda>b. b = 0) (drop i1 b1)"
      "b256.low_value b1 + 256 ^ length b * c1 = 58 * b256.low_value b + d" using Cons.prems(3) by auto
    let ?n = "length (word_part cs)"
    have big: "58 * b256.low_value b + d < 58 * Suc (b256.low_value b)" using ok(2) by simp
    have fit: "58 * Suc (b256.low_value b) * 58 ^ ?n \<le> 256 ^ length b" using Cons.prems(4) False by (simp add: algebra_simps)
    have "58 * Suc (b256.low_value b) \<le> 256 ^ length b" by (rule order_trans [OF _ fit]) simp
    then have "256 ^ length b * c1 < 256 ^ length b" using b1(4) big by linarith
    then have c1: "c1 = 0" by (cases c1) auto
    then have v: "b256.low_value b1 = 58 * b256.low_value b + d" using b1(4) by simp
    have "Suc (b256.low_value b1) * 58 ^ ?n \<le> 58 * Suc (b256.low_value b) * 58 ^ ?n" using big v by (intro mult_le_mono1) simp
    then have "Suc (b256.low_value b1) * 58 ^ ?n \<le> 256 ^ length b1" using fit b1(1) by simp
    from Cons.IH [OF _ b1(2,3) this] show ?thesis
      using Cons.prems(1) False ok(1) r c1 v b1(1) by (auto simp: d_def [symmetric] Let_def)
  qed
qed simp

lemma b58_loop_Some: "b58_loop cs b len = Some r \<Longrightarrow> list_all digit_char (word_part cs)"
  by (induction cs b len rule: b58_loop.induct) (auto split: if_splits prod.splits simp: Let_def)

text \<open>The buffer: 58 characters to the power of 71 are less than 52 bytes.\<close>

lemma buffer_large_enough: "(58 :: nat) ^ n \<le> 256 ^ (n * 733 div 1000 + 1)"
proof -
  define q where "q = n * 733 div 1000"
  have "n * 733 < 1000 * q + 1000" using dividend_less_div_times [of 1000 "n * 733"] by (simp add: q_def mult.commute)
  then have "71 * (n * 733) \<le> 71 * (1000 * q + 1000)" by (intro mult_le_mono2 less_imp_le)
  moreover have "1000 * (52 * n) \<le> 71 * (n * 733)" by simp
  ultimately have "1000 * (52 * n) \<le> 1000 * (71 * (q + 1))" by (simp add: algebra_simps)
  then have "52 * n \<le> 71 * (q + 1)" by simp
  then have "(256 :: nat) ^ (52 * n) \<le> 256 ^ (71 * (n * 733 div 1000 + 1))" unfolding q_def by (intro power_increasing) auto
  moreover have "((58 :: nat) ^ 71) ^ n \<le> (256 ^ 52) ^ n" by (intro power_mono) simp_all
  ultimately have "((58 :: nat) ^ n) ^ 71 \<le> (256 ^ (n * 733 div 1000 + 1)) ^ 71"
    by (simp only: power_mult [symmetric] mult.commute)
  then show ?thesis by (subst (asm) power_mono_iff) auto
qed

section \<open>What is decoded\<close>

lemma decode_body:
  assumes "list_all digit_char (word_part body)"
  defines "sz \<equiv> length body * 733 div 1000 + 1"
  shows "\<exists>b len. b58_loop body (replicate sz 0) 0 = Some (b, len, dropWhile (\<lambda>c. \<not> isspace c) body)
     \<and> b256.digits_ok (dropWhile (\<lambda>b. b = 0) (drop (sz - len) (rev b)))
     \<and> b256.horner (dropWhile (\<lambda>b. b = 0) (drop (sz - len) (rev b))) = b58_value (word_part body)"
proof -
  have z: "b256.digits_ok (replicate sz 0)" "b256.low_value (replicate sz 0) = 0" "list_all (\<lambda>b. b = 0) (drop 0 (replicate sz (0::nat)))"
    by (simp_all add: b256.digits_ok_def b256.low_value_zeros list_all_iff)
  have "(58 :: nat) ^ length (word_part body) \<le> 58 ^ length body" by (intro power_increasing) (simp_all add: length_takeWhile_le)
  also have "\<dots> \<le> 256 ^ sz" unfolding sz_def by (rule buffer_large_enough)
  finally have fit: "Suc (b256.low_value (replicate sz 0)) * 58 ^ length (word_part body) \<le> 256 ^ length (replicate sz (0::nat))"
    using z(2) by simp
  obtain b len where b: "b58_loop body (replicate sz 0) 0 = Some (b, len, dropWhile (\<lambda>c. \<not> isspace c) body)"
    "length b = sz" "b256.digits_ok b" "list_all (\<lambda>b. b = 0) (drop len b)" "b256.low_value b = b58_value (word_part body)"
    using b58_loop_spec [OF assms(1) z(1,3) fit] unfolding z(2) b58_value_def b58.horner_def length_replicate by blast
  define hi where "hi = drop (sz - len) (rev b)"
  have hi: "hi = rev (take len b)" using b(2) by (simp add: hi_def rev_take)
  have "drop len b = replicate (length (drop len b)) 0" using b(4) by (intro replicate_eqI) (auto simp: list_all_iff)
  then have "b = take len b @ replicate (length (drop len b)) 0" by (metis append_take_drop_id)
  then have "b256.low_value b = b256.low_value (take len b)" by (metis add_0_right b256.low_value_append b256.low_value_zeros mult_0_right)
  then have "b256.horner hi = b58_value (word_part body)" using b(5) by (simp add: hi b256.horner_low)
  moreover have "b256.digits_ok (dropWhile (\<lambda>b. b = 0) hi)"
    using b(3) by (auto simp: hi b256.digits_ok_def list_all_iff dest!: set_dropWhileD in_set_takeD)
  ultimately have "b256.digits_ok (dropWhile (\<lambda>b. b = 0) hi) \<and> b256.horner (dropWhile (\<lambda>b. b = 0) hi) = b58_value (word_part body)"
    using b256.horner_strip [of hi] by simp
  then show ?thesis using b(1) unfolding hi_def by blast
qed

lemma hd_strip: "dropWhile (\<lambda>b. b = 0) bs = [] \<or> hd (dropWhile (\<lambda>b. b = 0) bs) \<noteq> (0 :: nat)"
  using hd_dropWhile by blast

definition spaced58 :: "string \<Rightarrow> nat \<Rightarrow> string \<Rightarrow> bool" where
  "spaced58 s z cs \<longleftrightarrow> (\<exists>sp sp'. s = sp @ replicate z (CHR ''1'') @ cs @ sp' \<and> list_all isspace sp \<and> list_all isspace sp')
     \<and> list_all digit_char cs \<and> (cs = [] \<or> hd cs \<noteq> CHR ''1'')"

abbreviation after_ones :: "string \<Rightarrow> string" where
  "after_ones s \<equiv> dropWhile (\<lambda>c. c = CHR ''1'') (dropWhile isspace s)"

abbreviation rest_part :: "string \<Rightarrow> string" where
  "rest_part s \<equiv> dropWhile (\<lambda>c. \<not> isspace c) s"

lemma one_char [simp]: "\<not> isspace (CHR ''1'')" "digit_char (CHR ''1'')"
  by code_simp+

lemma dropWhile_all_space: "list_all isspace sp \<Longrightarrow> dropWhile isspace (sp @ r) = dropWhile isspace r"
  by (auto simp: list_all_iff dropWhile_append)

lemma digits_no_space: "list_all digit_char cs \<Longrightarrow> c \<in> set cs \<Longrightarrow> \<not> isspace c"
  using digit_not_space by (auto simp: list_all_iff)

lemma spaced58_parts:
  assumes "spaced58 s z cs"
  shows "length (takeWhile (\<lambda>c. c = CHR ''1'') (dropWhile isspace s)) = z \<and> word_part (after_ones s) = cs
     \<and> list_all isspace (rest_part (after_ones s))"
proof -
  obtain sp sp' where s: "s = sp @ replicate z (CHR ''1'') @ cs @ sp'" and sp: "list_all isspace sp" "list_all isspace sp'"
    and cs: "list_all digit_char cs" "cs = [] \<or> hd cs \<noteq> CHR ''1''" using assms by (auto simp: spaced58_def)
  have d: "dropWhile isspace s = dropWhile isspace (replicate z (CHR ''1'') @ cs @ sp')" unfolding s by (rule dropWhile_all_space [OF sp(1)])
  show ?thesis
  proof (cases "z = 0 \<and> cs = []")
    case True
    then have "dropWhile isspace s = []" using d sp(2) by (simp add: list_all_iff)
    then show ?thesis using True by (simp only: takeWhile.simps dropWhile.simps list.size list.pred_inject simp_thms)
  next
    case False
    have r: "dropWhile isspace s = replicate z (CHR ''1'') @ cs @ sp'"
    proof (cases z)
      case 0
      then obtain c ds where "cs = c # ds" using False by (cases cs) auto
      then show ?thesis using d 0 digits_no_space [OF cs(1), of c] by simp
    qed (use d in simp)
    have h: "takeWhile (\<lambda>c. c = CHR ''1'') (cs @ sp') = []" "dropWhile (\<lambda>c. c = CHR ''1'') (cs @ sp') = cs @ sp'"
    proof -
      have "cs @ sp' = [] \<or> hd (cs @ sp') \<noteq> CHR ''1''" using cs(2) sp(2) one_char(1) by (cases cs; cases sp') auto
      then show "takeWhile (\<lambda>c. c = CHR ''1'') (cs @ sp') = []" "dropWhile (\<lambda>c. c = CHR ''1'') (cs @ sp') = cs @ sp'"
        by (cases "cs @ sp'"; simp)+
    qed
    have a: "after_ones s = cs @ sp'" unfolding r using h(2) by (simp add: dropWhile_append)
    have "word_part (cs @ sp') = cs" "rest_part (cs @ sp') = sp'"
      using digits_no_space [OF cs(1)] sp(2) by (cases sp'; simp add: takeWhile_append dropWhile_append)+
    moreover have "takeWhile (\<lambda>c. c = CHR ''1'') (dropWhile isspace s) = replicate z (CHR ''1'')"
      unfolding r using h(1) by (simp add: takeWhile_append)
    ultimately show ?thesis unfolding a using sp(2) by simp
  qed
qed

lemma parts_spaced58:
  assumes "list_all digit_char (word_part (after_ones s))" "list_all isspace (rest_part (after_ones s))"
  shows "spaced58 s (length (takeWhile (\<lambda>c. c = CHR ''1'') (dropWhile isspace s))) (word_part (after_ones s))"
proof -
  let ?t = "takeWhile (\<lambda>c. c = CHR ''1'') (dropWhile isspace s)" and ?b = "after_ones s"
  have t: "?t = replicate (length ?t) (CHR ''1'')" by (rule replicate_eqI) (auto dest: set_takeWhileD)
  have "s = takeWhile isspace s @ ?t @ word_part ?b @ rest_part ?b" by simp
  then have "s = takeWhile isspace s @ replicate (length ?t) (CHR ''1'') @ word_part ?b @ rest_part ?b" using t by simp
  moreover have "list_all isspace (takeWhile isspace s)" by (auto simp: list_all_iff dest: set_takeWhileD)
  moreover have "word_part ?b = [] \<or> hd (word_part ?b) \<noteq> CHR ''1''"
  proof (cases ?b)
    case (Cons c b)
    then have "c \<noteq> CHR ''1''" using hd_dropWhile [of "\<lambda>c. c = CHR ''1''" "dropWhile isspace s"] by (metis list.distinct(1) list.sel(1))
    then show ?thesis using Cons by simp
  next
    case Nil
    show ?thesis unfolding Nil by simp
  qed
  ultimately show ?thesis using assms unfolding spaced58_def by blast
qed

section \<open>Properties\<close>

text \<open>C37: decoding Base58 is a change of base. A text is decoded exactly when it is, between white space, a
  run of ones and then characters of the alphabet; the result has one zero byte for every one
  and then, without leading zeros, the number in base 256 that the characters write in base 58.
  In particular the buffer of the decoder never overflows and every well-formed text is decoded.\<close>
theorem decode_iff:
  "DecodeBase58 s = Some v \<longleftrightarrow> (\<exists>z cs bs. spaced58 s z cs \<and> v = replicate z 0 @ bs
     \<and> b256.digits_ok bs \<and> (bs = [] \<or> hd bs \<noteq> 0) \<and> b256.horner bs = b58_value cs)"
proof -
  let ?b = "after_ones s" and ?z = "length (takeWhile (\<lambda>c. c = CHR ''1'') (dropWhile isspace s))"
  have dw: "dropWhile isspace r = [] \<longleftrightarrow> list_all isspace r" for r by (simp add: list_all_iff dropWhile_eq_Nil_conv)
  show ?thesis
  proof (cases "list_all digit_char (word_part ?b) \<and> list_all isspace (rest_part ?b)")
    case True
    obtain bs where bs: "DecodeBase58 s = Some (replicate ?z 0 @ bs)" "b256.digits_ok bs" "bs = [] \<or> hd bs \<noteq> 0"
      "b256.horner bs = b58_value (word_part ?b)"
    proof -
      obtain b len where b: "b58_loop ?b (replicate (length ?b * 733 div 1000 + 1) 0) 0 = Some (b, len, rest_part ?b)"
        and ok: "b256.digits_ok (dropWhile (\<lambda>b. b = 0) (drop (length ?b * 733 div 1000 + 1 - len) (rev b)))"
          "b256.horner (dropWhile (\<lambda>b. b = 0) (drop (length ?b * 733 div 1000 + 1 - len) (rev b))) = b58_value (word_part ?b)"
        using decode_body [of ?b] True by blast
      have "DecodeBase58 s = Some (replicate ?z 0 @ dropWhile (\<lambda>b. b = 0) (drop (length ?b * 733 div 1000 + 1 - len) (rev b)))"
        unfolding DecodeBase58_def Let_def b using True by (simp only: option.case prod.case dw not_True_eq_False if_False)
      from this ok(1) hd_strip ok(2) show ?thesis by (rule that)
    qed
    have sp: "spaced58 s ?z (word_part ?b)" using parts_spaced58 True by blast
    show ?thesis
    proof
      assume "DecodeBase58 s = Some v"
      then show "\<exists>z cs bs. spaced58 s z cs \<and> v = replicate z 0 @ bs
          \<and> b256.digits_ok bs \<and> (bs = [] \<or> hd bs \<noteq> 0) \<and> b256.horner bs = b58_value cs"
        using bs sp by auto
    next
      assume "\<exists>z cs bs. spaced58 s z cs \<and> v = replicate z 0 @ bs
          \<and> b256.digits_ok bs \<and> (bs = [] \<or> hd bs \<noteq> 0) \<and> b256.horner bs = b58_value cs"
      then obtain z cs bs' where q: "spaced58 s z cs" "v = replicate z 0 @ bs'" "b256.digits_ok bs'" "bs' = [] \<or> hd bs' \<noteq> 0"
        "b256.horner bs' = b58_value cs" by blast
      then have "z = ?z" "cs = word_part ?b" using spaced58_parts by blast+
      then show "DecodeBase58 s = Some v" using q bs b256.horner_unique [OF q(3) bs(2)] by simp
    qed
  next
    case False
    have "DecodeBase58 s = None"
    proof (cases "list_all digit_char (word_part ?b)")
      case True
      obtain b len where b: "b58_loop ?b (replicate (length ?b * 733 div 1000 + 1) 0) 0 = Some (b, len, rest_part ?b)"
        using decode_body [OF True] by blast
      have "\<not> list_all isspace (rest_part ?b)" using True False by blast
      then show ?thesis unfolding DecodeBase58_def Let_def b by (simp only: option.case prod.case dw not_False_eq_True if_True)
    next
      case no: False
      then have "b58_loop ?b c 0 = None" for c using b58_loop_Some by (metis option.exhaust)
      then show ?thesis unfolding DecodeBase58_def Let_def by (simp only: option.case)
    qed
    moreover have "\<not> spaced58 s z cs" for z cs
    proof
      assume a: "spaced58 s z cs"
      then have "list_all digit_char cs" by (simp only: spaced58_def)
      then show False using spaced58_parts [OF a] False by simp
    qed
    ultimately show ?thesis by simp
  qed
qed

theorem decode_iff_witness: "DecodeBase58 '' 1zz'' = Some [0, 13, 35]"
proof -
  have "spaced58 '' 1zz'' 1 ''zz''"
    unfolding spaced58_def
    by (intro conjI exI [where x = "'' ''"] exI [where x = "[]"]) (simp_all, code_simp+)
  moreover have "b58_digit (CHR ''z'') = 57" by code_simp
  then have "b58_value ''zz'' = 3363" "b256.digits_ok [13, 35]" "b256.horner [13, 35] = 3363"
    by (simp_all add: b58_value_def b58.horner_def b256.digits_ok_def b256.horner_def)
  ultimately show ?thesis using decode_iff [of "'' 1zz''" "[0, 13, 35]"] by force
qed

end
