(* ===== verification/Utils.thy ===== *)
theory Utils
  imports Base58
begin

text \<open>
  The utility headers of \<open>pubkey.token\<close>: checked 64 bit arithmetic (\<open>safe.hpp\<close>, used with
  \<open>int64_t\<close>), decimal arithmetic on 128 bits (\<open>utils.hpp\<close>, \<open>math.hpp\<close>), text handling and
  the parsing of assets (\<open>utils.hpp\<close>) and the record access of \<open>wasm_db.hpp\<close>.
\<close>

section \<open>Checked arithmetic\<close>

definition i64_max :: int where "i64_max = 2 ^ 63 - 1"
definition i64_min :: int where "i64_min = - (2 ^ 63)"

definition overflow :: error where "overflow = Check ''overflow_exception, (a)(b)''"
definition underflow :: error where "underflow = Check ''underflow_exception, (a)(b)''"
definition divide_by_zero :: error where "divide_by_zero = Check ''divide_by_zero_exception, (a)(b)''"

definition safe_add :: "int \<Rightarrow> int \<Rightarrow> int res" where
  "safe_add a b =
     (if 0 < b \<and> i64_max - b < a then Inl overflow
      else if b < 0 \<and> a < i64_min - b then Inl underflow
      else Inr (i64 (a + b)))"

definition safe_sub :: "int \<Rightarrow> int \<Rightarrow> int res" where
  "safe_sub a b =
     (if 0 < b \<and> a < i64_min + b then Inl underflow
      else if b < 0 \<and> i64_max + b < a then Inl overflow
      else Inr (i64 (a - b)))"

definition safe_mul :: "int \<Rightarrow> int \<Rightarrow> int res" where
  "safe_mul a b =
     (if 0 < a then
        (if 0 < b then (if cdiv i64_max b < a then Inl overflow else Inr (i64 (a * b)))
         else if b < cdiv i64_min a then Inl underflow else Inr (i64 (a * b)))
      else
        (if 0 < b then (if a < cdiv i64_min b then Inl underflow else Inr (i64 (a * b)))
         else if a \<noteq> 0 \<and> b < cdiv i64_max a then Inl overflow else Inr (i64 (a * b))))"

definition safe_div :: "int \<Rightarrow> int \<Rightarrow> int res" where
  "safe_div a b =
     (if b = 0 then Inl divide_by_zero
      else if a = i64_min \<and> b = - 1 then Inl overflow
      else Inr (cdiv a b))"

definition safe_mod :: "int \<Rightarrow> int \<Rightarrow> int res" where
  "safe_mod a b =
     (if b = 0 then Inl divide_by_zero
      else if a = i64_min \<and> b = - 1 then Inl overflow
      else Inr (cmod a b))"

definition safe_neg :: "int \<Rightarrow> int res" where
  "safe_neg a = (if a = i64_min then Inl (Check ''overflow_exception, (*this)'') else Inr (i64 (- a)))"

text \<open>Compound assignment returns the new value. Increment and decrement are assignments of one more or less; the postfix forms
  return the old value beside the new one.\<close>

definition safe_add_assign :: "int \<Rightarrow> int \<Rightarrow> int res" where "safe_add_assign a b = safe_add a b"
definition safe_sub_assign :: "int \<Rightarrow> int \<Rightarrow> int res" where "safe_sub_assign a b = safe_sub a b"
definition safe_mul_assign :: "int \<Rightarrow> int \<Rightarrow> int res" where "safe_mul_assign a b = safe_mul a b"
definition safe_div_assign :: "int \<Rightarrow> int \<Rightarrow> int res" where "safe_div_assign a b = safe_div a b"
definition safe_mod_assign :: "int \<Rightarrow> int \<Rightarrow> int res" where "safe_mod_assign a b = safe_mod a b"
definition safe_inc :: "int \<Rightarrow> int res" where "safe_inc a = safe_add_assign a 1"
definition safe_dec :: "int \<Rightarrow> int res" where "safe_dec a = safe_sub_assign a 1"
definition safe_post_inc :: "int \<Rightarrow> (int \<times> int) res" where "safe_post_inc a = rbind (safe_add_assign a 1) (\<lambda>v. Inr (a, v))"
definition safe_post_dec :: "int \<Rightarrow> (int \<times> int) res" where "safe_post_dec a = rbind (safe_sub_assign a 1) (\<lambda>v. Inr (a, v))"

text \<open>Comparisons; three of them are defined by the others.\<close>

definition safe_eq :: "int \<Rightarrow> int \<Rightarrow> bool" where "safe_eq a b = (a = b)"
definition safe_lt :: "int \<Rightarrow> int \<Rightarrow> bool" where "safe_lt a b = (a < b)"
definition safe_gt :: "int \<Rightarrow> int \<Rightarrow> bool" where "safe_gt a b = (b < a)"
definition safe_ne :: "int \<Rightarrow> int \<Rightarrow> bool" where "safe_ne a b = (\<not> safe_eq a b)"
definition safe_le :: "int \<Rightarrow> int \<Rightarrow> bool" where "safe_le a b = (\<not> safe_gt a b)"
definition safe_ge :: "int \<Rightarrow> int \<Rightarrow> bool" where "safe_ge a b = (\<not> safe_lt a b)"

section \<open>Decimal arithmetic\<close>

definition in_i64 :: "int \<Rightarrow> bool" where
  "in_i64 v = (i64_min \<le> v \<and> v \<le> i64_max)"

definition multiply_i64 :: "int \<Rightarrow> int \<Rightarrow> int res" where
  "multiply_i64 a b =
     (let ret = i128 (a * b) in if \<not> in_i64 ret then Inl (Check ''overflow exception of multiply'') else Inr ret)"

definition divide_decimal64 :: "int \<Rightarrow> int \<Rightarrow> int \<Rightarrow> int res" where
  "divide_decimal64 a b precision =
     (if b = 0 then Inl (Library ''integer divide by zero'')
      else let tmp = cdiv (i128 (i128 (10 * a) * precision)) b in
        if \<not> in_i64 tmp then Inl (Check ''overflow exception of divide_decimal'') else Inr (cdiv (tmp + 5) 10))"

definition multiply_decimal64 :: "int \<Rightarrow> int \<Rightarrow> int \<Rightarrow> int res" where
  "multiply_decimal64 a b precision =
     (if precision = 0 then Inl (Library ''integer divide by zero'')
      else let tmp = cdiv (i128 (i128 (10 * a) * b)) precision in
        if \<not> in_i64 tmp then Inl (Check ''overflow exception of multiply_decimal'') else Inr (cdiv (tmp + 5) 10))"

text \<open>The unsigned variants of \<open>math.hpp\<close> wrap around without a check.\<close>

definition u_divide_decimal :: "128 word \<Rightarrow> 128 word \<Rightarrow> 128 word \<Rightarrow> 128 word res" where
  "u_divide_decimal a b precision =
     (if b = 0 then Inl (Library ''integer divide by zero'')
      else let tmp = 10 * a * precision div b in Inr ((tmp + 5) div 10))"

definition u_multiply_decimal :: "128 word \<Rightarrow> 128 word \<Rightarrow> 128 word \<Rightarrow> 128 word res" where
  "u_multiply_decimal a b precision =
     (if precision = 0 then Inl (Library ''integer divide by zero'')
      else let tmp = 10 * a * b div precision in Inr ((tmp + 5) div 10))"

fun power_loop :: "nat \<Rightarrow> int \<Rightarrow> int \<Rightarrow> int" where
  "power_loop 0 base ret = ret"
| "power_loop (Suc n) base ret = power_loop n base (i64 (ret * base))"

definition power :: "int \<Rightarrow> int \<Rightarrow> int" where
  "power base exp = power_loop (nat exp) base 1"

definition power10 :: "int \<Rightarrow> int" where
  "power10 exp = power 10 exp"

definition calc_precision :: "int \<Rightarrow> int" where
  "calc_precision digit = power10 digit"

definition make128key :: "64 word \<Rightarrow> 64 word \<Rightarrow> 128 word" where
  "make128key a b = push_bit 64 (ucast a) + ucast b"

text \<open>The sum is taken on 64 bits before it is widened.\<close>

definition make64key :: "64 word \<Rightarrow> 64 word \<Rightarrow> 128 word" where
  "make64key a b = ucast (a + b)"

section \<open>Text\<close>

fun find_first :: "(char \<Rightarrow> bool) \<Rightarrow> string \<Rightarrow> nat option" where
  "find_first P [] = None"
| "find_first P (c # cs) = (if P c then Some 0 else map_option Suc (find_first P cs))"

definition find_last :: "(char \<Rightarrow> bool) \<Rightarrow> string \<Rightarrow> nat option" where
  "find_last P s = map_option (\<lambda>i. length s - 1 - i) (find_first P (rev s))"

definition is_blank :: "char \<Rightarrow> bool" where
  "is_blank c = (c = CHR '' '')"

text \<open>\<open>npos\<close> is the largest index: as a prefix it is everything, and \<open>size - npos - 1\<close> is \<open>size\<close>.\<close>

definition trim :: "string \<Rightarrow> string" where
  "trim sv =
     (let sv = drop (case find_first (\<lambda>c. \<not> is_blank c) sv of None \<Rightarrow> length sv | Some i \<Rightarrow> min i (length sv)) sv
      in take (length sv - (case find_last (\<lambda>c. \<not> is_blank c) sv of
                              None \<Rightarrow> length sv | Some i \<Rightarrow> min (length sv - i - 1) (length sv))) sv)"

definition find_first_of :: "string \<Rightarrow> string \<Rightarrow> nat \<Rightarrow> nat option" where
  "find_first_of str delims previous = map_option (\<lambda>i. previous + i) (find_first (\<lambda>c. c \<in> set delims) (drop previous str))"

lemma find_first_Some: "find_first P s = Some i \<Longrightarrow> i < length s \<and> P (s ! i) \<and> (\<forall>j<i. \<not> P (s ! j))"
proof (induction s arbitrary: i)
  case (Cons c s)
  then show ?case by (cases i) (auto simp: less_Suc_eq_0_disj split: if_splits)
qed simp

text \<open>The loop of \<open>split\<close>, from the start of the current piece on.\<close>

function split_from :: "string \<Rightarrow> string \<Rightarrow> nat \<Rightarrow> string list" where
  "split_from str delims previous =
     (case find_first_of str delims previous of
        None \<Rightarrow> [trim (drop previous str)]
      | Some current \<Rightarrow> trim (take (current - previous) (drop previous str)) # split_from str delims (current + 1))"
  by auto
termination
  by (relation "measure (\<lambda>(str, delims, previous). length str - previous)")
    (auto simp: find_first_of_def dest!: find_first_Some)

declare split_from.simps [simp del]

definition split_str :: "string \<Rightarrow> string \<Rightarrow> string list" where
  "split_str str delims = split_from str delims 0"

definition starts_with :: "string \<Rightarrow> string \<Rightarrow> bool" where
  "starts_with sv s = (length s \<le> length sv \<and> take (length s) sv = s)"

text \<open>\<open>to_int\<close> for \<open>safe<int64_t>\<close>, from the last digit to the first.\<close>

definition is_digit :: "char \<Rightarrow> bool" where
  "is_digit c = ((48 :: nat) \<le> of_char c \<and> of_char c \<le> (57 :: nat))"

definition digit_val :: "char \<Rightarrow> int" where
  "digit_val c = of_char c - 48"

fun to_int_loop :: "string \<Rightarrow> int \<Rightarrow> int \<Rightarrow> int res" where
  "to_int_loop [] p r = Inr r"
| "to_int_loop (c # cs) p r =
     (if \<not> is_digit c then Inl (Check ''invalid numeric character of int'')
      else rbind (safe_mul p (digit_val c)) (\<lambda>d. rbind (safe_add r d) (\<lambda>r'.
           rbind (safe_mul p 10) (\<lambda>p'. to_int_loop cs p' r'))))"

definition to_int :: "string \<Rightarrow> int res" where
  "to_int sv = to_int_loop (rev sv) 1 0"

fun p10_loop :: "nat \<Rightarrow> int \<Rightarrow> int res" where
  "p10_loop 0 p10 = Inr p10"
| "p10_loop (Suc n) p10 = rbind (safe_mul p10 10) (p10_loop n)"

definition precision_from_decimals :: "int \<Rightarrow> int res" where
  "precision_from_decimals decimals =
     (if \<not> decimals \<le> 18 then Inl (Check ''precision should be <= 18'') else p10_loop (nat decimals) 1)"

text \<open>
  \<open>mk\<close> is the constructor \<open>symbol(string_view, uint8_t)\<close> of the development kit. The precision
  is passed on as \<open>int8_t\<close>.
\<close>

definition as_int8 :: "8 word \<Rightarrow> int" where
  "as_int8 w = sint w"

definition asset_from_string :: "cdt \<Rightarrow> (string \<Rightarrow> 8 word \<Rightarrow> symbol res) \<Rightarrow> string \<Rightarrow> asset res" where
  "asset_from_string C mk from_str =
     (let s = trim from_str in
      case find_first is_blank s of
        None \<Rightarrow> Inl (Check ''Asset's amount and symbol should be separated with space'')
      | Some space_pos \<Rightarrow>
          let symbol_str = trim (drop (space_pos + 1) s);
              amount_str = take space_pos s;
              dot_pos = find_first (\<lambda>c. c = CHR ''.'') amount_str
          in if dot_pos = Some (length amount_str - 1) then Inl (Check ''Missing decimal fraction after decimal point'')
             else rbind (mk symbol_str (case dot_pos of None \<Rightarrow> 0 | Some d \<Rightarrow> word_of_nat (length amount_str - d - 1))) (\<lambda>sym.
             rbind (case dot_pos of
                      None \<Rightarrow> rbind (to_int amount_str) (\<lambda>i. Inr (i, 0))
                    | Some d \<Rightarrow>
                        rbind (to_int (take d amount_str)) (\<lambda>i.
                        rbind (to_int (drop (d + 1) amount_str)) (\<lambda>f.
                        if amount_str ! 0 = CHR ''-'' then rbind (safe_mul f (- 1)) (\<lambda>f. Inr (i, f)) else Inr (i, f)))) (\<lambda>(int_part, fract_part).
             rbind (precision_from_decimals (as_int8 (sym_precision sym))) (\<lambda>precision.
             rbind (safe_mul int_part precision) (\<lambda>amount.
             rbind (safe_add amount fract_part) (\<lambda>amount.
             asset_make C amount sym))))))"

text \<open>
  \<open>std::stoi\<close>: white space, a sign, the longest run of digits; an exception is an abort. A text
  without a comma has no second part, which the code reads past the end of the vector: it is an
  abort here.
\<close>

fun digits_value :: "int \<Rightarrow> string \<Rightarrow> int" where
  "digits_value r [] = r"
| "digits_value r (c # cs) = (if is_digit c then digits_value (10 * r + digit_val c) cs else r)"

definition stoi :: "string \<Rightarrow> int res" where
  "stoi str =
     (let s = dropWhile isspace str;
          neg = (s \<noteq> [] \<and> hd s = CHR ''-'');
          s = (if s \<noteq> [] \<and> (hd s = CHR ''-'' \<or> hd s = CHR ''+'') then tl s else s)
      in if s = [] \<or> \<not> is_digit (hd s) then Inl (Library ''stoi: no conversion'')
         else let v = (if neg then - digits_value 0 s else digits_value 0 s)
              in if v < - (2 ^ 31) \<or> 2 ^ 31 \<le> v then Inl (Library ''stoi: out of range'') else Inr v)"

definition to_symbol :: "(string \<Rightarrow> 8 word \<Rightarrow> symbol res) \<Rightarrow> string \<Rightarrow> symbol res" where
  "to_symbol mk str =
     (case split_str str '','' of
        digits # code # _ \<Rightarrow> rbind (stoi digits) (\<lambda>p. mk code (word_of_int p))
      | _ \<Rightarrow> Inl (Library ''no symbol code''))"

section \<open>Records\<close>

text \<open>\<open>dbc\<close> reads and writes rows of any table; \<open>pk\<close> is the primary key of a record.\<close>

datatype return_t = NONE | MODIFIED | APPENDED

definition dbc_get :: "('r \<Rightarrow> 'k::linorder) \<Rightarrow> 'r \<Rightarrow> ('k, 'r) table \<Rightarrow> bool \<times> 'r" where
  "dbc_get pk rec t = (case tfind t (pk rec) of None \<Rightarrow> (False, rec) | Some r \<Rightarrow> (True, r))"

definition dbc_set :: "('r \<Rightarrow> 'k::linorder) \<Rightarrow> 'r \<Rightarrow> ('k, 'r) table \<Rightarrow> return_t \<times> ('k, 'r) table" where
  "dbc_set pk rec t = (if tfind t (pk rec) \<noteq> None then (MODIFIED, tput (pk rec) rec t) else (APPENDED, tput (pk rec) rec t))"

definition dbc_set_payer :: "('r \<Rightarrow> 'k::linorder) \<Rightarrow> name \<Rightarrow> 'r \<Rightarrow> ('k, 'r) table \<Rightarrow> return_t \<times> ('k, 'r) table" where
  "dbc_set_payer pk rampayer rec t = (if tfind t (pk rec) \<noteq> None then (MODIFIED, tput (pk rec) rec t) else (APPENDED, tput (pk rec) rec t))"

definition dbc_del :: "('r \<Rightarrow> 'k::linorder) \<Rightarrow> 'r \<Rightarrow> ('k, 'r) table \<Rightarrow> ('k, 'r) table" where
  "dbc_del pk rec t = (if tfind t (pk rec) \<noteq> None then terase (pk rec) t else t)"

text \<open>Tables with an explicit scope; \<open>get_idx\<close> opens the table at the scope of the record, or at the contract.\<close>

definition dbc_get_idx_scope :: "64 word \<Rightarrow> 64 word \<Rightarrow> 64 word" where
  "dbc_get_idx_scope code sc = (if sc = 0 then code else sc)"

definition dbc_get_scope :: "('r \<Rightarrow> 64 word) \<Rightarrow> 64 word \<Rightarrow> 'r \<Rightarrow> (scoped, 'r) table \<Rightarrow> bool \<times> 'r" where
  "dbc_get_scope pk sc rec t = (case tfind t (Scoped sc (pk rec)) of None \<Rightarrow> (False, rec) | Some r \<Rightarrow> (True, r))"

definition dbc_set_scope :: "('r \<Rightarrow> 64 word) \<Rightarrow> 64 word \<Rightarrow> 'r \<Rightarrow> (scoped, 'r) table \<Rightarrow> return_t \<times> (scoped, 'r) table" where
  "dbc_set_scope pk sc rec t =
     (let k = Scoped sc (pk rec) in if tfind t k \<noteq> None then (MODIFIED, tput k rec t) else (APPENDED, tput k rec t))"

definition dbc_del_scope :: "('r \<Rightarrow> 64 word) \<Rightarrow> 64 word \<Rightarrow> 'r \<Rightarrow> (scoped, 'r) table \<Rightarrow> (scoped, 'r) table" where
  "dbc_del_scope pk sc rec t = (let k = Scoped sc (pk rec) in if tfind t k \<noteq> None then terase k t else t)"

end
