(* ===== verification/Utils_Props.thy ===== *)
theory Utils_Props
  imports Utils
begin

text \<open>
  The checked operations are exact or abort, a printed asset is read back, and splitting a text is
  cutting it at every delimiter. Records that are set are read back.
\<close>

section \<open>Checked arithmetic\<close>

lemma i64_exact: "in_i64 v \<Longrightarrow> i64 v = v"
  by (intro i64_id) (auto simp: in_i64_def i64_min_def i64_max_def)

lemma safe_add_iff: "in_i64 a \<Longrightarrow> in_i64 b \<Longrightarrow> safe_add a b = Inr c \<longleftrightarrow> in_i64 (a + b) \<and> c = a + b"
  using i64_exact [of "a + b"] by (auto simp: safe_add_def in_i64_def)

lemma safe_sub_iff: "in_i64 a \<Longrightarrow> in_i64 b \<Longrightarrow> safe_sub a b = Inr c \<longleftrightarrow> in_i64 (a - b) \<and> c = a - b"
  using i64_exact [of "a - b"] by (auto simp: safe_sub_def in_i64_def)

lemma safe_mul_iff:
  assumes "in_i64 a" "in_i64 b"
  shows "safe_mul a b = Inr c \<longleftrightarrow> in_i64 (a * b) \<and> c = a * b"
proof -
  have m: "0 \<le> i64_max" "i64_min < 0" "- i64_min = i64_max + 1" by (simp_all add: i64_max_def i64_min_def)
  have pos: "cdiv i64_max b < a \<longleftrightarrow> i64_max < a * b" if "0 < b" for a b
    using that m(1) by (simp add: cdiv_nonneg over_div)
  have neg: "b < cdiv i64_min a \<longleftrightarrow> a * b < i64_min" if "0 < a" for a b
  proof -
    have "cdiv i64_min a = - ((- i64_min) div a)" using that m(2) by (simp add: cdiv_def)
    moreover have "(- i64_min) div a < - b \<longleftrightarrow> - i64_min < (- b) * a" by (rule over_div [OF that])
    ultimately show ?thesis by (simp add: mult.commute) linarith
  qed
  have both: "b < cdiv i64_max a \<longleftrightarrow> i64_max < a * b" if "a < 0" for a b
  proof -
    have "cdiv i64_max a = - (i64_max div (- a))" using that m(1) by (cases "i64_max = 0") (simp_all add: cdiv_def)
    moreover have "i64_max div (- a) < - b \<longleftrightarrow> i64_max < (- b) * (- a)" by (rule over_div) (use that in simp)
    ultimately show ?thesis by (simp add: mult.commute) linarith
  qed
  have sgn: "0 < a \<Longrightarrow> 0 < b \<Longrightarrow> 0 < a * b" "0 < a \<Longrightarrow> b \<le> 0 \<Longrightarrow> a * b \<le> 0" "a \<le> 0 \<Longrightarrow> 0 < b \<Longrightarrow> a * b \<le> 0"
    "a \<le> 0 \<Longrightarrow> b \<le> 0 \<Longrightarrow> 0 \<le> a * b"
    by (auto simp: mult_nonneg_nonpos mult_nonneg_nonpos2 mult_nonpos_nonpos)
  show ?thesis
  proof (cases "0 < a"; cases "0 < b")
    assume ab: "0 < a" "0 < b"
    then have "i64_min \<le> a * b" using sgn(1) m by linarith
    then show ?thesis using ab pos [of b a] i64_exact [of "a * b"] by (auto simp: safe_mul_def in_i64_def)
  next
    assume ab: "0 < a" "\<not> 0 < b"
    then have "a * b \<le> i64_max" using sgn(2) m by linarith
    then show ?thesis using ab neg [of a b] i64_exact [of "a * b"] by (auto simp: safe_mul_def in_i64_def)
  next
    assume ab: "\<not> 0 < a" "0 < b"
    then have "a * b \<le> i64_max" using sgn(3) m by linarith
    then show ?thesis using ab neg [of b a] i64_exact [of "a * b"] by (auto simp: safe_mul_def in_i64_def mult.commute)
  next
    assume ab: "\<not> 0 < a" "\<not> 0 < b"
    then have "i64_min \<le> a * b" using sgn(4) m by linarith
    then show ?thesis using ab both [of a b] m(1) i64_exact [of "a * b"] by (cases "a = 0") (auto simp: safe_mul_def in_i64_def)
  qed
qed

lemma cdiv_range:
  assumes "in_i64 a" "b \<noteq> 0"
  shows "in_i64 (cdiv a b) \<longleftrightarrow> \<not> (a = i64_min \<and> b = - 1)"
proof -
  consider "b = 1" | "b = - 1" | "2 \<le> \<bar>b\<bar>" using assms(2) by linarith
  then show ?thesis
  proof cases
    case 1
    then show ?thesis using assms(1) by (simp add: cdiv_def mult_sgn_abs)
  next
    case 2
    then have "cdiv a b = - a" by (simp add: cdiv_def mult_sgn_abs)
    then show ?thesis using assms(1) 2 by (auto simp: in_i64_def i64_min_def i64_max_def)
  next
    case 3
    have "\<bar>cdiv a b\<bar> \<le> \<bar>a\<bar> div \<bar>b\<bar>" by (simp add: cdiv_def abs_mult abs_sgn_eq pos_imp_zdiv_nonneg_iff)
    also have "\<dots> \<le> \<bar>a\<bar> div 2" by (rule zdiv_mono2) (use 3 in auto)
    finally have "2 * \<bar>cdiv a b\<bar> \<le> \<bar>a\<bar>" by linarith
    then show ?thesis using assms(1) 3 by (auto simp: in_i64_def i64_min_def i64_max_def)
  qed
qed

text \<open>C38: the checked operations are exact. On two 64 bit numbers a checked operation yields the exact
  mathematical result when that is a 64 bit number, and aborts otherwise; the remainder is
  refused where the quotient is.\<close>
theorem safe_exact:
  assumes "in_i64 a" "in_i64 b"
  shows "(safe_add a b = Inr c \<longleftrightarrow> in_i64 (a + b) \<and> c = a + b)
     \<and> (safe_sub a b = Inr c \<longleftrightarrow> in_i64 (a - b) \<and> c = a - b)
     \<and> (safe_mul a b = Inr c \<longleftrightarrow> in_i64 (a * b) \<and> c = a * b)
     \<and> (safe_neg a = Inr c \<longleftrightarrow> in_i64 (- a) \<and> c = - a)
     \<and> (safe_div a b = Inr c \<longleftrightarrow> b \<noteq> 0 \<and> in_i64 (cdiv a b) \<and> c = cdiv a b)
     \<and> (safe_mod a b = Inr c \<longleftrightarrow> b \<noteq> 0 \<and> in_i64 (cdiv a b) \<and> c = cmod a b)"
proof -
  have "safe_neg a = Inr c \<longleftrightarrow> in_i64 (- a) \<and> c = - a"
    using assms(1) i64_exact [of "- a"] by (auto simp: safe_neg_def in_i64_def i64_min_def i64_max_def)
  moreover have "safe_div a b = Inr c \<longleftrightarrow> b \<noteq> 0 \<and> in_i64 (cdiv a b) \<and> c = cdiv a b"
    using cdiv_range [OF assms(1), of b] by (auto simp: safe_div_def)
  moreover have "safe_mod a b = Inr c \<longleftrightarrow> b \<noteq> 0 \<and> in_i64 (cdiv a b) \<and> c = cmod a b"
    using cdiv_range [OF assms(1), of b] by (auto simp: safe_mod_def)
  ultimately show ?thesis using safe_add_iff [OF assms] safe_sub_iff [OF assms] safe_mul_iff [OF assms] by blast
qed

theorem safe_exact_witness:
  "safe_mul 4000000000 (- 2000000000) = Inr (- 8000000000000000000) \<and> safe_mul 4000000000 3000000000 \<noteq> Inr 12000000000000000000"
proof -
  have i: "in_i64 4000000000" "in_i64 (- 2000000000)" "in_i64 3000000000" "in_i64 (- 8000000000000000000)" "\<not> in_i64 12000000000000000000"
    by code_simp+
  show ?thesis
    using safe_exact [OF i(1,2), of "- 8000000000000000000"] safe_exact [OF i(1,3), of 12000000000000000000] i by simp
qed

section \<open>Reading numbers\<close>

interpretation b10: radix 10 by unfold_locales simp

definition dvals :: "string \<Rightarrow> nat list" where
  "dvals s = map (\<lambda>c. of_char c - 48) s"

lemma digit_val_nat: "is_digit c \<Longrightarrow> digit_val c = int (of_char c - 48) \<and> of_char c - 48 < (10 :: nat)"
  by (auto simp: is_digit_def digit_val_def of_nat_diff of_nat_of_char)

lemma pow10_range: "k \<le> 18 \<Longrightarrow> (1 :: int) \<le> 10 ^ k \<and> (10 :: int) ^ k \<le> 10 ^ 18"
  using power_increasing [of k 18 "10 :: int"] by simp

lemma to_int_loop_iff:
  "k \<le> 18 \<Longrightarrow> 0 \<le> r \<Longrightarrow> r < 10 ^ k \<Longrightarrow>
     to_int_loop cs (10 ^ k) r = Inr v \<longleftrightarrow>
       list_all is_digit cs \<and> k + length cs \<le> 18 \<and> v = r + 10 ^ k * int (b10.low_value (dvals cs))"
proof (induction cs arbitrary: k r)
  case Nil
  then show ?case by (auto simp: dvals_def)
next
  case (Cons c cs)
  show ?case
  proof (cases "is_digit c")
    case False
    then show ?thesis by simp
  next
    case True
    define d where "d = (of_char c :: nat) - 48"
    have d: "digit_val c = int d" "d < 10" using digit_val_nat [OF True] by (auto simp: d_def)
    note p = pow10_range [OF Cons.prems(1)]
    have e18: "(10 :: int) ^ 18 = 1000000000000000000" by simp
    have "10 ^ k * int d \<le> 10 ^ k * 9" using d(2) p by (intro mult_left_mono) auto
    then have le: "10 ^ k * int d \<le> 9 * 10 ^ k" "0 \<le> 10 ^ k * int d" using p by simp_all
    have in1: "in_i64 (10 ^ k)" "in_i64 (int d)" "in_i64 (10 ^ k * int d)" "in_i64 r" "in_i64 10"
    proof -
      have "- (2 ^ 63) \<le> (0 :: int)" "9 * 1000000000000000000 \<le> (2 :: int) ^ 63 - 1" by simp_all
      then show "in_i64 (10 ^ k)" "in_i64 (int d)" "in_i64 (10 ^ k * int d)" "in_i64 r" "in_i64 10"
        using p le d(2) Cons.prems(2,3) unfolding in_i64_def i64_min_def i64_max_def e18 by linarith+
    qed
    have m: "safe_mul (10 ^ k) (digit_val c) = Inr (10 ^ k * int d)" using safe_mul_iff [OF in1(1,2)] in1(3) d(1) by simp
    show ?thesis
    proof (cases "k = 18")
      case True
      have "safe_mul (10 ^ k) 10 \<noteq> Inr y" for y
        using safe_mul_iff [OF in1(1,5), of y] True by (simp add: in_i64_def i64_max_def)
      then show ?thesis using True by auto
    next
      case False
      then have k: "Suc k \<le> 18" using Cons.prems(1) by simp
      have s10: "10 ^ k * 10 = (10 :: int) ^ Suc k" by simp
      have big: "(10 :: int) ^ Suc k \<le> 10 ^ 18" "(10 :: int) ^ Suc k = 10 * 10 ^ k" using pow10_range [OF k] by simp_all
      have r': "0 \<le> r + 10 ^ k * int d" "r + 10 ^ k * int d < 10 ^ Suc k"
        using le Cons.prems(2,3) unfolding big(2) by linarith+
      have "- (2 ^ 63) \<le> (0 :: int)" "1000000000000000000 \<le> (2 :: int) ^ 63 - 1" by simp_all
      then have in2: "in_i64 (r + 10 ^ k * int d)" "in_i64 (10 ^ k * 10)"
        using r' p big(1) unfolding in_i64_def i64_min_def i64_max_def e18 s10 by linarith+
      have a: "safe_add r (10 ^ k * int d) = Inr (r + 10 ^ k * int d)" using safe_add_iff [OF in1(4,3)] in2(1) by simp
      have m10: "safe_mul (10 ^ k) 10 = Inr (10 ^ Suc k)" using safe_mul_iff [OF in1(1,5)] in2(2) s10 by simp
      have "to_int_loop (c # cs) (10 ^ k) r = to_int_loop cs (10 ^ Suc k) (r + 10 ^ k * int d)"
        using \<open>is_digit c\<close> m a m10 by simp
      then show ?thesis using Cons.IH [OF k r'] \<open>is_digit c\<close> by (auto simp: dvals_def d_def [symmetric] algebra_simps)
    qed
  qed
qed

lemma to_int_iff:
  "to_int s = Inr v \<longleftrightarrow> list_all is_digit s \<and> length s \<le> 18 \<and> v = int (b10.horner (dvals s))"
  using to_int_loop_iff [of 0 0 "rev s" v] by (simp add: to_int_def b10.horner_low dvals_def rev_map list_all_iff)

lemma p10_loop_eq: "k + n \<le> 18 \<Longrightarrow> p10_loop n (10 ^ k) = Inr (10 ^ (k + n))"
proof (induction n arbitrary: k)
  case (Suc n)
  have "(10 :: int) ^ Suc k \<le> 10 ^ 18" "(1 :: int) \<le> 10 ^ Suc k" using pow10_range [of "Suc k"] Suc.prems by auto
  then have "in_i64 (10 ^ k * 10)" "in_i64 (10 ^ k)" "in_i64 10" by (auto simp: in_i64_def i64_min_def i64_max_def)
  then have "safe_mul (10 ^ k) 10 = Inr (10 ^ Suc k)" using safe_mul_iff by simp
  then show ?case using Suc.IH [of "Suc k"] Suc.prems by simp
qed simp

lemma precision_eq: "d \<le> 18 \<Longrightarrow> precision_from_decimals (int d) = Inr (10 ^ d)"
  using p10_loop_eq [of 0 d] by (simp add: precision_from_decimals_def)

section \<open>Text\<close>

lemma find_first_None: "find_first P s = None \<longleftrightarrow> list_all (\<lambda>c. \<not> P c) s"
  by (induction s) auto

lemma find_first_append: "list_all (\<lambda>c. \<not> P c) a \<Longrightarrow> P c \<Longrightarrow> find_first P (a @ c # b) = Some (length a)"
  by (induction a) auto

lemma find_first_drop: "(case find_first P s of None \<Rightarrow> length s | Some i \<Rightarrow> min i (length s)) = length (takeWhile (\<lambda>c. \<not> P c) s)"
  by (induction s) (auto split: option.splits)

text \<open>\<open>trim\<close> drops the blanks at both ends.\<close>

lemma trim_alt: "trim s = rev (dropWhile is_blank (rev (dropWhile is_blank s)))"
proof -
  let ?t = "dropWhile is_blank s"
  have drop: "drop (length (takeWhile is_blank s)) s = ?t" by (simp add: dropWhile_eq_drop)
  have take: "take (length u - (case find_last (\<lambda>c. \<not> is_blank c) u of None \<Rightarrow> length u | Some i \<Rightarrow> min (length u - i - 1) (length u))) u
      = rev (dropWhile is_blank (rev u))" for u
  proof (cases "find_first (\<lambda>c. \<not> is_blank c) (rev u)")
    case None
    then have "dropWhile is_blank (rev u) = []" by (auto simp: find_first_None list_all_iff dropWhile_eq_Nil_conv)
    then show ?thesis unfolding find_last_def None by simp
  next
    case (Some i)
    then have i: "i < length u" using find_first_Some by fastforce
    have "length (takeWhile is_blank (rev u)) = i" using find_first_drop [of "rev u" "\<lambda>c. \<not> is_blank c"] Some i by simp
    then have "rev (dropWhile is_blank (rev u)) = take (length u - i) u" by (simp add: dropWhile_eq_drop rev_drop)
    then show ?thesis using Some i by (simp add: find_last_def)
  qed
  show ?thesis unfolding trim_def Let_def find_first_drop not_not drop by (rule take)
qed

lemma trim_id: "s = [] \<or> (\<not> is_blank (hd s) \<and> \<not> is_blank (last s)) \<Longrightarrow> trim s = s"
proof (cases s rule: rev_cases)
  case (snoc ys y)
  moreover assume "s = [] \<or> (\<not> is_blank (hd s) \<and> \<not> is_blank (last s))"
  ultimately have b: "\<not> is_blank (hd s)" "\<not> is_blank y" "s \<noteq> []" by auto
  then have "dropWhile is_blank s = s" by (cases s) auto
  then show ?thesis using b(2) snoc by (simp add: trim_alt)
qed (simp add: trim_alt)

text \<open>The pieces between the delimiters, by structural recursion.\<close>

fun cut :: "string \<Rightarrow> string \<Rightarrow> string list" where
  "cut delims [] = [[]]"
| "cut delims (c # s) = (if c \<in> set delims then [] # cut delims s else (c # hd (cut delims s)) # tl (cut delims s))"

lemma cut_none: "list_all (\<lambda>c. c \<notin> set delims) s \<Longrightarrow> cut delims s = [s]"
  by (induction s) auto

lemma cut_append: "list_all (\<lambda>c. c \<notin> set delims) a \<Longrightarrow> c \<in> set delims \<Longrightarrow> cut delims (a @ c # b) = a # cut delims b"
  by (induction a) auto

lemma cut_length: "length (cut delims s) = Suc (length (filter (\<lambda>c. c \<in> set delims) s))"
proof (induction s)
  case (Cons c s)
  then show ?case by (cases "cut delims s") auto
qed simp

lemma split_from_cut: "split_from str delims k = map trim (cut delims (drop k str))"
proof (induction str delims k rule: split_from.induct)
  case (1 str delims k)
  let ?P = "\<lambda>c. c \<in> set delims" and ?u = "drop k str"
  show ?case
  proof (cases "find_first ?P ?u")
    case None
    then have "cut delims ?u = [?u]" by (intro cut_none) (simp add: find_first_None)
    then show ?thesis by (subst split_from.simps) (simp add: find_first_of_def None)
  next
    case (Some i)
    then have i: "i < length ?u" "?P (?u ! i)" "\<forall>j<i. \<not> ?P (?u ! j)" using find_first_Some by blast+
    have f: "find_first_of str delims k = Some (k + i)" using Some by (simp add: find_first_of_def)
    have u: "?u = take i ?u @ ?u ! i # drop (Suc i) ?u" using i(1) by (rule id_take_nth_drop)
    have "list_all (\<lambda>c. \<not> ?P c) (take i ?u)" using i(1,3) by (auto simp: list_all_length)
    then have c: "cut delims ?u = take i ?u # cut delims (drop (k + i + 1) str)"
      using cut_append [of delims "take i ?u" "?u ! i" "drop (Suc i) ?u"] i(2) u by (simp add: add.commute)
    have "split_from str delims k = trim (take i ?u) # split_from str delims (k + i + 1)"
      by (subst split_from.simps) (simp add: f)
    then show ?thesis using 1 [OF f] c by simp
  qed
qed

text \<open>C40: splitting a text ends and cuts it at every delimiter. The loop of \<open>split\<close> ends on every text and yields
  the pieces between the delimiters, in order and trimmed, one more than there are delimiters.\<close>
theorem split_pieces:
  "split_str s delims = map trim (cut delims s) \<and> length (split_str s delims) = Suc (length (filter (\<lambda>c. c \<in> set delims) s))"
  by (simp add: split_str_def split_from_cut cut_length)

section \<open>Reading assets\<close>

text \<open>A number with \<open>d\<close> digits as it is printed.\<close>

fun pad :: "nat \<Rightarrow> nat \<Rightarrow> string" where
  "pad 0 n = []"
| "pad (Suc d) n = pad d (n div 10) @ [char_of (48 + n mod 10)]"

lemma digit_char_of: "n < 10 \<Longrightarrow> of_char (char_of (48 + n)) = 48 + n" for n :: nat
  by (simp add: of_char_of)

lemma pad_digits: "list_all is_digit (pad d n)" "length (pad d n) = d"
  by (induction d n rule: pad.induct) (auto simp: is_digit_def digit_char_of)

lemma pad_value: "b10.horner (dvals (pad d n)) = n mod 10 ^ d"
proof (induction d n rule: pad.induct)
  case (2 d n)
  have "b10.horner (dvals (pad (Suc d) n)) = 10 * (n div 10 mod 10 ^ d) + n mod 10" using 2 by (simp add: dvals_def digit_char_of)
  also have "\<dots> = n mod (10 * 10 ^ d)" by (simp add: mod_mult2_eq)
  finally show ?case by simp
qed (simp add: dvals_def)

lemma to_int_pad: "d \<le> 18 \<Longrightarrow> to_int (pad d n) = Inr (int (n mod 10 ^ d))"
  using to_int_iff [of "pad d n"] pad_digits [of d n] pad_value [of d n] by auto

lemma digit_not_special: "is_digit c \<Longrightarrow> \<not> is_blank c \<and> c \<noteq> CHR ''.'' \<and> c \<noteq> CHR ''-''"
  by (auto simp: is_digit_def is_blank_def)

lemma as_int8_small: "d \<le> 18 \<Longrightarrow> as_int8 (word_of_nat d) = int d"
  by (simp add: as_int8_def signed_of_nat signed_take_bit_int_eq_self)

text \<open>An amount without blanks, followed by a symbol: the text is cut at the space, and the amount at its decimal point.\<close>

lemma asset_from_parts:
  assumes "list_all (\<lambda>c. \<not> is_blank c) amt" "amt \<noteq> []" "code \<noteq> []" "\<not> is_blank (hd code)" "\<not> is_blank (last code)"
  shows "asset_from_string C mk (amt @ CHR '' '' # code) =
     (let dot_pos = find_first (\<lambda>c. c = CHR ''.'') amt in
      if dot_pos = Some (length amt - 1) then Inl (Check ''Missing decimal fraction after decimal point'')
      else rbind (mk code (case dot_pos of None \<Rightarrow> 0 | Some d \<Rightarrow> word_of_nat (length amt - d - 1))) (\<lambda>sm.
             rbind (case dot_pos of
                      None \<Rightarrow> rbind (to_int amt) (\<lambda>i. Inr (i, 0))
                    | Some d \<Rightarrow>
                        rbind (to_int (take d amt)) (\<lambda>i.
                        rbind (to_int (drop (d + 1) amt)) (\<lambda>f.
                        if amt ! 0 = CHR ''-'' then rbind (safe_mul f (- 1)) (\<lambda>f. Inr (i, f)) else Inr (i, f)))) (\<lambda>(int_part, fract_part).
             rbind (precision_from_decimals (as_int8 (sym_precision sm))) (\<lambda>precision.
             rbind (safe_mul int_part precision) (\<lambda>amount.
             rbind (safe_add amount fract_part) (\<lambda>amount.
             asset_make C amount sm))))))"
proof -
  have tr: "trim (amt @ CHR '' '' # code) = amt @ CHR '' '' # code"
    using assms(1,2) hd_in_set [OF assms(2)] assms(3,5) by (intro trim_id) (auto simp: list_all_iff)
  have sp: "find_first is_blank (amt @ CHR '' '' # code) = Some (length amt)"
    using assms(1) by (intro find_first_append) (auto simp: is_blank_def)
  have tc: "trim code = code" using assms(3-5) by (intro trim_id) auto
  have td: "take (length amt) (amt @ CHR '' '' # code) = amt" "drop (length amt + 1) (amt @ CHR '' '' # code) = code" by simp_all
  show ?thesis by (simp only: asset_from_string_def Let_def tr sp option.case td tc)
qed

text \<open>The digits of an amount, and the characters that cut it.\<close>

definition amount_text :: "nat \<Rightarrow> nat \<Rightarrow> nat \<Rightarrow> string" where
  "amount_text k d n = pad k (n div 10 ^ d) @ (if d = 0 then [] else CHR ''.'' # pad d (n mod 10 ^ d))"

lemma amount_text_parts:
  assumes "0 < k"
  shows "list_all (\<lambda>c. \<not> is_blank c) (amount_text k d n)" "amount_text k d n \<noteq> []" "amount_text k d n ! 0 \<noteq> CHR ''-''"
    "find_first (\<lambda>c. c = CHR ''.'') (amount_text k d n) = (if d = 0 then None else Some k)"
    "length (amount_text k d n) = (if d = 0 then k else k + 1 + d)"
    "take k (amount_text k d n) = pad k (n div 10 ^ d)" "d \<noteq> 0 \<Longrightarrow> drop (Suc k) (amount_text k d n) = pad d (n mod 10 ^ d)"
proof -
  let ?i = "pad k (n div 10 ^ d)" and ?f = "pad d (n mod 10 ^ d)"
  have dig: "list_all (\<lambda>c. \<not> is_blank c \<and> c \<noteq> CHR ''.'' \<and> c \<noteq> CHR ''-'') ?i" "list_all (\<lambda>c. \<not> is_blank c) ?f" "?i \<noteq> []"
    using pad_digits [of k "n div 10 ^ d"] pad_digits [of d "n mod 10 ^ d"] digit_not_special assms by (auto simp: list_all_iff)
  then show "list_all (\<lambda>c. \<not> is_blank c) (amount_text k d n)" "amount_text k d n \<noteq> []"
    by (auto simp: amount_text_def list_all_iff is_blank_def)
  have "amount_text k d n ! 0 = hd ?i" using dig(3) pad_digits(2) [of k "n div 10 ^ d"] assms by (simp add: amount_text_def hd_conv_nth nth_append)
  then show "amount_text k d n ! 0 \<noteq> CHR ''-''" using dig(1,3) by (auto simp: list_all_iff)
  show "find_first (\<lambda>c. c = CHR ''.'') (amount_text k d n) = (if d = 0 then None else Some k)"
    using dig(1) find_first_append [of "\<lambda>c. c = CHR ''.''" ?i "CHR ''.''" ?f] pad_digits(2)
    by (auto simp: amount_text_def find_first_None list_all_iff)
  show "length (amount_text k d n) = (if d = 0 then k else k + 1 + d)" "take k (amount_text k d n) = ?i"
    "d \<noteq> 0 \<Longrightarrow> drop (Suc k) (amount_text k d n) = ?f"
    by (auto simp: amount_text_def pad_digits)
qed

text \<open>The value of the digits never leaves 64 bits on the way.\<close>

lemma amount_value:
  assumes "int n \<le> max_amount" "d \<le> 18"
  shows "safe_mul (int (n div 10 ^ d)) (10 ^ d) = Inr (int (n div 10 ^ d) * 10 ^ d)"
    "safe_add (int (n div 10 ^ d) * 10 ^ d) (int (n mod 10 ^ d)) = Inr (int n)"
proof -
  have "int (n div 10 ^ d * 10 ^ d + n mod 10 ^ d) = int n" by (simp only: div_mult_mod_eq)
  then have sum: "int (n div 10 ^ d) * 10 ^ d + int (n mod 10 ^ d) = int n"
    by (simp only: of_nat_add of_nat_mult of_nat_power of_nat_numeral)
  have lim: "int n \<le> i64_max" "(10 :: int) ^ d \<le> i64_max" "(1 :: int) \<le> 10 ^ d" "i64_min \<le> 0"
    using assms(1) pow10_range [OF assms(2)] by (auto simp: i64_max_def i64_min_def max_amount_def)
  have "int (n mod 10 ^ d) \<le> int n" "int (n div 10 ^ d) \<le> int n" by (simp_all only: of_nat_le_iff mod_less_eq_dividend div_le_dividend)
  moreover from sum have "int (n div 10 ^ d) * 10 ^ d \<le> int n" by linarith
  moreover have "0 \<le> int (n div 10 ^ d) * 10 ^ d" by simp
  ultimately have ok: "in_i64 (int n)" "in_i64 (int (n div 10 ^ d))" "in_i64 (10 ^ d)" "in_i64 (int (n div 10 ^ d) * 10 ^ d)" "in_i64 (int (n mod 10 ^ d))"
    using lim unfolding in_i64_def by linarith+
  show "safe_mul (int (n div 10 ^ d)) (10 ^ d) = Inr (int (n div 10 ^ d) * 10 ^ d)" using safe_mul_iff [OF ok(2,3)] ok(4) by simp
  show "safe_add (int (n div 10 ^ d) * 10 ^ d) (int (n mod 10 ^ d)) = Inr (int n)" using safe_add_iff [OF ok(4,5)] ok(1) sum by simp
qed

text \<open>An asset as the development kit prints it: the sign, \<open>k\<close> digits, the decimal point and \<open>d\<close> digits, a space and the code.\<close>

definition asset_text :: "nat \<Rightarrow> nat \<Rightarrow> int \<Rightarrow> string \<Rightarrow> string" where
  "asset_text k d v code = (if v < 0 then CHR ''-'' # amount_text k d (nat (- v)) else amount_text k d (nat v)) @ CHR '' '' # code"

lemma nonneg_read_back:
  assumes "cdt_laws C" "symbol_is_valid C sy" "mk code (word_of_nat d) = Inr sy" "sym_precision sy = word_of_nat d"
    "code \<noteq> []" "\<not> is_blank (hd code)" "\<not> is_blank (last code)"
    "int n \<le> max_amount" "d \<le> 18" "0 < k" "k \<le> 18" "n div 10 ^ d < 10 ^ k"
  shows "asset_from_string C mk (amount_text k d n @ CHR '' '' # code) = Inr (mk_asset (int n) sy)"
proof -
  note a = amount_text_parts [OF assms(10), of d n]
  have val: "n div 10 ^ d mod 10 ^ k = n div 10 ^ d" using assms(12) by simp
  have p: "precision_from_decimals (as_int8 (sym_precision sy)) = Inr (10 ^ d)"
    using precision_eq [OF assms(9)] as_int8_small [OF assms(9)] assms(4) by simp
  have mk: "asset_make C (int n) sy = Inr (mk_asset (int n) sy)"
    using assms(1,2,8) by (simp add: cdt_laws_def amount_okI)
  note v = amount_value [OF assms(8,9)]
  show ?thesis
  proof (cases "d = 0")
    case True
    have "amount_text k d n = pad k (n div 10 ^ d)" using True by (simp add: amount_text_def)
    then show ?thesis unfolding asset_from_parts [OF a(1,2) assms(5-7)] Let_def
      using True a(4) assms(3) to_int_pad [OF assms(11)] p v mk val by simp
  next
    case False
    then show ?thesis unfolding asset_from_parts [OF a(1,2) assms(5-7)] Let_def
      using a(3-7) assms(3) to_int_pad [OF assms(11)] to_int_pad [OF assms(9)] p v mk val by simp
  qed
qed

text \<open>The minus sign is no digit, so the text of a negative amount is refused before its sign is looked at.\<close>

lemma negative_refused:
  assumes "code \<noteq> []" "\<not> is_blank (hd code)" "\<not> is_blank (last code)" "0 < k"
  shows "asset_from_string C mk ((CHR ''-'' # amount_text k d n) @ CHR '' '' # code) \<noteq> Inr r"
proof -
  note a = amount_text_parts [OF assms(4), of d n]
  have m: "list_all (\<lambda>c. \<not> is_blank c) (CHR ''-'' # amount_text k d n)" "CHR ''-'' # amount_text k d n \<noteq> []"
    using a(1) by (simp_all add: is_blank_def)
  have "find_first (\<lambda>c. c = CHR ''.'') (CHR ''-'' # amount_text k d n) = (if d = 0 then None else Some (Suc k))"
    using a(4) by simp
  moreover have "to_int (CHR ''-'' # t) \<noteq> Inr i" for t i by (simp add: to_int_iff is_digit_def)
  ultimately show ?thesis unfolding asset_from_parts [OF m assms(1-3)] Let_def by auto
qed

text \<open>C39: a printed asset is read back, unless it is negative. An amount, written with \<open>k\<close> digits before and \<open>d\<close> digits after
  the decimal point and followed by its symbol, is read as that amount of that symbol, for up to 18 digits on both
  sides, when it is not negative; with a minus sign the text is refused. \<open>mk\<close>, the symbol constructor of the development kit, is only asked to
  accept the symbol.\<close>
theorem asset_read_back:
  assumes "cdt_laws C" "symbol_is_valid C sy" "mk code (word_of_nat d) = Inr sy" "sym_precision sy = word_of_nat d"
    "code \<noteq> []" "\<not> is_blank (hd code)" "\<not> is_blank (last code)"
    "\<bar>v\<bar> \<le> max_amount" "d \<le> 18" "0 < k" "k \<le> 18" "\<bar>v\<bar> div 10 ^ d < 10 ^ k"
  shows "if 0 \<le> v then asset_from_string C mk (asset_text k d v code) = Inr (mk_asset v sy)
     else \<exists>e. asset_from_string C mk (asset_text k d v code) = Inl e"
proof (cases "0 \<le> v")
  case True
  then have "int (nat v div 10 ^ d) < int (10 ^ k)" using assms(12) by (simp add: zdiv_int)
  then have "nat v div 10 ^ d < 10 ^ k" by (simp only: of_nat_less_iff)
  then show ?thesis using nonneg_read_back [of C sy mk code d "nat v" k] assms(1-11) True by (simp add: asset_text_def)
next
  case False
  then show ?thesis
    using negative_refused [OF assms(5-7,10), of C mk d "nat (- v)"]
    by (cases "asset_from_string C mk (asset_text k d v code)") (auto simp: asset_text_def)
qed

theorem asset_read_back_witness:
  "asset_from_string cdt_ref (\<lambda>c p. Inr \<lparr>sym_code = 0x4e4f4c46, sym_precision = p\<rparr>) ''12.0345 FLON'' = Inr (mk_asset 120345 demo_symbol)
   \<and> (\<exists>e. asset_from_string cdt_ref (\<lambda>c p. Inr \<lparr>sym_code = 0x4e4f4c46, sym_precision = p\<rparr>) ''-12.0345 FLON'' = Inl e)"
proof -
  let ?mk = "\<lambda>c p. Inr \<lparr>sym_code = 0x4e4f4c46, sym_precision = p\<rparr>"
  have "amount_text 2 4 120345 = ''12.0345''"
  proof -
    have d: "2 = Suc (Suc 0)" "4 = Suc (Suc (Suc (Suc 0)))" by simp_all
    have "pad 2 12 = ''12''" "pad 4 345 = ''0345''" unfolding d by (simp_all add: char_of_def bit_0)
    then show ?thesis by (simp add: amount_text_def)
  qed
  then have t: "asset_text 2 4 120345 ''FLON'' = ''12.0345 FLON''" "asset_text 2 4 (- 120345) ''FLON'' = ''-12.0345 FLON''"
    by (simp_all add: asset_text_def)
  have c: "symbol_is_valid cdt_ref demo_symbol" "?mk ''FLON'' (word_of_nat 4) = Inr demo_symbol" "sym_precision demo_symbol = word_of_nat 4"
      "''FLON'' \<noteq> []" "\<not> is_blank (hd ''FLON'')" "\<not> is_blank (last ''FLON'')"
    by (simp_all add: demo_symbol_def cdt_ref_def is_blank_def)
  show ?thesis
    using asset_read_back [of cdt_ref demo_symbol ?mk "''FLON''" 4 120345 2] asset_read_back [of cdt_ref demo_symbol ?mk "''FLON''" 4 "- 120345" 2]
      ref.laws c by (simp add: t max_amount_def)
qed

section \<open>Increments and records\<close>

text \<open>Counting up and down again restores a checked number, unless it is the largest one.\<close>

lemma inc_dec:
  assumes "in_i64 a" "a < i64_max"
  shows "rbind (safe_inc a) safe_dec = Inr a"
proof -
  have "in_i64 (a + 1)" "in_i64 1" using assms by (auto simp: in_i64_def i64_min_def i64_max_def)
  then show ?thesis
    using assms(1) safe_add_iff [OF assms(1), of 1 "a + 1"] safe_sub_iff [of "a + 1" 1 a]
    by (simp add: safe_inc_def safe_dec_def safe_add_assign_def safe_sub_assign_def)
qed

lemma inc_at_limit: "safe_inc i64_max \<noteq> Inr v" "safe_post_inc i64_max \<noteq> Inr w"
proof -
  have "in_i64 i64_max" "in_i64 1" "\<not> in_i64 (i64_max + 1)" by (auto simp: in_i64_def i64_min_def i64_max_def)
  then have no: "safe_add i64_max 1 \<noteq> Inr v" for v using safe_add_iff [of i64_max 1 v] by simp
  then show "safe_inc i64_max \<noteq> Inr v" by (simp add: safe_inc_def safe_add_assign_def)
  show "safe_post_inc i64_max \<noteq> Inr w"
    using no by (cases "safe_add i64_max 1") (auto simp: safe_post_inc_def safe_add_assign_def)
qed

text \<open>A record that was set is read back, a record that was deleted is not, and other keys are not touched; \<open>set\<close>
  tells whether the row was there.\<close>

lemma dbc_get_set:
  assumes "dbc_set pk r t = (f, t')"
  shows "dbc_get pk r' t' = (if pk r' = pk r then (True, r) else dbc_get pk r' t)"
    and "f = MODIFIED \<longleftrightarrow> fst (dbc_get pk r t)"
  using assms by (auto simp: dbc_set_def dbc_get_def tfind_tput split: if_splits option.splits)

lemma dbc_get_del:
  "dbc_get pk r' (dbc_del pk r t) = (if pk r' = pk r then (False, r') else dbc_get pk r' t)"
  by (auto simp: dbc_del_def dbc_get_def tfind_terase split: option.splits)

lemma dbc_get_set_scope:
  assumes "dbc_set_scope pk sc r t = (f, t')"
  shows "dbc_get_scope pk sc' r' t' = (if sc' = sc \<and> pk r' = pk r then (True, r) else dbc_get_scope pk sc' r' t)"
    and "f = MODIFIED \<longleftrightarrow> fst (dbc_get_scope pk sc r t)"
  using assms by (auto simp: dbc_set_scope_def dbc_get_scope_def Let_def tfind_tput split: if_splits option.splits)

lemma dbc_get_del_scope:
  "dbc_get_scope pk sc' r' (dbc_del_scope pk sc r t) = (if sc' = sc \<and> pk r' = pk r then (False, r') else dbc_get_scope pk sc' r' t)"
  by (auto simp: dbc_del_scope_def dbc_get_scope_def Let_def tfind_terase split: option.splits)

end
