(* ===== verification/Pubkey_Token.thy ===== *)
theory Pubkey_Token
  imports Utils
begin

text \<open>
  The contract \<open>pubkey.token\<close>: tokens sent with a public key as memo are kept in a row for that
  key until a miner creates an account for the key (\<open>newaccount\<close>) or moves the tokens to an
  existing one (\<open>move\<close>), for a fee.

  The cryptographic functions are the functions of \<open>pk_api\<close>. A row is found by the hash of its key, but what is hashed are the
  bytes of the key object in memory (\<open>reinterpret_cast\<close>, \<open>sizeof\<close>). A key is a variant, which is larger than the
  kind of key it holds, and assigning a key leaves the bytes beyond it as they are: two objects with the same key may hash differently.
  \<open>memory_hash\<close> therefore takes those bytes as an argument, \<open>key_memory\<close> has them for the objects of an action, and the
  index keeps for every row the hash that was computed when the row was stored.
\<close>

section \<open>Tables\<close>

definition FLON_SYMBOL :: symbol where "FLON_SYMBOL = \<lparr>sym_code = 0x4e4f4c46, sym_precision = 4\<rparr>"
definition FLON_BANK :: name where "FLON_BANK = 0x5c6930669054c000" \<comment> \<open>flon.token\<close>
definition FLON_SYSTEM :: name where "FLON_SYSTEM = 0x5c69371a60000000" \<comment> \<open>flonian\<close>
definition active_perm :: name where "active_perm = 0x3232eda800000000" \<comment> \<open>active\<close>
definition flon_admin :: name where "flon_admin = 0x5c6930193274c000" \<comment> \<open>flon.admin\<close>

text \<open>The codes of \<open>CHECKC\<close>.\<close>

definition err_NO_AUTH :: nat where "err_NO_AUTH = 9"

record global_t =
  g_admin :: name
  g_last_idx :: "64 word"
  g_miner_fee :: asset

definition global_t_init :: global_t where
  "global_t_init = \<lparr>g_admin = flon_admin, g_last_idx = 0, g_miner_fee = mk_asset 1000 FLON_SYMBOL\<rparr>"

record pubkey_account_t =
  pa_id :: "64 word"
  pa_pubkey :: public_key
  pa_quantity :: asset
  pa_last_recv_at :: time_point

record pk_state =
  pk_global :: "global_t option"
  pk_accts :: "(64 word, pubkey_account_t) table"
  pk_by_pubkey :: "(64 word, bytes) table"       \<comment> \<open>the secondary index: the hash stored for the row\<close>

definition pk_empty :: pk_state where
  "pk_empty = \<lparr>pk_global = None, pk_accts = [], pk_by_pubkey = []\<rparr>"

section \<open>Library functions\<close>

type_synonym signature = bytes

record pk_api =
  memory_hash :: "bytes \<Rightarrow> public_key \<Rightarrow> bytes" \<comment> \<open>SHA-256 of the object: the bytes beyond the key, the key\<close>
  sha256 :: "string \<Rightarrow> bytes"
  assert_recover_key :: "bytes \<Rightarrow> signature \<Rightarrow> public_key \<Rightarrow> unit res"
  name_to_string :: "name \<Rightarrow> string"
  uint64_to_string :: "64 word \<Rightarrow> string"
  no_pubkey :: public_key                        \<comment> \<open>\<open>public_key()\<close>\<close>
  no_signature :: signature                      \<comment> \<open>\<open>signature()\<close>\<close>

text \<open>The bytes beyond the key: in the object the action looks up, and in the row it builds.\<close>

record key_memory =
  km_key :: bytes
  km_row :: bytes

definition hash_account :: "pk_api \<Rightarrow> name \<Rightarrow> bytes" where
  "hash_account K account = sha256 K (name_to_string K account)"

definition hash_timepoint :: "pk_api \<Rightarrow> time_point \<Rightarrow> bytes" where
  "hash_timepoint K tp = sha256 K (uint64_to_string K (word_of_int tp))"

text \<open>The inline actions the contract sends.\<close>

datatype pk_inline =
    Pk_transfer name "permission_level list" name name asset string
  | Pk_newaccount name "permission_level list" name name public_key public_key

section \<open>Operations\<close>

text \<open>\<open>idx.find\<close>: the row with the lowest primary key among those stored under the hash. A row that is stored, changed
  or erased has its index entry stored, kept (its key is not changed) or erased.\<close>

definition by_pubkey :: "pk_api \<Rightarrow> bytes \<Rightarrow> pubkey_account_t \<Rightarrow> bytes" where
  "by_pubkey K mem row = memory_hash K mem (pa_pubkey row)"

definition idx_find :: "bytes \<Rightarrow> pk_state \<Rightarrow> pubkey_account_t option" where
  "idx_find h s = (case find (\<lambda>(_, key). key = h) (pk_by_pubkey s) of None \<Rightarrow> None | Some (k, _) \<Rightarrow> tfind (pk_accts s) k)"

definition idx_erase :: "pubkey_account_t \<Rightarrow> pk_state \<Rightarrow> pk_state" where
  "idx_erase row s = s\<lparr>pk_accts := terase (pa_id row) (pk_accts s), pk_by_pubkey := terase (pa_id row) (pk_by_pubkey s)\<rparr>"

text \<open>The constructor reads the global row, the destructor writes it back.\<close>

definition load_global :: "ctx \<Rightarrow> pk_state \<Rightarrow> global_t" where
  "load_global x s = (case pk_global s of Some g \<Rightarrow> g | None \<Rightarrow> global_t_init\<lparr>g_admin := self x\<rparr>)"

definition store_global :: "global_t \<Rightarrow> pk_state \<Rightarrow> pk_state" where
  "store_global g s = s\<lparr>pk_global := Some g\<rparr>"

definition on_pubkey_recv_token ::
  "cdt \<Rightarrow> pk_api \<Rightarrow> key_memory \<Rightarrow> ctx \<Rightarrow> public_key \<Rightarrow> asset \<Rightarrow> global_t \<times> pk_state \<Rightarrow> (global_t \<times> pk_state) res" where
  "on_pubkey_recv_token C K mem x pubkey quantity = (\<lambda>(g, s).
     (case idx_find (memory_hash K (km_key mem) pubkey) s of
        None \<Rightarrow>
          (let g = g\<lparr>g_last_idx := g_last_idx g + 1\<rparr>;
               row = \<lparr>pa_id = g_last_idx g, pa_pubkey = pubkey, pa_quantity = quantity, pa_last_recv_at = now x\<rparr> in
           rbind (templace DuplicateKey (pa_id row) row (pk_accts s)) (\<lambda>t.
           Inr (g, s\<lparr>pk_accts := t, pk_by_pubkey := tput (pa_id row) (by_pubkey K (km_row mem) row) (pk_by_pubkey s)\<rparr>)))
      | Some row \<Rightarrow>
          rbind (asset_add C (pa_quantity row) quantity) (\<lambda>q.
          Inr (g, s\<lparr>pk_accts := tput (pa_id row) (row\<lparr>pa_quantity := q, pa_last_recv_at := now x\<rparr>) (pk_accts s)\<rparr>))))"

definition ontransfer ::
  "cdt \<Rightarrow> pk_api \<Rightarrow> key_memory \<Rightarrow> ctx \<Rightarrow> name \<Rightarrow> name \<Rightarrow> asset \<Rightarrow> string \<Rightarrow> global_t \<times> pk_state \<Rightarrow> (global_t \<times> pk_state) res" where
  "ontransfer C K mem x src dst quantity memo gs =
     (if dst \<noteq> self x then Inr gs
      else if src = self x then Inr gs
      else if \<not> first_receiver x = FLON_BANK then Inl (Check ''Only `flon.token` is supported'')
      else if \<not> a_symbol quantity \<noteq> FLON_SYMBOL then Inl (Check ''Only FLON tokens are supported'')
      else rbind (str_to_pubkey memo) (\<lambda>pubkey. on_pubkey_recv_token C K mem x pubkey quantity gs))"

text \<open>What follows the transfer of the fee: the rest goes to the account. \<open>a > b\<close> is the negation of
  \<open>b >= a\<close>.\<close>

definition collect :: "cdt \<Rightarrow> ctx \<Rightarrow> name \<Rightarrow> asset \<Rightarrow> asset \<Rightarrow> string \<Rightarrow> pk_inline list res" where
  "collect C x acct quantity fee memo =
     rbind (asset_ge C fee quantity) (\<lambda>le.
     if \<not> le then rbind (asset_sub C quantity fee) (\<lambda>q.
       Inr [Pk_transfer FLON_BANK [(self x, active_perm)] (self x) acct q memo])
     else Inr [])"

definition pk_newaccount ::
  "cdt \<Rightarrow> pk_api \<Rightarrow> key_memory \<Rightarrow> ctx \<Rightarrow> name \<Rightarrow> public_key \<Rightarrow> name \<Rightarrow> signature \<Rightarrow> global_t \<times> pk_state
     \<Rightarrow> ((global_t \<times> pk_state) \<times> pk_inline list) res" where
  "pk_newaccount C K mem x miner pubkey acct sig = (\<lambda>(g, s).
     if \<not> has_auth x miner then Inl (MissingAuth miner)
     else if is_account x acct then Inl (Check ''Account already exists'')
     else case idx_find (memory_hash K (km_key mem) pubkey) s of
       None \<Rightarrow> Inl (Check ''pubkey not found'')
     | Some itr \<Rightarrow>
         rbind (asset_ge C (pa_quantity itr) (g_miner_fee g)) (\<lambda>ge.
         if \<not> ge then Inl (Check ''insufficient proxy miner fees to pay'')
         else rbind (assert_recover_key K (hash_account K acct) sig pubkey) (\<lambda>_.
         rbind (collect C x acct (pa_quantity itr) (g_miner_fee g) ''newaccount pubkey token collection'') (\<lambda>rest.
         Inr ((g, idx_erase itr s),
              [Pk_newaccount FLON_SYSTEM [(self x, active_perm)] (self x) acct pubkey pubkey,
               Pk_transfer FLON_BANK [(self x, active_perm)] (self x) miner (g_miner_fee g)
                 (''newaccount fee: '' @ name_to_string K acct)] @ rest)))))"

definition pk_move ::
  "cdt \<Rightarrow> pk_api \<Rightarrow> key_memory \<Rightarrow> ctx \<Rightarrow> name \<Rightarrow> public_key \<Rightarrow> time_point \<Rightarrow> name \<Rightarrow> signature \<Rightarrow> global_t \<times> pk_state
     \<Rightarrow> ((global_t \<times> pk_state) \<times> pk_inline list) res" where
  "pk_move C K mem x miner pubkey last_recv_at to_acct sig = (\<lambda>(g, s).
     if \<not> is_account x to_acct then Inl (Check ''Account does not exist'')
     else if pubkey = no_pubkey K then Inl (Check ''Invalid public key'')
     else if sig = no_signature K then Inl (Check ''Invalid signature'')
     else case idx_find (memory_hash K (km_key mem) pubkey) s of
       None \<Rightarrow> Inl (Check ''pubkey not found'')
     | Some itr \<Rightarrow>
         rbind (asset_ge C (pa_quantity itr) (g_miner_fee g)) (\<lambda>ge.
         if \<not> ge then Inl (Check ''insufficient proxy miner fees to pay'')
         else rbind (assert_recover_key K (hash_timepoint K last_recv_at) sig pubkey) (\<lambda>_.
         if pa_last_recv_at itr \<noteq> last_recv_at then Inl (Check ''Invalid last transfer time'')
         else rbind (collect C x to_acct (pa_quantity itr) (g_miner_fee g) ''move pubkey tokens to account'') (\<lambda>rest.
         Inr ((g, idx_erase itr s),
              Pk_transfer FLON_BANK [(self x, active_perm)] (self x) miner (g_miner_fee g)
                (''move fee: '' @ name_to_string K to_acct) # rest)))))"

definition check_admin :: "ctx \<Rightarrow> global_t \<Rightarrow> unit res" where
  "check_admin x g =
     (if has_auth x (self x) \<or> has_auth x (g_admin g) then Inr () else Inl (CheckC err_NO_AUTH ''no auth for operate''))"

definition pk_init :: "ctx \<Rightarrow> name \<Rightarrow> global_t \<times> pk_state \<Rightarrow> (global_t \<times> pk_state) res" where
  "pk_init x admin = (\<lambda>(g, s). rbind (check_admin x g) (\<lambda>_. Inr (g\<lparr>g_admin := admin\<rparr>, s)))"

section \<open>Actions\<close>

datatype pk_action =
    Pk_ontransfer name name asset string
  | Pk_create name public_key name signature
  | Pk_move name public_key time_point name signature
  | Pk_init name

fun pk_handle :: "cdt \<Rightarrow> pk_api \<Rightarrow> key_memory \<Rightarrow> ctx \<Rightarrow> pk_action \<Rightarrow> global_t \<times> pk_state \<Rightarrow> ((global_t \<times> pk_state) \<times> pk_inline list) res" where
  "pk_handle C K mem x (Pk_ontransfer src dst q m) gs = rbind (ontransfer C K mem x src dst q m gs) (\<lambda>gs. Inr (gs, []))"
| "pk_handle C K mem x (Pk_create miner key acct sig) gs = pk_newaccount C K mem x miner key acct sig gs"
| "pk_handle C K mem x (Pk_move miner key t acct sig) gs = pk_move C K mem x miner key t acct sig gs"
| "pk_handle C K mem x (Pk_init admin) gs = rbind (pk_init x admin gs) (\<lambda>gs. Inr (gs, []))"

definition pk_exec :: "cdt \<Rightarrow> pk_api \<Rightarrow> key_memory \<Rightarrow> ctx \<Rightarrow> pk_action \<Rightarrow> pk_state \<Rightarrow> (pk_state \<times> pk_inline list) res" where
  "pk_exec C K mem x a s = rbind (pk_handle C K mem x a (load_global x s, s)) (\<lambda>((g, s), acts). Inr (store_global g s, acts))"

text \<open>A history lists the actions that succeeded, the latest first; what memory held in each of them is left open.\<close>

inductive pk_run :: "cdt \<Rightarrow> pk_api \<Rightarrow> (ctx \<times> pk_action) list \<Rightarrow> pk_state \<Rightarrow> bool" for C K where
  pk_start: "pk_run C K [] pk_empty"
| pk_step: "pk_run C K L s \<Longrightarrow> pk_exec C K mem x a s = Inr (s', acts) \<Longrightarrow> pk_run C K ((x, a) # L) s'"

end
