(* ===== verification/Pubkey_Props.thy ===== *)
theory Pubkey_Props
  imports Pubkey_Token
begin

text \<open>
  The rows of \<open>pubkey.token\<close> hold exactly what was deposited, whatever memory holds beside the keys. Since a
  deposit is never in FLON and the fee always is, no action ever pays out.
\<close>

section \<open>The index by key\<close>

text \<open>Rows are filed under their number, hold a key of \<open>S\<close> and no FLON; an index entry belongs to a row and is a hash of its key.\<close>

definition row_ok :: "public_key set \<Rightarrow> 64 word \<Rightarrow> pubkey_account_t \<Rightarrow> bool" where
  "row_ok S k r \<longleftrightarrow> pa_id r = k \<and> pa_pubkey r \<in> S \<and> a_symbol (pa_quantity r) \<noteq> FLON_SYMBOL"

definition pk_inv :: "pk_api \<Rightarrow> public_key set \<Rightarrow> pk_state \<Rightarrow> bool" where
  "pk_inv K S s \<longleftrightarrow> twf (pk_accts s) \<and> twf (pk_by_pubkey s)
     \<and> (\<forall>k r. tfind (pk_accts s) k = Some r \<longrightarrow> row_ok S k r)
     \<and> (\<forall>k h. tfind (pk_by_pubkey s) k = Some h \<longrightarrow> (\<exists>r mem. tfind (pk_accts s) k = Some r \<and> h = by_pubkey K mem r))
     \<and> (case pk_global s of None \<Rightarrow> True | Some g \<Rightarrow> a_symbol (g_miner_fee g) = FLON_SYMBOL)"

lemma pk_invD:
  assumes "pk_inv K S s"
  shows "twf (pk_accts s)" "twf (pk_by_pubkey s)" "tfind (pk_accts s) k = Some r \<Longrightarrow> row_ok S k r"
    "tfind (pk_by_pubkey s) k = Some h \<Longrightarrow> \<exists>r mem. tfind (pk_accts s) k = Some r \<and> h = by_pubkey K mem r"
    "a_symbol (g_miner_fee (load_global x s)) = FLON_SYMBOL"
  using assms by (auto simp: pk_inv_def load_global_def global_t_init_def split: option.splits)

lemma idx_find_Some:
  assumes "pk_inv K S s" "idx_find h s = Some r"
  obtains mem where "tfind (pk_accts s) (pa_id r) = Some r" "row_ok S (pa_id r) r" "h = by_pubkey K mem r"
proof -
  from assms(2) obtain k where k: "(k, h) \<in> set (pk_by_pubkey s)" "tfind (pk_accts s) k = Some r"
    by (auto simp: idx_find_def split: option.splits dest!: find_SomeD)
  then have "tfind (pk_by_pubkey s) k = Some h" using pk_invD(2) [OF assms(1)] by (simp add: tfind_in_set)
  then obtain mem where "h = by_pubkey K mem r" using pk_invD(4) [OF assms(1)] k(2) by fastforce
  moreover have "row_ok S k r" "pa_id r = k" using pk_invD(3) [OF assms(1) k(2)] by (simp_all add: row_ok_def)
  ultimately show ?thesis using that k(2) by blast
qed

lemma pk_inv_put:
  assumes "pk_inv K S s" "row_ok S k r" "twf t"
    "\<And>k' h. tfind t k' = Some h \<Longrightarrow> if k' = k then \<exists>mem. h = by_pubkey K mem r else tfind (pk_by_pubkey s) k' = Some h"
  shows "pk_inv K S (s\<lparr>pk_accts := tput k r (pk_accts s), pk_by_pubkey := t\<rparr>)"
proof -
  have "\<exists>r' mem. tfind (tput k r (pk_accts s)) k' = Some r' \<and> h = by_pubkey K mem r'" if "tfind t k' = Some h" for k' h
    using assms(4) [OF that] pk_invD(4) [OF assms(1), of k' h] by (cases "k' = k") (simp_all add: tfind_tput)
  moreover have "row_ok S k' r'" if "tfind (tput k r (pk_accts s)) k' = Some r'" for k' r'
    using that assms(2) pk_invD(3) [OF assms(1), of k' r'] by (simp add: tfind_tput split: if_splits)
  moreover have "twf (tput k r (pk_accts s))" by (rule twf_tput [OF pk_invD(1) [OF assms(1)]])
  moreover have "case pk_global s of None \<Rightarrow> True | Some g \<Rightarrow> a_symbol (g_miner_fee g) = FLON_SYMBOL"
    using assms(1) by (simp add: pk_inv_def)
  ultimately show ?thesis using assms(3) by (simp add: pk_inv_def)
qed

section \<open>Deposits\<close>

text \<open>What the rows of the keys with \<open>P\<close> hold of a token, what an action deposits for them, and the keys for which there were deposits.\<close>

definition held :: "(public_key \<Rightarrow> bool) \<Rightarrow> symbol \<Rightarrow> pk_state \<Rightarrow> int" where
  "held P y s = tsum (\<lambda>_ r. if P (pa_pubkey r) \<and> a_symbol (pa_quantity r) = y then a_amount (pa_quantity r) else 0) (pk_accts s)"

fun deposit_of :: "(public_key \<Rightarrow> bool) \<Rightarrow> symbol \<Rightarrow> ctx \<times> pk_action \<Rightarrow> int" where
  "deposit_of P y (x, Pk_ontransfer src dst q m) =
     (if dst = self x \<and> src \<noteq> self x \<and> a_symbol q = y \<and> (case str_to_pubkey m of Inr key \<Rightarrow> P key | Inl _ \<Rightarrow> False) then a_amount q else 0)"
| "deposit_of P y (x, _) = 0"

fun deposit_keys :: "ctx \<times> pk_action \<Rightarrow> public_key list" where
  "deposit_keys (x, Pk_ontransfer src dst q m) = (case str_to_pubkey m of Inr key \<Rightarrow> [key] | Inl _ \<Rightarrow> [])"
| "deposit_keys (x, _) = []"

definition deposited :: "(ctx \<times> pk_action) list \<Rightarrow> public_key list" where
  "deposited L = concat (map deposit_keys L)"

text \<open>Keys of \<open>S\<close> with a common hash agree on \<open>P\<close>; when this holds for every \<open>P\<close>, the hash has no collisions on \<open>S\<close>.\<close>

definition keeps_apart :: "pk_api \<Rightarrow> public_key set \<Rightarrow> (public_key \<Rightarrow> bool) \<Rightarrow> bool" where
  "keeps_apart K S P \<longleftrightarrow> (\<forall>k\<in>S. \<forall>k'\<in>S. \<forall>mem mem'. memory_hash K mem k = memory_hash K mem' k' \<longrightarrow> P k = P k')"

definition collision_free :: "pk_api \<Rightarrow> public_key set \<Rightarrow> bool" where
  "collision_free K S \<longleftrightarrow> (\<forall>k\<in>S. \<forall>k'\<in>S. \<forall>mem mem'. memory_hash K mem k = memory_hash K mem' k' \<longrightarrow> k = k')"

lemma recv_inv:
  assumes "cdt_laws C" "pk_inv K S s" "key \<in> S" "a_symbol q \<noteq> FLON_SYMBOL" "on_pubkey_recv_token C K mem x key q (g, s) = Inr (g', s')"
  shows "pk_inv K S s' \<and> pk_global s' = pk_global s \<and> g_miner_fee g' = g_miner_fee g"
    and "keeps_apart K S P \<Longrightarrow> held P y s' = held P y s + (if P key \<and> a_symbol q = y then a_amount q else 0)"
proof -
  have "(pk_inv K S s' \<and> pk_global s' = pk_global s \<and> g_miner_fee g' = g_miner_fee g)
     \<and> (keeps_apart K S P \<longrightarrow> held P y s' = held P y s + (if P key \<and> a_symbol q = y then a_amount q else 0))"
  proof (cases "idx_find (memory_hash K (km_key mem) key) s")
    case None
    let ?r = "\<lparr>pa_id = g_last_idx g + 1, pa_pubkey = key, pa_quantity = q, pa_last_recv_at = now x\<rparr>"
    have new: "tfind (pk_accts s) (g_last_idx g + 1) = None" "g' = g\<lparr>g_last_idx := g_last_idx g + 1\<rparr>"
        "s' = s\<lparr>pk_accts := tput (g_last_idx g + 1) ?r (pk_accts s),
                pk_by_pubkey := tput (g_last_idx g + 1) (by_pubkey K (km_row mem) ?r) (pk_by_pubkey s)\<rparr>"
      using assms(5) None by (auto simp: on_pubkey_recv_token_def Let_def)
    have "pk_inv K S s'" unfolding new(3)
      by (rule pk_inv_put [OF assms(2)]) (use assms(3,4) pk_invD(2) [OF assms(2)] in \<open>auto simp: row_ok_def twf_tput tfind_tput\<close>)
    then show ?thesis using new pk_invD(1) [OF assms(2)] by (simp add: held_def tsum_tput_new)
  next
    case (Some r)
    then obtain mem' where r: "tfind (pk_accts s) (pa_id r) = Some r" "row_ok S (pa_id r) r" "memory_hash K (km_key mem) key = by_pubkey K mem' r"
      by (rule idx_find_Some [OF assms(2)])
    from assms(1,5) Some have new: "s' = s\<lparr>pk_accts := tput (pa_id r) (r\<lparr>pa_quantity := mk_asset (a_amount (pa_quantity r) + a_amount q)
           (a_symbol (pa_quantity r)), pa_last_recv_at := now x\<rparr>) (pk_accts s)\<rparr>" "g' = g" "a_symbol (pa_quantity r) = a_symbol q"
      by (auto simp: on_pubkey_recv_token_def cdt_inv)
    have "\<exists>mem. h = by_pubkey K mem r" if "tfind (pk_by_pubkey s) (pa_id r) = Some h" for h
      using pk_invD(4) [OF assms(2) that] r(1) by auto
    then have "pk_inv K S (s\<lparr>pk_accts := tput (pa_id r) (r\<lparr>pa_quantity := mk_asset (a_amount (pa_quantity r) + a_amount q)
           (a_symbol (pa_quantity r)), pa_last_recv_at := now x\<rparr>) (pk_accts s), pk_by_pubkey := pk_by_pubkey s\<rparr>)"
      by (intro pk_inv_put [OF assms(2)]) (use r(2) pk_invD(2) [OF assms(2)] in \<open>auto simp: row_ok_def by_pubkey_def\<close>)
    then have "pk_inv K S s'" unfolding new(1) by simp
    moreover have "P (pa_pubkey r) = P key" if "keeps_apart K S P"
      using that assms(3) r(2,3) unfolding keeps_apart_def by_pubkey_def row_ok_def by metis
    ultimately show ?thesis using new r(1) pk_invD(1) [OF assms(2)] by (simp add: held_def tsum_tput_old)
  qed
  then show "pk_inv K S s' \<and> pk_global s' = pk_global s \<and> g_miner_fee g' = g_miner_fee g"
    "keeps_apart K S P \<Longrightarrow> held P y s' = held P y s + (if P key \<and> a_symbol q = y then a_amount q else 0)" by blast+
qed

lemma not_paid:
  assumes "cdt_laws C" "pk_inv K S s" "idx_find h s = Some r"
  shows "asset_ge C (pa_quantity r) (g_miner_fee (load_global x s)) \<noteq> Inr ge"
proof -
  have "a_symbol (pa_quantity r) \<noteq> FLON_SYMBOL" by (rule idx_find_Some [OF assms(2,3)]) (simp add: row_ok_def)
  then show ?thesis using assms(1) pk_invD(5) [OF assms(2)] by (simp add: cdt_inv)
qed

lemma pk_exec_step:
  assumes "cdt_laws C" "pk_inv K S s" "set (deposit_keys (x, a)) \<subseteq> S" "pk_exec C K mem x a s = Inr (s', acts)"
  shows "pk_inv K S s' \<and> acts = []" and "keeps_apart K S P \<Longrightarrow> held P y s' = held P y s + deposit_of P y (x, a)"
proof -
  have put: "pk_inv K S (store_global g t) \<and> held P y (store_global g t) = held P y t"
    if "pk_inv K S t" "a_symbol (g_miner_fee g) = FLON_SYMBOL" for g t
    using that unfolding pk_inv_def by (auto simp: store_global_def held_def)
  note fee = pk_invD(5) [OF assms(2), of x]
  from assms(4) obtain g t where h: "pk_handle C K mem x a (load_global x s, s) = Inr ((g, t), acts)" and s': "s' = store_global g t"
    by (auto simp: pk_exec_def)
  have "(pk_inv K S s' \<and> acts = []) \<and> (keeps_apart K S P \<longrightarrow> held P y s' = held P y s + deposit_of P y (x, a))"
  proof (cases a)
    case (Pk_ontransfer src dst q m)
    show ?thesis
    proof (cases "dst = self x \<and> src \<noteq> self x")
      case True
      then obtain key where k: "str_to_pubkey m = Inr key" "on_pubkey_recv_token C K mem x key q (load_global x s, s) = Inr (g, t)"
          "a_symbol q \<noteq> FLON_SYMBOL" "acts = []"
        using h Pk_ontransfer by (auto simp: ontransfer_def)
      then have "key \<in> S" using assms(3) Pk_ontransfer by simp
      note recv_inv [OF assms(1,2) this k(3,2)]
      then show ?thesis using put [of t g] fee s' True Pk_ontransfer k(1,4) by auto
    next
      case False
      then show ?thesis using h Pk_ontransfer put [OF assms(2) fee] s' by (auto simp: ontransfer_def split: if_splits)
    qed
  next
    case (Pk_create miner key acct sig)
    then show ?thesis using h not_paid [OF assms(1,2)] by (auto simp: pk_newaccount_def split: option.splits)
  next
    case (Pk_move miner key t acct sig)
    then show ?thesis using h not_paid [OF assms(1,2)] by (auto simp: pk_move_def split: option.splits)
  next
    case (Pk_init admin)
    then show ?thesis using h put [OF assms(2), of "(load_global x s)\<lparr>g_admin := admin\<rparr>"] fee s' by (auto simp: pk_init_def)
  qed
  then show "pk_inv K S s' \<and> acts = []" "keeps_apart K S P \<Longrightarrow> held P y s' = held P y s + deposit_of P y (x, a)" by blast+
qed

lemma pk_run_inv:
  "pk_run C K L s \<Longrightarrow> cdt_laws C \<Longrightarrow> set (deposited L) \<subseteq> S \<Longrightarrow>
     pk_inv K S s \<and> (keeps_apart K S P \<longrightarrow> held P y s = sum_list (map (deposit_of P y) L))"
proof (induction rule: pk_run.induct)
  case pk_start
  then show ?case by (simp add: pk_inv_def pk_empty_def held_def twf_def)
next
  case (pk_step L s mem x a s' acts)
  then have "pk_inv K S s" "set (deposit_keys (x, a)) \<subseteq> S" by (simp_all add: deposited_def)
  from pk_exec_step [OF pk_step.prems(1) this pk_step.hyps(2)] show ?case
    using pk_step.IH pk_step.prems by (simp add: deposited_def)
qed

text \<open>C35: what is deposited with \<open>pubkey.token\<close> stays there, whatever memory holds beside the keys. After any history the rows together hold
  of every token the sum of all deposits of that token, and, unless SHA-256 has collisions between the keys that occur, the rows
  of a key hold the sum of the deposits for that key. No action that succeeds sends a transfer or creates an account: \<open>newaccount\<close> and
  \<open>move\<close> always abort, since deposits in FLON are refused and the fee is in FLON.\<close>
theorem deposits_stay:
  assumes "pk_run C K L s" "cdt_laws C"
  shows "held (\<lambda>_. True) y s = sum_list (map (deposit_of (\<lambda>_. True) y) L)
     \<and> (collision_free K (set (deposited L)) \<longrightarrow> held (\<lambda>k. k = key) y s = sum_list (map (deposit_of (\<lambda>k. k = key) y) L))
     \<and> (pk_exec C K mem x a s = Inr (s', acts) \<longrightarrow> acts = [])
     \<and> (\<exists>e. pk_exec C K mem x (Pk_create miner key' acct sig) s = Inl e)
     \<and> (\<exists>e. pk_exec C K mem x (Pk_move miner key' t acct sig) s = Inl e)"
proof -
  note run = pk_run_inv [OF assms]
  have inv: "pk_inv K UNIV s" using run by blast
  have none: "\<exists>e. pk_exec C K mem x b s = Inl e" if "\<And>s' acts. pk_exec C K mem x b s \<noteq> Inr (s', acts)" for b
    using that by (cases "pk_exec C K mem x b s") auto
  have "\<exists>e. pk_exec C K mem x (Pk_create miner key' acct sig) s = Inl e"
    using not_paid [OF assms(2) inv] by (intro none) (auto simp: pk_exec_def pk_newaccount_def split: option.splits)
  moreover have "\<exists>e. pk_exec C K mem x (Pk_move miner key' t acct sig) s = Inl e"
    using not_paid [OF assms(2) inv] by (intro none) (auto simp: pk_exec_def pk_move_def split: option.splits)
  moreover have "held (\<lambda>_. True) y s = sum_list (map (deposit_of (\<lambda>_. True) y) L)"
    using run [of UNIV "\<lambda>_. True" y] by (simp add: keeps_apart_def)
  moreover have "held (\<lambda>k. k = key) y s = sum_list (map (deposit_of (\<lambda>k. k = key) y) L)" if "collision_free K (set (deposited L))"
  proof -
    have "keeps_apart K (set (deposited L)) (\<lambda>k. k = key)" using that unfolding keeps_apart_def collision_free_def by metis
    then show ?thesis using run [of "set (deposited L)"] by blast
  qed
  moreover have "acts = []" if "pk_exec C K mem x a s = Inr (s', acts)" using pk_exec_step(1) [OF assms(2) inv _ that] by simp
  ultimately show ?thesis by blast
qed

text \<open>A key, and the library for it.\<close>

definition demo_memo :: string where
  "demo_memo = ''FU1111111111111111111111111111111111111''"

definition demo_key :: public_key where
  "demo_key = replicate 33 0"

definition demo_pk_api :: pk_api where
  "demo_pk_api = \<lparr>memory_hash = (\<lambda>mem k. k @ mem), sha256 = (\<lambda>_. []), assert_recover_key = (\<lambda>_ _ _. Inr ()), name_to_string = (\<lambda>_. []),
     uint64_to_string = (\<lambda>_. []), no_pubkey = [], no_signature = []\<rparr>"

definition demo_memory :: "bytes \<Rightarrow> key_memory" where
  "demo_memory mem = \<lparr>km_key = mem, km_row = mem\<rparr>"

definition demo_deposit :: "ctx \<times> pk_action" where
  "demo_deposit = ((demo_ctx bob [])\<lparr>first_receiver := FLON_BANK\<rparr>, Pk_ontransfer alice bob (mk_asset 5000 \<lparr>sym_code = 7, sym_precision = 0\<rparr>) demo_memo)"

lemma demo_memo_key: "str_to_pubkey demo_memo = Inr demo_key"
  by code_simp

definition demo_row :: "64 word \<Rightarrow> int \<Rightarrow> pubkey_account_t" where
  "demo_row k n = \<lparr>pa_id = k, pa_pubkey = demo_key, pa_quantity = mk_asset n \<lparr>sym_code = 7, sym_precision = 0\<rparr>,
     pa_last_recv_at = 1700000000000000\<rparr>"

definition demo_global :: "64 word \<Rightarrow> global_t" where
  "demo_global k = \<lparr>g_admin = bob, g_last_idx = k, g_miner_fee = mk_asset 1000 FLON_SYMBOL\<rparr>"

definition demo_held :: "int \<Rightarrow> pk_state" where
  "demo_held n = \<lparr>pk_global = Some (demo_global 1), pk_accts = [(1, demo_row 1 n)], pk_by_pubkey = [(1, demo_key)]\<rparr>"

definition demo_split :: pk_state where
  "demo_split = \<lparr>pk_global = Some (demo_global 2), pk_accts = [(1, demo_row 1 5000), (2, demo_row 2 5000)],
     pk_by_pubkey = [(1, demo_key), (2, demo_key @ [1])]\<rparr>"

lemma demo_deposits:
  "pk_exec cdt_ref demo_pk_api (demo_memory []) (fst demo_deposit) (snd demo_deposit) pk_empty = Inr (demo_held 5000, [])"
  "pk_exec cdt_ref demo_pk_api (demo_memory []) (fst demo_deposit) (snd demo_deposit) (demo_held 5000) = Inr (demo_held 10000, [])"
  "pk_exec cdt_ref demo_pk_api (demo_memory [1]) (fst demo_deposit) (snd demo_deposit) (demo_held 5000) = Inr (demo_split, [])"
  by (simp_all add: demo_deposit_def pk_exec_def ontransfer_def demo_memo_key on_pubkey_recv_token_def idx_find_def load_global_def
      pk_empty_def demo_held_def demo_split_def demo_row_def demo_global_def demo_memory_def store_global_def templace_def by_pubkey_def demo_pk_api_def
      global_t_init_def cdt_ref_def amount_ok_def max_amount_def FLON_SYMBOL_def)

theorem deposits_stay_witness:
  "pk_run cdt_ref demo_pk_api [demo_deposit, demo_deposit] (demo_held 10000)
     \<and> held (\<lambda>k. k = demo_key) \<lparr>sym_code = 7, sym_precision = 0\<rparr> (demo_held 10000)
        = sum_list (map (deposit_of (\<lambda>k. k = demo_key) \<lparr>sym_code = 7, sym_precision = 0\<rparr>) [demo_deposit, demo_deposit])
     \<and> (\<exists>e. pk_exec cdt_ref demo_pk_api (demo_memory []) (demo_ctx bob [carol]) (Pk_move carol demo_key 1700000000000000 alice [1]) (demo_held 10000) = Inl e)"
proof -
  have run: "pk_run cdt_ref demo_pk_api [demo_deposit, demo_deposit] (demo_held 10000)"
    using pk_step [OF pk_step [OF pk_start demo_deposits(1)] demo_deposits(2)] by simp
  have "collision_free demo_pk_api (set (deposited [demo_deposit, demo_deposit]))"
    by (simp add: collision_free_def deposited_def demo_deposit_def demo_memo_key)
  then show ?thesis using deposits_stay [OF run ref.laws] run by blast
qed

text \<open>With other bytes in memory a second deposit for the same key is not added to its row but gets a row of its own.\<close>

lemma deposit_split:
  "pk_run cdt_ref demo_pk_api [demo_deposit, demo_deposit] demo_split
     \<and> map (pa_pubkey \<circ> snd) (pk_accts demo_split) = [demo_key, demo_key]"
proof -
  have "pk_run cdt_ref demo_pk_api [demo_deposit, demo_deposit] demo_split"
    using pk_step [OF pk_step [OF pk_start demo_deposits(1)] demo_deposits(3)] by simp
  then show ?thesis by (simp add: demo_split_def demo_row_def)
qed

end
