(* ===== verification/Bios.thy ===== *)
theory Bios
  imports System_State
begin

text \<open>
  The contracts \<open>flon.bios\<close> and \<open>flon.boot\<close>, with which a chain starts. Most actions check an authority and
  call the chain; the calls are recorded as effects. \<open>setfinalizer\<close> validates a finalizer policy before it
  is proposed.
\<close>

section \<open>Data\<close>

definition max_finalizers :: nat where "max_finalizers = 64 * 1024"
definition max_finalizer_description_size :: nat where "max_finalizer_description_size = 256"

record bios_finalizer =
  bf_description :: string
  bf_weight :: "64 word"
  bf_public_key :: string
  bf_pop :: string

record finalizer_policy =
  fp_threshold :: "64 word"
  fp_finalizers :: "bios_finalizer list"

record abi_hash =
  ah_owner :: name
  ah_hash :: bytes

record bios_state =
  b_abi_hash :: "(name, abi_hash) table"

datatype bios_effect =
    Host effect
  | Set_blockchain_parameters blockchain_parameters

type_synonym bios_outcome = "(bios_state \<times> bios_effect list) res"

section \<open>Actions of flon.bios\<close>

definition bios_setabi :: "host \<Rightarrow> name \<Rightarrow> bytes \<Rightarrow> bios_state \<Rightarrow> bios_outcome" where
  "bios_setabi H account abi s =
     (case tfind (b_abi_hash s) account of
        None \<Rightarrow> rbind (templace DuplicateKey account \<lparr>ah_owner = account, ah_hash = sha256 H abi\<rparr> (b_abi_hash s)) (\<lambda>t.
                Inr (s\<lparr>b_abi_hash := t\<rparr>, []))
      | Some row \<Rightarrow> Inr (s\<lparr>b_abi_hash := tput account (row\<lparr>ah_hash := sha256 H abi\<rparr>) (b_abi_hash s)\<rparr>, []))"

text \<open>
  The set of keys seen so far hashes a key by its address, not by its bytes: \<open>addr i\<close> is the hash of
  the address the key has in round \<open>i\<close> of the loop, and a key is found again only under
  the same hash. The state of the loop is the round, the sum of the weights, the set and the
  authorities collected so far.
\<close>

type_synonym policy_loop = "nat \<times> 64 word \<times> (nat \<times> bytes) list \<times> finalizer_authority list"

definition check_finalizer :: "host \<Rightarrow> (nat \<Rightarrow> nat) \<Rightarrow> bios_finalizer \<Rightarrow> policy_loop \<Rightarrow> policy_loop res" where
  "check_finalizer H addr f = (\<lambda>(i, weight_sum, unique_finalizer_keys, fins).
     if \<not> length (bf_description f) \<le> max_finalizer_description_size
       then Inl (Check ''Finalizer description greater than max allowed size'')
     else if take 7 (bf_public_key f) \<noteq> ''PUB_BLS'' then Inl (Check ''public key shoud start with PUB_BLS'')
     else if take 7 (bf_pop f) \<noteq> ''SIG_BLS''
       then Inl (Check ''proof of possession signature should start with SIG_BLS'')
     else if \<not> bf_weight f \<le> - 1 - weight_sum then Inl (Check ''sum of weights causes uint64_t overflow'')
     else rbind (decode_bls_public_key H (bf_public_key f)) (\<lambda>pk.
       if (addr i, pk) \<in> set unique_finalizer_keys then Inl (Check ''duplicate public key'')
       else rbind (decode_bls_signature H (bf_pop f)) (\<lambda>g2.
       if \<not> bls_pop_verify H pk g2 then Inl (Check ''proof of possession failed'')
       else Inr (Suc i, weight_sum + bf_weight f, (addr i, pk) # unique_finalizer_keys,
                 fins @ [\<lparr>fa_description = bf_description f, fa_weight = bf_weight f, fa_public_key = pk\<rparr>]))))"

definition bios_setfinalizer :: "host \<Rightarrow> (nat \<Rightarrow> nat) \<Rightarrow> ctx \<Rightarrow> finalizer_policy \<Rightarrow> bios_state \<Rightarrow> bios_outcome" where
  "bios_setfinalizer H addr x policy s =
     (if \<not> has_auth x (self x) then Inl (MissingAuth (self x))
      else if \<not> length (fp_finalizers policy) \<le> max_finalizers
        then Inl (Check ''number of finalizers exceeds the maximum allowed'')
      else if \<not> 0 < length (fp_finalizers policy) then Inl (Check ''require at least one finalizer'')
      else rbind (rfold (check_finalizer H addr) (fp_finalizers policy) (0, 0, [], [])) (\<lambda>(_, weight_sum, _, fins).
        if \<not> (fp_threshold policy \<le> weight_sum \<and> weight_sum div 2 < fp_threshold policy)
          then Inl (Check (''Finalizer policy threshold must be greater than half of the sum of the weights, '' @
                           ''and less than or equal to the sum of the weights''))
        else Inr (s, [Host (Set_finalizers (fp_threshold policy) fins)])))"

definition bios_onerror :: "bios_state \<Rightarrow> bios_outcome" where
  "bios_onerror s = Inl (Check ''the onerror action cannot be called directly'')"

definition bios_setpriv :: "ctx \<Rightarrow> name \<Rightarrow> 8 word \<Rightarrow> bios_state \<Rightarrow> bios_outcome" where
  "bios_setpriv x account is_priv s =
     (if \<not> has_auth x (self x) then Inl (MissingAuth (self x)) else Inr (s, [Host (Set_privileged account is_priv)]))"

definition bios_setalimits :: "ctx \<Rightarrow> name \<Rightarrow> 64 word \<Rightarrow> bool \<Rightarrow> bios_state \<Rightarrow> bios_outcome" where
  "bios_setalimits x account gas is_unlimited s =
     (if \<not> has_auth x (self x) then Inl (MissingAuth (self x))
      else Inr (s, [Host (Set_resource_limits account gas is_unlimited)]))"

definition bios_setprods :: "ctx \<Rightarrow> (name \<times> block_signing_authority) list \<Rightarrow> bios_state \<Rightarrow> bios_outcome" where
  "bios_setprods x schedule s =
     (if \<not> has_auth x (self x) then Inl (MissingAuth (self x)) else Inr (s, [Host (Propose_producers schedule)]))"

definition bios_setparams :: "ctx \<Rightarrow> blockchain_parameters \<Rightarrow> bios_state \<Rightarrow> bios_outcome" where
  "bios_setparams x params s =
     (if \<not> has_auth x (self x) then Inl (MissingAuth (self x)) else Inr (s, [Set_blockchain_parameters params]))"

definition bios_reqauth :: "ctx \<Rightarrow> name \<Rightarrow> bios_state \<Rightarrow> bios_outcome" where
  "bios_reqauth x n s = (if \<not> has_auth x n then Inl (MissingAuth n) else Inr (s, []))"

definition bios_activate :: "ctx \<Rightarrow> bytes \<Rightarrow> bios_state \<Rightarrow> bios_outcome" where
  "bios_activate x feature_digest s =
     (if \<not> has_auth x (self x) then Inl (MissingAuth (self x)) else Inr (s, [Host (Preactivate_feature feature_digest)]))"

text \<open>\<open>active\<close> tells which protocol features the chain has activated.\<close>

definition bios_reqactivated :: "(bytes \<Rightarrow> bool) \<Rightarrow> bytes \<Rightarrow> bios_state \<Rightarrow> bios_outcome" where
  "bios_reqactivated active feature_digest s =
     (if \<not> active feature_digest then Inl (Check ''protocol feature is not activated'') else Inr (s, []))"

text \<open>The native actions have empty bodies in the contract.\<close>

definition bios_native :: "bios_state \<Rightarrow> bios_outcome" where
  "bios_native s = Inr (s, [])"

section \<open>Actions of flon.boot\<close>

text \<open>The contract has no table.\<close>

definition boot_onerror :: "effect list res" where
  "boot_onerror = Inl (Check ''the onerror action cannot be called directly'')"

definition boot_activate :: "ctx \<Rightarrow> bytes \<Rightarrow> effect list res" where
  "boot_activate x feature_digest =
     (if \<not> has_auth x (self x) then Inl (MissingAuth (self x)) else Inr [Preactivate_feature feature_digest])"

definition boot_reqactivated :: "(bytes \<Rightarrow> bool) \<Rightarrow> bytes \<Rightarrow> effect list res" where
  "boot_reqactivated active feature_digest =
     (if \<not> active feature_digest then Inl (Check ''protocol feature is not activated'') else Inr [])"

definition boot_native :: "effect list res" where
  "boot_native = Inr []"

section \<open>Dispatch\<close>

datatype bios_action =
    Bios_setabi name bytes
  | Bios_setfinalizer finalizer_policy
  | Bios_onerror
  | Bios_setpriv name "8 word"
  | Bios_setalimits name "64 word" bool
  | Bios_setprods "(name \<times> block_signing_authority) list"
  | Bios_setparams blockchain_parameters
  | Bios_reqauth name
  | Bios_activate bytes
  | Bios_reqactivated bytes
  | Bios_native

fun bios_exec :: "host \<Rightarrow> (nat \<Rightarrow> nat) \<Rightarrow> (bytes \<Rightarrow> bool) \<Rightarrow> ctx \<Rightarrow> bios_action \<Rightarrow> bios_state \<Rightarrow> bios_outcome" where
  "bios_exec H addr active x (Bios_setabi n abi) s = bios_setabi H n abi s"
| "bios_exec H addr active x (Bios_setfinalizer p) s = bios_setfinalizer H addr x p s"
| "bios_exec H addr active x Bios_onerror s = bios_onerror s"
| "bios_exec H addr active x (Bios_setpriv n b) s = bios_setpriv x n b s"
| "bios_exec H addr active x (Bios_setalimits n g u) s = bios_setalimits x n g u s"
| "bios_exec H addr active x (Bios_setprods ps) s = bios_setprods x ps s"
| "bios_exec H addr active x (Bios_setparams p) s = bios_setparams x p s"
| "bios_exec H addr active x (Bios_reqauth n) s = bios_reqauth x n s"
| "bios_exec H addr active x (Bios_activate d) s = bios_activate x d s"
| "bios_exec H addr active x (Bios_reqactivated d) s = bios_reqactivated active d s"
| "bios_exec H addr active x Bios_native s = bios_native s"

end
