(* ===== verification/Bios_Props.thy ===== *)
theory Bios_Props
  imports Bios
begin

text \<open>
  Which finalizer policies \<open>flon.bios\<close> proposes, exactly.
\<close>

definition finalizer_key :: "host \<Rightarrow> bios_finalizer \<Rightarrow> bytes" where
  "finalizer_key H f = (case decode_bls_public_key H (bf_public_key f) of Inr pk \<Rightarrow> pk | Inl _ \<Rightarrow> [])"

text \<open>A finalizer that is described in at most 256 bytes and proves the possession of its key.\<close>

definition finalizer_ok :: "host \<Rightarrow> bios_finalizer \<Rightarrow> bool" where
  "finalizer_ok H f \<longleftrightarrow> length (bf_description f) \<le> 256 \<and> take 7 (bf_public_key f) = ''PUB_BLS'' \<and> take 7 (bf_pop f) = ''SIG_BLS''
     \<and> (\<exists>pk g2. decode_bls_public_key H (bf_public_key f) = Inr pk \<and> decode_bls_signature H (bf_pop f) = Inr g2 \<and> bls_pop_verify H pk g2)"

definition proposed_authority :: "host \<Rightarrow> bios_finalizer \<Rightarrow> finalizer_authority" where
  "proposed_authority H f = \<lparr>fa_description = bf_description f, fa_weight = bf_weight f, fa_public_key = finalizer_key H f\<rparr>"

definition total_weight :: "bios_finalizer list \<Rightarrow> nat" where
  "total_weight fs = sum_list (map (\<lambda>f. unat (bf_weight f)) fs)"

text \<open>The keys with the hashes under which they are looked up.\<close>

definition tagged :: "host \<Rightarrow> (nat \<Rightarrow> nat) \<Rightarrow> nat \<Rightarrow> bios_finalizer list \<Rightarrow> (nat \<times> bytes) list" where
  "tagged H addr i fs = zip (map addr [i..<i + length fs]) (map (finalizer_key H) fs)"

lemma tagged_simps [simp]: "tagged H addr i [] = []" "tagged H addr i (f # fs) = (addr i, finalizer_key H f) # tagged H addr (Suc i) fs"
  by (simp_all add: tagged_def upt_rec)

lemma check_finalizer_iff:
  "check_finalizer H addr f (i, w, seen, fins) = Inr r \<longleftrightarrow>
     finalizer_ok H f \<and> unat w + unat (bf_weight f) < 2 ^ 64 \<and> (addr i, finalizer_key H f) \<notin> set seen
     \<and> r = (Suc i, w + bf_weight f, (addr i, finalizer_key H f) # seen, fins @ [proposed_authority H f])"
proof -
  have "w \<le> - 1" "unat (- 1 :: 64 word) = 2 ^ 64 - 1" by (simp, simp add: unsigned_minus_1_eq_mask mask_eq_exp_minus_1)
  then have "unat (- 1 - w) = 2 ^ 64 - 1 - unat w" by (simp add: unat_sub)
  then have "bf_weight f \<le> - 1 - w \<longleftrightarrow> unat w + unat (bf_weight f) < 2 ^ 64"
    using unsigned_less [of w, where ?'a = nat] by (simp add: word_le_nat_alt) linarith
  then show ?thesis
    by (auto simp: check_finalizer_def finalizer_ok_def finalizer_key_def proposed_authority_def max_finalizer_description_size_def)
qed

lemma policy_loop:
  "rfold (check_finalizer H addr) fs (i, w, seen, fins) = Inr r \<longleftrightarrow>
     list_all (finalizer_ok H) fs \<and> unat w + total_weight fs < 2 ^ 64
     \<and> distinct (tagged H addr i fs) \<and> set (tagged H addr i fs) \<inter> set seen = {}
     \<and> r = (i + length fs, w + word_of_nat (total_weight fs), rev (tagged H addr i fs) @ seen, fins @ map (proposed_authority H) fs)"
proof (induction fs arbitrary: i w seen fins)
  case (Cons f fs)
  show ?case
  proof (cases "unat w + unat (bf_weight f) < 2 ^ 64")
    case True
    then have "unat (w + bf_weight f) = unat w + unat (bf_weight f)" by (simp add: unat_word_ariths)
    then show ?thesis
      using Cons.IH [of "Suc i" "w + bf_weight f" "(addr i, finalizer_key H f) # seen" "fins @ [proposed_authority H f]"] True
      by (auto simp: check_finalizer_iff total_weight_def add.assoc)
  next
    case False
    then show ?thesis by (simp add: check_finalizer_iff total_weight_def)
  qed
qed (use unsigned_less [where ?'a = nat and ?'b = 64] in \<open>auto simp: total_weight_def\<close>)

text \<open>Distinct keys are told apart at any addresses; all repeated keys are found when the addresses are the same.\<close>

lemma tagged_distinct: "distinct (map (finalizer_key H) fs) \<Longrightarrow> distinct (tagged H addr i fs)"
  by (simp add: tagged_def distinct_zipI2)

lemma tagged_constant_set: "set (tagged H (\<lambda>_. c) i fs) = Pair c ` finalizer_key H ` set fs"
  by (induction fs arbitrary: i) auto

lemma tagged_constant: "distinct (tagged H (\<lambda>_. c) i fs) \<longleftrightarrow> distinct (map (finalizer_key H) fs)"
  by (induction fs arbitrary: i) (auto simp: tagged_constant_set)

text \<open>C36: which finalizer policies \<open>flon.bios\<close> proposes. Wherever the keys lie in memory, a policy is
  proposed, as it was given, if and only if the contract authorizes it, it has between 1 and 65536
  finalizers that all prove the possession of their keys, no two of them have the same key with the same hash of its address, the weights sum up without
  overflow, and the threshold is more than half of the sum and at most the sum. So distinct keys are never refused, but
  a key that is listed twice is refused only when its address has the same hash in both rounds.\<close>
theorem setfinalizer_iff:
  "bios_setfinalizer H addr x (\<lparr>fp_threshold = t, fp_finalizers = fs\<rparr>) s = Inr (s', es) \<longleftrightarrow>
     has_auth x (self x) \<and> 0 < length fs \<and> length fs \<le> 65536
     \<and> list_all (finalizer_ok H) fs \<and> distinct (zip (map addr [0..<length fs]) (map (finalizer_key H) fs))
     \<and> total_weight fs < 2 ^ 64 \<and> total_weight fs div 2 < unat t \<and> unat t \<le> total_weight fs
     \<and> s' = s \<and> es = [Host (Set_finalizers t (map (proposed_authority H) fs))]"
proof -
  have w: "t \<le> word_of_nat (total_weight fs) \<and> word_of_nat (total_weight fs) div 2 < t \<longleftrightarrow>
       total_weight fs div 2 < unat t \<and> unat t \<le> total_weight fs" if "total_weight fs < 2 ^ 64"
    using that by (auto simp: word_le_nat_alt word_less_nat_alt unat_of_nat unat_div take_bit_nat_eq_self)
  show ?thesis
    by (cases "total_weight fs < 2 ^ 64")
      (auto simp: bios_setfinalizer_def policy_loop max_finalizers_def tagged_def w)
qed

text \<open>With another address in another round a key is accepted twice.\<close>

lemma duplicate_accepted:
  "\<exists>es. bios_setfinalizer demo_host (\<lambda>i. i) (demo_ctx alice [alice]) \<lparr>fp_threshold = 2, fp_finalizers =
     replicate 2 \<lparr>bf_description = ''f'', bf_weight = 1, bf_public_key = ''PUB_BLS_1'', bf_pop = ''SIG_BLS_1''\<rparr>\<rparr> s = Inr (s, es)"
proof -
  have "(1 :: 64 word) \<le> - 2" by code_simp
  then show ?thesis
    by (simp add: bios_setfinalizer_def check_finalizer_def max_finalizers_def max_finalizer_description_size_def demo_host_def numeral_2_eq_2)
qed

end
