(* ===== verification/Custody_Props.thy ===== *)
theory Custody_Props
  imports Chain_Props
begin

text \<open>
  Whose tokens a transaction can take. Every transfer the contracts order is paid by an account that signed
  the transaction or by one of the three custody accounts; nobody else's balance sinks, whatever inline
  actions and notifications follow.
\<close>

section \<open>Who pays\<close>

definition custody :: "name set" where
  "custody = {vote_account, names_account, reward_account}"

fun payer_ok :: "ctx \<Rightarrow> inline_action \<Rightarrow> bool" where
  "payer_ok x (Token_transfer _ f _ _ _) \<longleftrightarrow> has_auth x f \<or> f \<in> custody"
| "payer_ok x _ \<longleftrightarrow> True"

definition paid :: "ctx \<Rightarrow> effect list \<Rightarrow> bool" where
  "paid x es \<longleftrightarrow> (\<forall>a. Send a \<in> set es \<longrightarrow> payer_ok x a)"

lemma paid_simps [simp]:
  "paid x []" "paid x (Send a # es) \<longleftrightarrow> payer_ok x a \<and> paid x es" "paid x (es @ fs) \<longleftrightarrow> paid x es \<and> paid x fs"
  "paid x (Propose_producers ps # es) = paid x es" "paid x (Set_finalizers w fins # es) = paid x es"
  "paid x (Set_resource_limits n g u # es) = paid x es" "paid x (Deferred_voterefund n d # es) = paid x es"
  "paid x (Set_privileged n b # es) = paid x es" "paid x (Preactivate_feature d' # es) = paid x es"
  "paid x (Set_parameters_packed d' # es) = paid x es" "paid x (Set_wasm_parameters_packed d' # es) = paid x es"
  by (auto simp: paid_def)

lemma custody_simps [simp]: "vote_account \<in> custody" "names_account \<in> custody" "reward_account \<in> custody"
  by (simp_all add: custody_def)

lemma stored_paid: "stored H r = Inr (s', es) \<Longrightarrow> (\<And>s1. r = Inr (s1, es) \<Longrightarrow> paid x es) \<Longrightarrow> paid x es"
  by (auto simp: stored_def)

lemma proposed_paid: "set_proposed_finalizers H fins s = (s', es) \<Longrightarrow> paid x es"
  by (auto simp: set_proposed_finalizers_def Let_def split: if_splits)

lemma elected_paid: "update_elected_producers H t s = (s', es) \<Longrightarrow> paid x es"
  unfolding update_elected_producers_def Let_def by (auto split: if_splits prod.splits intro: proposed_paid)

lemma onblock_paid:
  assumes "onblock C H x ts p b s = Inr (s', es)"
  shows "paid y es"
proof -
  have close: "paid y fs" if "close_auction C H x ts s0 = Inr (s1, fs)" for s0 s1 fs
    using that by (auto simp: close_auction_def channel_to_system_fees_def split: option.splits if_splits)
  obtain t where t: "add_to_blockinfo_table C b ts (s_block_info s) = Inr t" using assms by (auto simp: onblock_def)
  consider (idle) "es = []"
    | (elect) s1 s2 es2 where "update_elected_producers H ts s1 = (s2, es2)"
        "es = es2 \<or> (\<exists>fs. close_auction C H x ts s2 = Inr (s', fs) \<and> es = es2 @ fs)"
    using assms t unfolding onblock_def Let_def by (auto split: if_splits prod.splits)
  then show ?thesis using elected_paid close by cases auto
qed

lemma voting_paid:
  "register_producer C H x R n a url loc ratio s = Inr (s', es) \<Longrightarrow> paid x es"
  "Voting.voteproducer C H x po pn n ns s = Inr (s', es) \<Longrightarrow> paid x es"
  "Voting.addvote C H x n q s = Inr (s', es) \<Longrightarrow> paid x es"
  "Voting.subvote C H x n q s = Inr (s', es) \<Longrightarrow> paid x es"
  "Voting.voterefund x n s = Inr (s', es) \<Longrightarrow> paid x es"
  by (auto simp: register_producer_def Voting.voteproducer_def Voting.addvote_def Voting.subvote_def Voting.voterefund_def Let_def
      split: option.splits if_splits prod.splits)

lemma finalizers_paid:
  "regfinkey H x n k pop s = Inr (s', es) \<Longrightarrow> paid x es" "delfinkey H x n k s = Inr (s', es) \<Longrightarrow> paid x es"
  "switchtosvnn H x s = Inr (s', es) \<Longrightarrow> paid x es" "actfinkey H x n k s = Inr (s', es) \<Longrightarrow> paid x es"
  by (auto simp: regfinkey_def delfinkey_def switchtosvnn_def actfinkey_def Let_def get_next_finalizer_key_id_def
      split: option.splits if_splits prod.splits intro: proposed_paid)

lemma names_paid:
  "bidname C H x n m q s = Inr (s', es) \<Longrightarrow> paid x es" "bidrefund H x n m s = Inr (s', es) \<Longrightarrow> paid x es"
  "buygas C H x n n' q s = Inr (s', es) \<Longrightarrow> paid x es" "newaccount C x n m s = Inr (s', es) \<Longrightarrow> paid x es"
  "System_Admin.init C H x T v y s = Inr (s', es) \<Longrightarrow> paid x es"
  by (auto simp: bidname_def bidrefund_def buygas_def newaccount_def System_Admin.init_def Let_def
      split: option.splits if_splits prod.splits)

lemma admin_paid:
  "setparams H x p m s = Inr (s', es) \<Longrightarrow> paid x es" "setpriv x n b s = Inr (s', es) \<Longrightarrow> paid x es"
  "setalimits H x n g u s = Inr (s', es) \<Longrightarrow> paid x es" "activate x d s = Inr (s', es) \<Longrightarrow> paid x es"
  "logsystemfee x n q memo s = Inr (s', es) \<Longrightarrow> paid x es" "setibintervl x i s = Inr (s', es) \<Longrightarrow> paid x es"
  "wasmcfg x n s = Inr (s', es) \<Longrightarrow> paid x es" "limitauthchg x n al dis s = Inr (s', es) \<Longrightarrow> paid x es"
  "setabi H n abi s = Inr (s', es) \<Longrightarrow> paid x es" "cfgelection C H x e r q s = Inr (s', es) \<Longrightarrow> paid x es"
  "unregprod H x n s = Inr (s', es) \<Longrightarrow> paid x es" "rmvproducer H x n s = Inr (s', es) \<Longrightarrow> paid x es"
  "updateauth x n b' s = Inr (s', es) \<Longrightarrow> paid x es" "deleteauth x n b' s = Inr (s', es) \<Longrightarrow> paid x es"
  "linkauth x n b' s = Inr (s', es) \<Longrightarrow> paid x es" "unlinkauth x n b' s = Inr (s', es) \<Longrightarrow> paid x es"
  by (auto simp: admin_defs setabi_def cfgelection_def unregprod_def rmvproducer_def updateauth_def deleteauth_def linkauth_def
      unlinkauth_def Let_def split: if_splits prod.splits option.splits)

lemma sys_exec_paid:
  assumes run: "sys_exec C H x T R a s = Inr (s', es)"
  shows "paid x es"
proof (cases a)
  case (Sys_newaccount c n)
  with run show ?thesis using names_paid(4) by simp
next
  case (Sys_setabi n abi)
  with run show ?thesis using admin_paid(9) by simp
next
  case Sys_onerror
  with run show ?thesis by (simp add: onerror_def)
next
  case (Sys_updateauth n b)
  with run show ?thesis using admin_paid(13) by simp
next
  case (Sys_deleteauth n b)
  with run show ?thesis using admin_paid(14) by simp
next
  case (Sys_linkauth n b)
  with run show ?thesis using admin_paid(15) by simp
next
  case (Sys_unlinkauth n b)
  with run show ?thesis using admin_paid(16) by simp
next
  case (Sys_claimrewards n)
  with run show ?thesis by (simp add: stored_def Producer_Pay.claimrewards_def)
qed (use run in \<open>auto elim!: stored_paid intro: voting_paid names_paid admin_paid finalizers_paid onblock_paid
      simp: Voting.regproducer_def regproducer2_def buygasself_def\<close>)

section \<open>Who is debited\<close>

text \<open>\<open>spares n T T'\<close>: the balances of \<open>n\<close> do not sink.\<close>

definition spares :: "cdt \<Rightarrow> name \<Rightarrow> token_state \<Rightarrow> token_state \<Rightarrow> bool" where
  "spares C n T T' \<longleftrightarrow> token_wf C T' \<and> (\<forall>c. balance_of T n c \<le> balance_of T' n c)"

lemma spares_refl: "token_wf C T \<Longrightarrow> spares C n T T"
  by (simp add: spares_def)

lemma spares_trans: "spares C n T T1 \<Longrightarrow> spares C n T1 T2 \<Longrightarrow> spares C n T T2"
  unfolding spares_def by (meson order_trans)

lemma token_spares:
  assumes "cdt_laws C" "token_wf C T" "token_exec C x a T = Inr T'" "\<not> has_auth x n"
  shows "spares C n T T'"
  using token_exec_effect(1) [OF assms(1-3)] tok.debit_law [of C T x a T' n] assms unfolding spares_def by (meson not_le)

lemma transfer_spares:
  assumes C: "cdt_laws C" and T: "token_wf C (c_token ch)" and run: "run_transfer C x f t q m ch = Inr ch'" and n: "n \<noteq> f"
  shows "spares C n (c_token ch) (c_token ch')"
proof -
  obtain T' where ex: "token_exec C x (Transfer f t q m) (c_token ch) = Inr T'" and ch': "c_token ch' = T'"
    and g: "transfer_guard x f t q m (c_token ch)" by (rule run_transfer_split [OF C T run]) simp
  have "0 \<le> moved f t q n c" for c using n g by (auto simp: moved_def transfer_guard_def)
  then show ?thesis
    using tok.move_law [of C "c_token ch" x f t q m T' n] C T ex token_exec_effect(1) [OF C T ex] by (simp add: spares_def ch')
qed

lemma inline_spares:
  assumes C: "cdt_laws C" and T: "token_wf C (c_token ch)" and run: "run_inline C H x a ch = Inr ch'" and a: "payer_ok x a"
    and n: "\<not> has_auth x n" "n \<notin> custody"
  shows "spares C n (c_token ch) (c_token ch')"
proof (cases a)
  case (Token_transfer au f t q m)
  then show ?thesis using transfer_spares [OF C T, of _ f t q m ch' n] run a n by auto
next
  case (Token_open au n' y p)
  then obtain T' where ex: "token_exec C (on x token_account au) (Open n' y p) (c_token ch) = Inr T'" and ch': "ch' = ch\<lparr>c_token := T'\<rparr>"
    using run by auto
  show ?thesis using token_exec_effect(1) [OF C T ex] tok.open_law [of C "c_token ch"] C T ex by (simp add: spares_def ch')
qed (use run spares_refl [OF T] in \<open>auto simp: run_reward_def\<close>)

lemma inlines_spare:
  assumes C: "cdt_laws C" and n: "\<not> has_auth x n" "n \<notin> custody"
  shows "token_wf C (c_token ch) \<Longrightarrow> list_all (payer_ok x) as \<Longrightarrow> rfold (run_inline C H x) as ch = Inr ch' \<Longrightarrow>
    spares C n (c_token ch) (c_token ch')"
proof (induction as arbitrary: ch)
  case (Cons a as)
  then obtain ch1 where 1: "run_inline C H x a ch = Inr ch1" "rfold (run_inline C H x) as ch1 = Inr ch'" by auto
  have sp: "spares C n (c_token ch) (c_token ch1)" using inline_spares [OF C Cons.prems(1) 1(1) _ n] Cons.prems(2) by simp
  then show ?case using Cons.IH [OF _ _ 1(2)] Cons.prems(2) spares_trans [OF sp] by (simp add: spares_def)
qed (simp add: spares_refl)

lemma effects_inline: "\<exists>as. (\<forall>a. a \<in> set as \<longleftrightarrow> Send a \<in> set es) \<and> (\<forall>ch. rfold (run_effect C H x) es ch = rfold (run_inline C H x) as ch)"
proof (induction es)
  case (Cons e es)
  then obtain as where as: "\<forall>a. a \<in> set as \<longleftrightarrow> Send a \<in> set es" "\<forall>ch. rfold (run_effect C H x) es ch = rfold (run_inline C H x) as ch" by blast
  have eq: "rfold (run_effect C H x) es = rfold (run_inline C H x) as" using as(2) by blast
  show ?case
  proof (cases e)
    case (Send a)
    then show ?thesis using as(1) eq by (intro exI [of _ "a # as"]) auto
  qed (use as in \<open>intro exI [of _ as], auto\<close>)
qed (intro exI [of _ "[]"], simp)

lemma reward_outs_paid:
  assumes "reward_exec C (called (on x reward_account au) a) R = Inr (R', outs)"
  shows "list_all (payer_ok y) outs"
proof -
  have "list_all (payer_ok y) outs" if "Reward.claim_rewards C (on x reward_account au) n R = Inr (R', outs)" for n
    using that by (auto simp: Reward.claim_rewards_def split: option.splits if_splits)
  then show ?thesis using assms by (cases a) (auto simp: silent_def Reward.claimrewards_def claimfor_def)
qed

lemma only_signers_debited:
  assumes "cdt_laws C" "token_wf C (c_token ch)" "chain_exec C H x a ch = Inr ch'"
    "balance_of (c_token ch') n c < balance_of (c_token ch) n c"
  shows "has_auth x n \<or> n \<in> {vote_account, names_account, reward_account}"
proof (rule ccontr)
  assume "\<not> (has_auth x n \<or> n \<in> {vote_account, names_account, reward_account})"
  then have n: "\<not> has_auth x n" "n \<notin> custody" by (simp_all add: custody_def)
  have "spares C n (c_token ch) (c_token ch')"
  proof (cases a)
    case (Token_act b)
    show ?thesis
    proof (cases "\<exists>f t q m. b = Transfer f t q m")
      case True
      then obtain f t q m where b: "b = Transfer f t q m" by blast
      then have r: "run_transfer C (on x token_account (auths x)) f t q m ch = Inr ch'" using assms(3) Token_act by simp
      have "f \<noteq> n" by (rule run_transfer_split [OF assms(1,2) r]) (use n in \<open>auto simp: transfer_guard_def\<close>)
      then show ?thesis using transfer_spares [OF assms(1,2) r] by simp
    next
      case False
      then obtain T' where "token_exec C (on x token_account (auths x)) b (c_token ch) = Inr T'" "ch' = ch\<lparr>c_token := T'\<rparr>"
        using assms(3) Token_act by (cases b) auto
      then show ?thesis using token_spares [OF assms(1,2)] n by simp
    qed
  next
    case (Reward_act b)
    then obtain R outs where r: "reward_exec C (called (on x reward_account (auths x)) b) (c_reward ch) = Inr (R, outs)"
      and f: "rfold (run_inline C H x) outs (ch\<lparr>c_reward := R\<rparr>) = Inr ch'" using assms(3) by auto
    show ?thesis using inlines_spare [OF assms(1) n _ reward_outs_paid [OF r] f] assms(2) by simp
  next
    case (System_act b)
    then obtain s es where e: "sys_exec C H (on x system_account (auths x)) (c_token ch) (c_reward ch) b (c_system ch) = Inr (s, es)"
      and f: "rfold (run_effect C H x) es (ch\<lparr>c_system := s\<rparr>) = Inr ch'" using assms(3) by auto
    obtain as where as: "\<forall>a. a \<in> set as \<longleftrightarrow> Send a \<in> set es" "rfold (run_inline C H x) as (ch\<lparr>c_system := s\<rparr>) = Inr ch'"
      using effects_inline [of es C H x] f by auto
    have "payer_ok x a" if "payer_ok (on x system_account (auths x)) a" for a using that by (cases a) auto
    then have "list_all (payer_ok x) as" using as(1) sys_exec_paid [OF e] by (auto simp: list_all_iff paid_def)
    from inlines_spare [OF assms(1) n _ this as(2)] assms(2) show ?thesis by simp
  qed
  then show False using assms(4) unfolding spares_def by (meson not_le)
qed

end
