(* ===== verification/Block_Props.thy ===== *)
theory Block_Props
  imports Custody_Props Economy_Props
begin

text \<open>
  The blocks. The action of a new block fails only when the halving of the rewards has run
  out of bits; until then recording the block, crediting its producer, the election and the closing of an
  auction with its transfer all go through.
\<close>

section \<open>The handler\<close>

definition trapped :: "cdt \<Rightarrow> host \<Rightarrow> block_timestamp \<Rightarrow> name \<Rightarrow> sys_state \<Rightarrow> bool" where
  "trapped C H ts p s \<longleftrightarrow>
     g_election_activated_time (gs H s) \<noteq> 0 \<and> g_election_activated_time (gs H s) \<le> slot_time C ts
   \<and> tfind (s_producers s) p \<noteq> None
   \<and> g_reward_started_time (gs H s) \<noteq> 0 \<and> g_reward_started_time (gs H s) + 64 * reward_halving_period_seconds * 1000000 \<le> slot_time C ts"

lemma cdiv_ge_iff:
  assumes "0 \<le> a" "0 < b"
  shows "k \<le> cdiv a b \<longleftrightarrow> k * b \<le> a"
  using assms over_div [of b a k] by (simp add: cdiv_nonneg) linarith

lemma credit_total:
  "(\<exists>s'. credit_producer H t p s = Inr s') \<longleftrightarrow>
     \<not> (tfind (s_producers s) p \<noteq> None \<and> g_reward_started_time (gs H s) \<noteq> 0
        \<and> g_reward_started_time (gs H s) + 64 * reward_halving_period_seconds * 1000000 \<le> t)"
proof (cases "tfind (s_producers s) p")
  case (Some r)
  let ?d = "t - g_reward_started_time (gs H s)" and ?n = "reward_halving_period_seconds"
  have n: "0 < ?n" by (simp add: reward_halving_period_seconds_def seconds_per_year_def)
  show ?thesis
  proof (cases "g_reward_started_time (gs H s) \<noteq> 0 \<and> g_reward_started_time (gs H s) \<le> t")
    case True
    then have d: "0 \<le> ?d" "0 \<le> cdiv ?d 1000000" by (simp_all add: cdiv_nonneg pos_imp_zdiv_nonneg_iff)
    define k where "k = nat (cdiv (cdiv ?d 1000000) ?n)"
    have k: "cdiv (cdiv ?d 1000000) ?n = int k" using d n by (simp add: k_def cdiv_nonneg pos_imp_zdiv_nonneg_iff)
    have "64 \<le> int k \<longleftrightarrow> 64 * ?n * 1000000 \<le> ?d" unfolding k [symmetric] using d n by (simp add: cdiv_ge_iff)
    then have "power 2 (int k) = 0 \<longleftrightarrow> g_reward_started_time (gs H s) + 64 * ?n * 1000000 \<le> t" using power_two [of k] by auto
    then show ?thesis using True Some k by (auto simp: credit_producer_def Let_def block_reward_def)
  next
    case False
    moreover have "0 \<le> 64 * ?n * 1000000" using n by simp
    ultimately show ?thesis using Some by (auto simp: credit_producer_def Let_def)
  qed
qed (simp add: credit_producer_def Let_def)

lemma close_total:
  assumes "cdt_laws C" "bids_ok C (a_symbol (stake H s)) s" "symbol_is_valid C (a_symbol (stake H s))"
  shows "\<exists>r. close_auction C H x ts s = Inr r"
proof (cases "highest_bid (s_name_bids s)")
  case (Some nb)
  obtain n b where nb: "nb = (n, b)" by (cases nb)
  note h = highest_bid_spec(1) [OF assms(2) Some [unfolded nb]]
  have "asset_make C (nb_high_bid b) (a_symbol (stake H s)) = Inr (mk_asset (nb_high_bid b) (a_symbol (stake H s)))"
    using assms(1,3) bids_ok_bid [OF assms(2), of n b] h by (auto simp: cdt_inv amount_ok_def)
  then show ?thesis using assms(3) by (auto simp: close_auction_def Some nb core_symbol_def)
qed (simp add: close_auction_def)

lemma onblock_total:
  assumes C: "cdt_laws C" and I: "sys_inv C H s" and v: "symbol_is_valid C (a_symbol (stake H s))" and x: "has_auth x (self x)"
    and h: "tfind (s_block_info s) (ucast (block_height_from_id b + 1)) = None"
  shows "(\<exists>r. onblock C H x ts p b s = Inr r) \<longleftrightarrow> \<not> trapped C H ts p s"
proof -
  have "\<exists>t. add_to_blockinfo_table C b ts (s_block_info s) = Inr t"
    using h by (simp add: add_to_blockinfo_table_def Let_def templace_def rolling_window_size_def)
  then obtain t where t: "add_to_blockinfo_table C b ts (s_block_info s) = Inr t" by blast
  let ?s0 = "s\<lparr>s_block_info := t\<rparr>"
  have b0: "same_books H s ?s0" by (simp add: same_books_def)
  have I0: "sys_inv C H ?s0" and v0: "stake H ?s0 = stake H s" using I same_books_keep(1) [OF b0] by simp_all
  show ?thesis
  proof (cases "g_election_activated_time (gs H s) = 0 \<or> slot_time C ts < g_election_activated_time (gs H s)")
    case True
    then show ?thesis using x t by (auto simp: onblock_def Let_def trapped_def)
  next
    case False
    define rest where "rest = (\<lambda>s1. if 120 < ts - g_last_producer_schedule_update (gs H s1) then
          (let (s, es) = update_elected_producers H ts s1 in
           if blocks_per_day < ts - g_last_name_close (gs H s) then
             rbind (close_auction C H x ts s) (\<lambda>(s, es'). Inr (s, es @ es'))
           else Inr (s, es))
        else Inr (s1, []))"
    have on: "onblock C H x ts p b s = rbind (credit_producer H (slot_time C ts) p ?s0) rest"
      using False x t by (simp add: onblock_def rest_def Let_def [of ?s0])
    have step: "\<exists>r. rest s1 = Inr r" if c: "credit_producer H (slot_time C ts) p ?s0 = Inr s1" for s1
    proof -
      obtain s2 es2 where u: "update_elected_producers H ts s1 = (s2, es2)" by (cases "update_elected_producers H ts s1")
      note k = credit_ok [OF I0 c]
      have sb: "same_books H s1 s2" using elected_untouched [OF u] by (simp add: untouched_def)
      have "sys_inv C H s2" "stake H s2 = stake H s" using same_books_keep(1) [OF sb] k(1,4) sb v0 by (simp_all add: same_books_def)
      then obtain r where "close_auction C H x ts s2 = Inr r" using close_total [OF C, of H s2 x ts] v by (auto simp: sys_inv_def)
      then show ?thesis by (cases r) (simp add: u rest_def)
    qed
    have "(\<exists>r. onblock C H x ts p b s = Inr r) \<longleftrightarrow> (\<exists>s1. credit_producer H (slot_time C ts) p ?s0 = Inr s1)"
      using step unfolding on by auto
    then show ?thesis unfolding credit_total using False by (auto simp: trapped_def)
  qed
qed

section \<open>The transaction\<close>

lemma rbind_rfold_Nil [simp]: "rbind m (rfold f []) = m"
  by (cases m) simp_all

lemma silent_effects: "(\<And>a. Send a \<notin> set es) \<Longrightarrow> rfold (run_effect C H x) es ch = Inr ch"
proof (induction es)
  case (Cons e es)
  then have "run_effect C H x e ch = Inr ch" by (cases e) auto
  then show ?case using Cons by simp
qed simp

text \<open>The inline actions of a block: none, or the fee of a closed auction.\<close>

lemma onblock_effects:
  assumes C: "cdt_laws C" and I: "sys_inv C H s" and run: "onblock C H x ts p b s = Inr (s', es)"
  obtains ps where "\<And>a. Send a \<notin> set ps" "es = ps"
  | ps n where "\<And>a. Send a \<notin> set ps" "0 < n" "es = ps @ [channel_to_system_fees H names_account (mk_asset n (a_symbol (stake H s))),
      Send (System_logsystemfee [(self x, active_permission)] names_account (mk_asset n (a_symbol (stake H s))) ''buy name'')]"
proof -
  obtain t where t: "add_to_blockinfo_table C b ts (s_block_info s) = Inr t" using run by (auto simp: onblock_def)
  let ?s0 = "s\<lparr>s_block_info := t\<rparr>"
  have b0: "same_books H s ?s0" by (simp add: same_books_def)
  have I0: "sys_inv C H ?s0" using I same_books_keep(1) [OF b0] by simp
  consider (idle) "es = []"
    | (elect) s1 s2 es2 where "credit_producer H (slot_time C ts) p ?s0 = Inr s1" "update_elected_producers H ts s1 = (s2, es2)"
        "es = es2 \<or> (\<exists>fs. close_auction C H x ts s2 = Inr (s', fs) \<and> es = es2 @ fs)"
    using run t unfolding onblock_def Let_def by (auto split: if_splits prod.splits)
  then show thesis
  proof cases
    case idle
    then show ?thesis using that(1) [of "[]"] by simp
  next
    case (elect s1 s2 es2)
    have q: "Send a \<notin> set es2" for a
      using elect(2) by (auto simp: update_elected_producers_def set_proposed_finalizers_def Let_def split: if_splits prod.splits)
    note k = credit_ok [OF I0 elect(1)]
    have sb: "same_books H s1 s2" using elected_untouched [OF elect(2)] by (simp add: untouched_def)
    have I2: "sys_inv C H s2" "stake H s2 = stake H s" using same_books_keep(1) [OF sb] k(1,4) sb by (simp_all add: same_books_def)
    have B: "bids_ok C (a_symbol (stake H s2)) s2" using I2(1) by (simp add: sys_inv_def)
    from elect(3) show ?thesis
    proof (elim disjE exE conjE)
      fix fs
      assume "close_auction C H x ts s2 = Inr (s', fs)" and es: "es = es2 @ fs"
      from close_auction_cases [OF C B this(1)] show ?thesis
        using that(1) [OF q] that(2) [OF q] es I2(2) by auto
    qed (use that(1) [OF q] in simp)
  qed
qed

lemma silent_flow: "(\<And>a. Send a \<notin> set es) \<Longrightarrow> flow c n es = 0"
proof (induction es)
  case (Cons e es)
  then show ?case by (cases e) (auto simp: flow_def)
qed (simp add: flow_def)

text \<open>C9: the chain does not stop. In a reachable state the action of a new block goes through, with the election, the closing of an
  auction and its transfer, in every case but one: after 64 halvings the reward of a registered
  producer is divided by zero. The block is new, \<open>flon.fees\<close> exists and account names have at most 13 characters.\<close>
theorem blocks_go_through:
  assumes "cdt_laws C" "chain_reachable C H ch" "user_ctx x" "has_auth x system_account" "is_account x fees_account"
    "\<And>n. length (name_string H n) \<le> 13"
    "tfind (s_block_info (c_system ch)) (ucast (block_height_from_id b + 1)) = None"
  shows "(\<exists>ch'. chain_exec C H x (System_act (Sys_onblock ts p b)) ch = Inr ch') \<longleftrightarrow> \<not> trapped C H ts p (c_system ch)"
proof -
  let ?y = "on x system_account (auths x)" and ?S = "c_system ch" and ?z = "on x token_account [(names_account, active_permission)]"
  have I: "chain_inv C H ch" by (rule chain_reachable_inv [OF assms(1,2)])
  then have P: "parties_ok C H ch" and SI: "sys_inv C H ?S" and B: "held_names ?S \<le> core_balance H ch names_account"
    by (simp_all add: chain_inv_def parties_ok_def backed_def)
  have tot: "(\<exists>r. onblock C H ?y ts p b ?S = Inr r) \<longleftrightarrow> \<not> trapped C H ts p ?S"
    by (rule onblock_total [OF assms(1) SI]) (use parties_valid [OF P] assms(4,7) in auto)
  have "\<exists>ch'. chain_exec C H x (System_act (Sys_onblock ts p b)) ch = Inr ch'" if ob: "onblock C H ?y ts p b ?S = Inr (s0, es)" for s0 es
  proof -
    define s where "s = s0\<lparr>sg := Some (gs H s0)\<rparr>"
    have run: "sys_exec C H ?y (c_token ch) (c_reward ch) (Sys_onblock ts p b) ?S = Inr (s, es)" using ob by (simp add: stored_def s_def)
    have st: "step_ok C H ?S s es" using sys_exec_ok [OF assms(1) SI user_custody [OF assms(3)] _ run] by simp
    note ps = parties_step [OF P st]
    have ce: "chain_exec C H x (System_act (Sys_onblock ts p b)) ch = rfold (run_effect C H x) es (ch\<lparr>c_system := s\<rparr>)"
      unfolding chain_exec.simps run by simp
    from assms(1) SI ob show ?thesis
    proof (cases rule: onblock_effects)
      case (1 qs)
      then show ?thesis unfolding ce using silent_effects [OF 1(1)] by simp
    next
      case (2 qs n)
      let ?q = "mk_asset n (core_of H ch)" and ?m = "''transfer from '' @ name_string H names_account @ '' to '' @ name_string H fees_account"
      have "flow (sym_code (core_of H ch)) names_account es = - n"
        using silent_flow [OF 2(1)] unfolding 2(3) by (simp add: flow_def channel_to_system_fees_def account_defs)
      moreover have "0 \<le> held_names s" using st held_names_nonneg by (auto simp: step_ok_def sys_inv_def)
      ultimately have le: "n \<le> core_balance H ch names_account" using st B ps(2) by (simp add: step_ok_def)
      have m: "length ?m \<le> 256" using assms(6) [of names_account] assms(6) [of fees_account] by simp
      obtain T' where tr: "run_transfer C ?z names_account fees_account ?q ?m (ch\<lparr>c_system := s\<rparr>) = Inr (ch\<lparr>c_system := s, c_token := T'\<rparr>)"
        using affordable_transfer [OF assms(1) ps(1), of ?z names_account fees_account ?q ?m] assms(5) 2(2) ps(2) le m
        by (auto simp: account_defs)
      have "rfold (run_effect C H x) es (ch\<lparr>c_system := s\<rparr>)
          = run_inline C H x (System_logsystemfee [(system_account, active_permission)] names_account ?q ''buy name'') (ch\<lparr>c_system := s, c_token := T'\<rparr>)"
        unfolding 2(3) rfold_append silent_effects [OF 2(1)] using tr by (simp add: channel_to_system_fees_def)
      then show ?thesis unfolding ce by (simp add: stored_def logsystemfee_def)
    qed
  qed
  moreover have "\<exists>r. onblock C H ?y ts p b ?S = Inr r" if "\<exists>ch'. chain_exec C H x (System_act (Sys_onblock ts p b)) ch = Inr ch'"
    using that by (auto simp: stored_def)
  ultimately show ?thesis using tot by (metis prod.exhaust)
qed

definition demo_block :: chain_action where
  "demo_block = System_act (Sys_onblock 1506630800 bob (replicate 32 0))"

theorem blocks_go_through_witness:
  "\<exists>ch'. chain_exec cdt_ref demo_host (demo_at 200 [system_account]) (System_act (Sys_onblock 1506630800 bob (replicate 32 0))) demo_chain = Inr ch'"
proof -
  let ?x = "demo_at 200 [system_account]"
  have x: "user_ctx ?x" "has_auth ?x system_account" "is_account ?x fees_account" by code_simp+
  have n: "length (name_string demo_host n) \<le> 13" for n by (simp add: demo_host_def)
  have b: "tfind (s_block_info (c_system demo_chain)) (ucast (block_height_from_id (replicate 32 0) + 1)) = None" by code_simp
  have "\<not> trapped cdt_ref demo_host 1506630800 bob (c_system demo_chain)" by code_simp
  then show ?thesis using blocks_go_through [OF ref.laws demo_chain_reachable x n b] by simp
qed

end
