(* ===== verification/Pay_Props.thy ===== *)
theory Pay_Props
  imports Block_Props System_Props
begin

text \<open>
  The pay of the producers. What blocks have earned is kept in the row of the producer and in two totals
  of the global state; only the action of a new block changes any of them.
\<close>

section \<open>What has accrued\<close>

definition unclaimed :: "(name, producer_info) table \<Rightarrow> name \<Rightarrow> int" where
  "unclaimed P n = (case tfind P n of None \<Rightarrow> 0 | Some p \<Rightarrow> a_amount (pi_unclaimed_rewards p))"

definition accrued :: "host \<Rightarrow> sys_state \<Rightarrow> int \<times> int \<times> (name \<Rightarrow> int)" where
  "accrued H s = (a_amount (g_total_produced_rewards (gs H s)), a_amount (g_total_unclaimed_rewards (gs H s)), unclaimed (s_producers s))"

lemma accruedI:
  "s_producers s' = s_producers s \<Longrightarrow> g_total_produced_rewards (gs H s') = g_total_produced_rewards (gs H s) \<Longrightarrow>
     g_total_unclaimed_rewards (gs H s') = g_total_unclaimed_rewards (gs H s) \<Longrightarrow> accrued H s' = accrued H s"
  by (simp add: accrued_def)

lemma unclaimed_tput: "unclaimed (tput n p P) = (unclaimed P)(n := a_amount (pi_unclaimed_rewards p))"
  by (auto simp: unclaimed_def tfind_tput)

lemma unclaimed_same: "tfind P n = Some p \<Longrightarrow> pi_unclaimed_rewards q = pi_unclaimed_rewards p \<Longrightarrow> unclaimed (tput n q P) = unclaimed P"
  by (auto simp: unclaimed_tput) (simp add: unclaimed_def fun_upd_idem)

lemma update_unclaimed: "update_producer_votes H ns d P = Inr P' \<Longrightarrow> unclaimed P' = unclaimed P"
  unfolding update_producer_votes_def
  by (rule rfold_invariant [where P = "\<lambda>Q. unclaimed Q = unclaimed P"])
    (auto simp: update_one_def Let_def unclaimed_same split: option.splits if_splits)

lemma stored_accrued: "stored H r = Inr (s', es) \<Longrightarrow> (\<And>s1. r = Inr (s1, es) \<Longrightarrow> accrued H s1 = accrued H s) \<Longrightarrow> accrued H s' = accrued H s"
  by (auto simp: stored_def accrued_def)

lemma vote_accrued:
  "Voting.unregprod H x n s = Inr (s', es) \<Longrightarrow> accrued H s' = accrued H s"
  "Voting.rmvproducer H x n s = Inr (s', es) \<Longrightarrow> accrued H s' = accrued H s"
  "Voting.voteproducer C H x po pn n ns s = Inr (s', es) \<Longrightarrow> accrued H s' = accrued H s"
  "Voting.addvote C H x n q s = Inr (s', es) \<Longrightarrow> accrued H s' = accrued H s"
  "Voting.subvote C H x n q s = Inr (s', es) \<Longrightarrow> accrued H s' = accrued H s"
  "Voting.voterefund x n s = Inr (s', es) \<Longrightarrow> accrued H s' = accrued H s"
  by (auto simp: Voting.unregprod_def Voting.rmvproducer_def Voting.voteproducer_def Voting.addvote_def deactivate_def unclaimed_same
      Voting.subvote_def Voting.voterefund_def Let_def accrued_def dest!: update_unclaimed split: option.splits if_splits prod.splits)

lemma register_accrued:
  assumes "cdt_laws C" "register_producer C H x R n a url loc ratio s = Inr (s', es)"
  shows "accrued H s' = accrued H s"
proof (cases "tfind (s_producers s) n")
  case None
  then show ?thesis using assms
    by (auto simp: register_producer_def Let_def accrued_def cdt_inv unclaimed_tput) (simp add: unclaimed_def fun_upd_idem)
next
  case (Some p)
  then show ?thesis using assms by (auto simp: register_producer_def Let_def accrued_def unclaimed_same)
qed

lemma proposed_accrued: "set_proposed_finalizers H fins s = (s', es) \<Longrightarrow> accrued H s' = accrued H s"
  by (auto simp: set_proposed_finalizers_def Let_def accrued_def split: if_splits)

lemma finalizer_accrued:
  "regfinkey H x n k pop s = Inr (s', es) \<Longrightarrow> accrued H s' = accrued H s"
  "delfinkey H x n k s = Inr (s', es) \<Longrightarrow> accrued H s' = accrued H s"
  "switchtosvnn H x s = Inr (s', es) \<Longrightarrow> accrued H s' = accrued H s"
  by (auto simp: regfinkey_def delfinkey_def switchtosvnn_def get_next_finalizer_key_id_def Let_def accrued_def
      split: option.splits if_splits prod.splits dest!: proposed_accrued)

lemma actfinkey_accrued:
  assumes "actfinkey H x n k s = Inr (s', es)"
  shows "accrued H s' = accrued H s"
proof -
  have "\<exists>F. (s' = s\<lparr>s_finalizers := F\<rparr> \<and> es = []) \<or> (\<exists>l. set_proposed_finalizers H l (s\<lparr>s_finalizers := F\<rparr>) = (s', es))"
    using assms by (auto simp: actfinkey_def Let_def split: option.splits if_splits)
  then show ?thesis by (auto simp: accrued_def dest!: proposed_accrued)
qed

lemma name_accrued:
  "bidname C H x n m q s = Inr (s', es) \<Longrightarrow> accrued H s' = accrued H s" "bidrefund H x n m s = Inr (s', es) \<Longrightarrow> accrued H s' = accrued H s"
  "newaccount C x n m s = Inr (s', es) \<Longrightarrow> accrued H s' = accrued H s" "setabi H n abi s = Inr (s', es) \<Longrightarrow> accrued H s' = accrued H s"
  "buygas C H x n m q s = Inr (s', es) \<Longrightarrow> accrued H s' = accrued H s" "System_Admin.init C H x T v y s = Inr (s', es) \<Longrightarrow> accrued H s' = accrued H s"
  by (auto simp: bidname_def bidrefund_def newaccount_def setabi_def buygas_def System_Admin.init_def Let_def accrued_def
      split: option.splits if_splits prod.splits)

lemma admin_accrued:
  "setparams H x p m s = Inr (s', es) \<Longrightarrow> accrued H s' = accrued H s" "setpriv x n b s = Inr (s', es) \<Longrightarrow> accrued H s' = accrued H s"
  "setalimits H x n g u s = Inr (s', es) \<Longrightarrow> accrued H s' = accrued H s" "activate x d s = Inr (s', es) \<Longrightarrow> accrued H s' = accrued H s"
  "logsystemfee x n q memo s = Inr (s', es) \<Longrightarrow> accrued H s' = accrued H s" "setibintervl x i s = Inr (s', es) \<Longrightarrow> accrued H s' = accrued H s"
  "wasmcfg x n s = Inr (s', es) \<Longrightarrow> accrued H s' = accrued H s" "limitauthchg x n al dis s = Inr (s', es) \<Longrightarrow> accrued H s' = accrued H s"
  "cfgelection C H x e r q s = Inr (s', es) \<Longrightarrow> accrued H s' = accrued H s"
  by (auto simp: admin_defs cfgelection_def Let_def accrued_def split: if_splits prod.splits option.splits)

fun is_block :: "sys_action \<Rightarrow> bool" where
  "is_block (Sys_onblock _ _ _) = True"
| "is_block _ = False"

lemma sys_exec_accrued:
  assumes "cdt_laws C" "\<not> is_block a" "sys_exec C H x T R a s = Inr (s', es)"
  shows "accrued H s' = accrued H s"
proof (cases a)
  case (Sys_newaccount c n)
  with assms show ?thesis using name_accrued(3) by simp
next
  case (Sys_setabi n abi)
  with assms show ?thesis using name_accrued(4) by simp
next
  case Sys_onerror
  with assms show ?thesis by (simp add: onerror_def)
next
  case (Sys_claimrewards n)
  with assms show ?thesis by (simp add: stored_def Producer_Pay.claimrewards_def)
qed (use assms in \<open>auto elim!: stored_accrued intro: vote_accrued register_accrued [OF assms(1)] finalizer_accrued actfinkey_accrued
      name_accrued admin_accrued
      simp: Voting.regproducer_def regproducer2_def buygasself_def updateauth_def deleteauth_def linkauth_def unlinkauth_def\<close>)

section \<open>A block\<close>

lemma elected_accrued: "update_elected_producers H t s = (s', es) \<Longrightarrow> accrued H s' = accrued H s"
  unfolding update_elected_producers_def Let_def
  by (auto simp: accrued_def split: if_splits prod.splits dest!: proposed_accrued)

lemma credit_accrued:
  assumes "credit_producer H t p s = Inr s'"
  shows "accrued H s' = accrued H s \<or> (\<exists>q r. tfind (s_producers s) p = Some q \<and>
     accrued H s' = (i64 (fst (accrued H s) + r), i64 (fst (snd (accrued H s)) + r), (unclaimed (s_producers s))(p := i64 (unclaimed (s_producers s) p + r))))"
proof (cases "tfind (s_producers s) p")
  case (Some q)
  then have u: "unclaimed (s_producers s) p = a_amount (pi_unclaimed_rewards q)" by (simp add: unclaimed_def)
  show ?thesis
  proof (cases "g_reward_started_time (gs H s) \<noteq> 0 \<and> g_reward_started_time (gs H s) \<le> t")
    case True
    then show ?thesis using assms Some by (auto simp: credit_producer_def Let_def accrued_def unclaimed_tput u)
  next
    case False
    then have "s' = s" using assms Some by (auto simp: credit_producer_def Let_def split: if_splits)
    then show ?thesis by simp
  qed
qed (use assms in \<open>simp add: credit_producer_def Let_def\<close>)

lemma onblock_accrued:
  assumes "onblock C H x ts p b s = Inr (s', es)"
  shows "accrued H s' = accrued H s \<or> (\<exists>q r. tfind (s_producers s) p = Some q \<and>
     accrued H s' = (i64 (fst (accrued H s) + r), i64 (fst (snd (accrued H s)) + r), (unclaimed (s_producers s))(p := i64 (unclaimed (s_producers s) p + r))))"
proof -
  have close: "accrued H s1 = accrued H s0" if "close_auction C H x ts s0 = Inr (s1, fs)" for s0 s1 fs
    using that by (auto simp: close_auction_def accrued_def split: option.splits if_splits)
  obtain t where t: "add_to_blockinfo_table C b ts (s_block_info s) = Inr t" using assms by (auto simp: onblock_def)
  have b: "accrued H (s\<lparr>s_block_info := t\<rparr>) = accrued H s" by (simp add: accrued_def)
  consider (idle) "s' = s\<lparr>s_block_info := t\<rparr>"
    | (step) s1 where "credit_producer H (slot_time C ts) p (s\<lparr>s_block_info := t\<rparr>) = Inr s1"
        "s' = s1 \<or> (\<exists>s2 es2. update_elected_producers H ts s1 = (s2, es2)
           \<and> (s' = s2 \<or> (\<exists>fs. close_auction C H x ts s2 = Inr (s', fs))))"
    using assms t unfolding onblock_def Let_def by (auto split: if_splits prod.splits)
  then show ?thesis
  proof cases
    case (step s1)
    have "accrued H s' = accrued H s1" using step(2) elected_accrued close by metis
    then show ?thesis using credit_accrued [OF step(1)] b by simp
  qed (use b in simp)
qed

section \<open>The books\<close>

definition pay_ok :: "host \<Rightarrow> sys_state \<Rightarrow> bool" where
  "pay_ok H s \<longleftrightarrow> fst (snd (accrued H s)) = fst (accrued H s)
     \<and> fst (accrued H s) = i64 (tsum (\<lambda>_ p. a_amount (pi_unclaimed_rewards p)) (s_producers s))"

lemma pay_ok_cong:
  assumes "twf (s_producers s)" "twf (s_producers s')" "accrued H s' = accrued H s"
  shows "pay_ok H s' \<longleftrightarrow> pay_ok H s"
proof -
  have u: "unclaimed (s_producers s') = unclaimed (s_producers s)" using assms(3) by (simp add: accrued_def)
  have "tsum (\<lambda>_ p. a_amount (pi_unclaimed_rewards p)) P = (\<Sum>n | unclaimed P n \<noteq> 0. unclaimed P n)" if "twf P" for P
    by (rule tsum_support [OF that]) (simp add: unclaimed_def)
  then show ?thesis using assms u by (simp add: pay_ok_def)
qed

lemma i64_add: "i64 (i64 a + b) = i64 (a + b)"
  unfolding i64_eq_iff by (metis i64_mod mod_add_left_eq)

lemma pay_ok_credit:
  assumes "twf (s_producers s)" "twf (s_producers s')" "pay_ok H s" "tfind (s_producers s) p = Some q"
    "accrued H s' = (i64 (fst (accrued H s) + r), i64 (fst (snd (accrued H s)) + r), (unclaimed (s_producers s))(p := i64 (unclaimed (s_producers s) p + r)))"
  shows "pay_ok H s'"
proof -
  let ?f = "\<lambda>_ p. a_amount (pi_unclaimed_rewards p)" and ?u = "a_amount (pi_unclaimed_rewards q)"
  let ?q = "q\<lparr>pi_unclaimed_rewards := (pi_unclaimed_rewards q)\<lparr>a_amount := i64 (?u + r)\<rparr>\<rparr>"
  have u: "unclaimed (s_producers s) p = ?u" using assms(4) by (simp add: unclaimed_def)
  have sum: "tsum ?f (s_producers s') = tsum ?f (tput p ?q (s_producers s))"
  proof -
    have eq: "unclaimed (s_producers s') = unclaimed (tput p ?q (s_producers s))" using assms(5) by (simp add: accrued_def unclaimed_tput u)
    have "tsum ?f P = (\<Sum>n | unclaimed P n \<noteq> 0. unclaimed P n)" if "twf P" for P
      by (rule tsum_support [OF that]) (simp add: unclaimed_def)
    then show ?thesis using assms(1,2) eq by (simp add: twf_tput)
  qed
  have "i64 (i64 (tsum ?f (s_producers s)) + r) = i64 (tsum ?f (s_producers s) - ?u + i64 (?u + r))"
    unfolding i64_add using i64_add [of "?u + r" "tsum ?f (s_producers s) - ?u"] by (simp add: algebra_simps)
  then have "i64 (fst (accrued H s) + r) = i64 (tsum ?f (s_producers s'))"
    using assms(3) tsum_tput_old [OF assms(1,4), of ?f ?q] unfolding sum by (simp add: pay_ok_def)
  then show ?thesis using assms(3,5) by (simp add: pay_ok_def)
qed

interpretation pay: system_frame C H "\<lambda>s s'. cdt_laws C \<longrightarrow> accrued H s' = accrued H s" is_block for C H
  by unfold_locales (auto dest: sys_exec_accrued simp del: sys_exec.simps)

lemma chain_exec_pay:
  assumes C: "cdt_laws C" and run: "chain_exec C H x a ch = Inr ch'" and wf: "twf (s_producers (c_system ch))" "twf (s_producers (c_system ch'))"
    and ok: "pay_ok H (c_system ch)"
  shows "pay_ok H (c_system ch')"
proof -
  let ?y = "on x system_account (auths x)"
  consider (plain) "accrued H (c_system ch') = accrued H (c_system ch)"
    | (block) b s es where "is_block b" "sys_exec C H ?y (c_token ch) (c_reward ch) b (c_system ch) = Inr (s, es)"
        "accrued H (c_system ch') = accrued H s"
    using pay.chain_exec_frame [OF run] C by blast
  then show ?thesis
  proof cases
    case (block b s es)
    then obtain ts p i where b: "b = Sys_onblock ts p i" by (cases b) auto
    have "stored H (onblock C H ?y ts p i (c_system ch)) = Inr (s, es)" using block(2) unfolding b sys_exec.simps .
    from storedD [OF this] obtain s1 where s1: "onblock C H ?y ts p i (c_system ch) = Inr (s1, es)" "accrued H s = accrued H s1"
      by (auto simp: accrued_def)
    from onblock_accrued [OF s1(1)] show ?thesis
      using pay_ok_cong [OF wf, of H] pay_ok_credit [OF wf ok] ok unfolding block(3) s1(2) by blast
  qed (use pay_ok_cong [OF wf] ok in simp)
qed

lemma reachable_producers_wf: "cdt_laws C \<Longrightarrow> chain_reachable C H ch \<Longrightarrow> twf (s_producers (c_system ch))"
  using chain_reachable_inv by (auto simp: chain_inv_def parties_ok_def sys_inv_def voting_inv_def votes_ok_def)

lemma chain_reachable_pay: "chain_reachable C H ch \<Longrightarrow> cdt_laws C \<Longrightarrow> pay_ok H (c_system ch)"
proof (induction rule: chain_reachable.induct)
  case (launched T x core ch)
  have "pay_ok H system_empty" by (simp add: pay_ok_def accrued_def system_empty_def gs_def default_gstate_def null_asset_def i64_def)
  then show ?case
    using chain_exec_pay [OF launched.prems launched.hyps(3)] reachable_producers_wf [OF launched.prems chain_reachable.launched [OF launched.hyps]]
    by (simp add: system_empty_def)
next
  case (transacted ch x a ch')
  then show ?case
    using chain_exec_pay [OF transacted.prems transacted.hyps(4)] reachable_producers_wf [OF transacted.prems transacted.hyps(1)]
      reachable_producers_wf [OF transacted.prems chain_reachable.transacted [OF transacted.hyps]] by blast
qed

text \<open>C14: the pay of the producers adds up. In every reachable state the total of produced rewards and the total of unclaimed
  rewards are the sum of the unclaimed rewards of all producers, up to the wrap-around of 64 bit numbers: exactly that sum while it fits into 64 bits.
  Every claim of a producer is refused, although the documentation of \<open>claimrewards\<close> says that it pays: what blocks earn stays on the books.\<close>
theorem pay_adds_up:
  assumes "cdt_laws C" "chain_reachable C H ch"
  shows "a_amount (g_total_produced_rewards (gs H (c_system ch))) = i64 (tsum (\<lambda>_ p. a_amount (pi_unclaimed_rewards p)) (s_producers (c_system ch)))
     \<and> a_amount (g_total_unclaimed_rewards (gs H (c_system ch))) = i64 (tsum (\<lambda>_ p. a_amount (pi_unclaimed_rewards p)) (s_producers (c_system ch)))
     \<and> (- (2 ^ 63) \<le> tsum (\<lambda>_ p. a_amount (pi_unclaimed_rewards p)) (s_producers (c_system ch))
          \<and> tsum (\<lambda>_ p. a_amount (pi_unclaimed_rewards p)) (s_producers (c_system ch)) < 2 ^ 63 \<longrightarrow>
          a_amount (g_total_produced_rewards (gs H (c_system ch))) = tsum (\<lambda>_ p. a_amount (pi_unclaimed_rewards p)) (s_producers (c_system ch))
          \<and> a_amount (g_total_unclaimed_rewards (gs H (c_system ch))) = tsum (\<lambda>_ p. a_amount (pi_unclaimed_rewards p)) (s_producers (c_system ch)))
     \<and> chain_exec C H x (System_act (Sys_claimrewards n)) ch
         = Inl (if has_auth x n then Check ''unsupport claimrewards currently'' else MissingAuth n)"
  using chain_reachable_pay [OF assms(2,1)]
  by (auto simp: pay_ok_def accrued_def stored_def Producer_Pay.claimrewards_def has_auth_on i64_id simp del: on_simps(7))

theorem pay_adds_up_witness:
  "\<exists>ch'. chain_exec cdt_ref demo_host (demo_at 200 [system_account]) demo_block demo_chain = Inr ch'
     \<and> a_amount (g_total_produced_rewards (gs demo_host (c_system ch'))) = 8
     \<and> i64 (tsum (\<lambda>_ p. a_amount (pi_unclaimed_rewards p)) (s_producers (c_system ch'))) = 8"
proof -
  let ?x = "demo_at 200 [system_account]"
  let ?r = "chain_exec cdt_ref demo_host ?x demo_block demo_chain"
  have "(case ?r of Inl _ \<Rightarrow> 0 | Inr ch \<Rightarrow> a_amount (g_total_produced_rewards (gs demo_host (c_system ch)))) = 8" by code_simp
  then obtain ch where ch: "?r = Inr ch" "a_amount (g_total_produced_rewards (gs demo_host (c_system ch))) = 8" by (cases ?r) auto
  have "user_ctx ?x" "user_act ?x demo_block demo_chain" by code_simp+
  from chain_reachable.transacted [OF demo_chain_reachable this ch(1)] have "chain_reachable cdt_ref demo_host ch" .
  from pay_adds_up [OF ref.laws this] ch show ?thesis by auto
qed

end
