(* ===== verification/Refund_Props.thy ===== *)
theory Refund_Props
  imports Economy_Props
begin

text \<open>
  The way of the money back to its owner. Withdrawing votes files a refund, and so does outbidding a bidder; no
  other transaction takes anything off a refund, so it can be paid out in full whatever happens in between.
\<close>

section \<open>Who touches the refunds\<close>

definition refunds_kept :: "sys_state \<Rightarrow> sys_state \<Rightarrow> bool" where
  "refunds_kept s s' \<longleftrightarrow> s_vote_refunds s' = s_vote_refunds s \<and> s_bid_refunds s' = s_bid_refunds s"

fun moves_refunds :: "sys_action \<Rightarrow> bool" where
  "moves_refunds (Sys_subvote _ _) = True"
| "moves_refunds (Sys_voterefund _) = True"
| "moves_refunds (Sys_bidname _ _ _) = True"
| "moves_refunds (Sys_bidrefund _ _) = True"
| "moves_refunds _ = False"

lemma refunds_kept_refl [simp]: "refunds_kept s s"
  by (simp add: refunds_kept_def)

lemma refunds_kept_trans: "refunds_kept s s1 \<Longrightarrow> refunds_kept s1 s2 \<Longrightarrow> refunds_kept s s2"
  by (simp add: refunds_kept_def)

lemma stored_refunds: "stored H m = Inr (s', es) \<Longrightarrow> (\<And>s1. m = Inr (s1, es) \<Longrightarrow> refunds_kept s s1) \<Longrightarrow> refunds_kept s s'"
  by (auto simp: stored_def refunds_kept_def)

lemma vote_refunds:
  "Voting.register_producer C H x R p a url loc ratio s = Inr (s', es) \<Longrightarrow> refunds_kept s s'"
  "Voting.unregprod H x p s = Inr (s', es) \<Longrightarrow> refunds_kept s s'"
  "Voting.rmvproducer H x p s = Inr (s', es) \<Longrightarrow> refunds_kept s s'"
  "Voting.voteproducer C H x po pn m ns s = Inr (s', es) \<Longrightarrow> refunds_kept s s'"
  "Voting.addvote C H x m q s = Inr (s', es) \<Longrightarrow> refunds_kept s s'"
  by (auto simp: Voting.register_producer_def Voting.unregprod_def Voting.rmvproducer_def Voting.voteproducer_def Voting.addvote_def
      Let_def refunds_kept_def split: option.splits if_splits prod.splits)

lemma proposed_refunds: "set_proposed_finalizers H fins s = (s', es) \<Longrightarrow> refunds_kept s s'"
  by (auto simp: set_proposed_finalizers_def Let_def refunds_kept_def split: if_splits)

lemma finalizer_refunds:
  "regfinkey H x m k pop s = Inr (s', es) \<Longrightarrow> refunds_kept s s'"
  "delfinkey H x m k s = Inr (s', es) \<Longrightarrow> refunds_kept s s'"
  "switchtosvnn H x s = Inr (s', es) \<Longrightarrow> refunds_kept s s'"
  by (auto simp: regfinkey_def delfinkey_def switchtosvnn_def get_next_finalizer_key_id_def Let_def refunds_kept_def
      split: option.splits if_splits prod.splits dest!: proposed_refunds [unfolded refunds_kept_def])

lemma actfinkey_refunds:
  assumes "actfinkey H x m k s = Inr (s', es)"
  shows "refunds_kept s s'"
proof -
  have "\<exists>F. (s' = s\<lparr>s_finalizers := F\<rparr> \<and> es = []) \<or> (\<exists>l. set_proposed_finalizers H l (s\<lparr>s_finalizers := F\<rparr>) = (s', es))"
    using assms by (auto simp: actfinkey_def Let_def split: option.splits if_splits)
  then show ?thesis by (auto simp: refunds_kept_def dest!: proposed_refunds)
qed

lemma name_refunds:
  "newaccount C x m k s = Inr (s', es) \<Longrightarrow> refunds_kept s s'" "setabi H m abi s = Inr (s', es) \<Longrightarrow> refunds_kept s s'"
  "buygas C H x m k q s = Inr (s', es) \<Longrightarrow> refunds_kept s s'" "System_Admin.init C H x T v y s = Inr (s', es) \<Longrightarrow> refunds_kept s s'"
  by (auto simp: newaccount_def setabi_def buygas_def System_Admin.init_def Let_def refunds_kept_def
      split: option.splits if_splits prod.splits)

lemma admin_refunds:
  "setparams H x p m s = Inr (s', es) \<Longrightarrow> refunds_kept s s'" "setpriv x k b s = Inr (s', es) \<Longrightarrow> refunds_kept s s'"
  "setalimits H x k g u s = Inr (s', es) \<Longrightarrow> refunds_kept s s'" "activate x d s = Inr (s', es) \<Longrightarrow> refunds_kept s s'"
  "logsystemfee x k q memo s = Inr (s', es) \<Longrightarrow> refunds_kept s s'" "setibintervl x i s = Inr (s', es) \<Longrightarrow> refunds_kept s s'"
  "wasmcfg x k s = Inr (s', es) \<Longrightarrow> refunds_kept s s'" "limitauthchg x k al dis s = Inr (s', es) \<Longrightarrow> refunds_kept s s'"
  "cfgelection C H x e st q s = Inr (s', es) \<Longrightarrow> refunds_kept s s'"
  by (auto simp: admin_defs cfgelection_def Let_def refunds_kept_def split: if_splits prod.splits option.splits)

lemma onblock_refunds:
  assumes "onblock C H x ts p b s = Inr (s', es)"
  shows "refunds_kept s s'"
proof -
  have close: "refunds_kept s0 s1" if "close_auction C H x ts s0 = Inr (s1, fs)" for s0 s1 fs
    using that by (auto simp: close_auction_def refunds_kept_def split: option.splits if_splits)
  have elect: "refunds_kept s0 s1" if "update_elected_producers H t s0 = (s1, fs)" for t s0 s1 fs
    using that unfolding update_elected_producers_def Let_def
    by (auto simp: refunds_kept_def split: if_splits prod.splits dest!: proposed_refunds)
  obtain t where t: "add_to_blockinfo_table C b ts (s_block_info s) = Inr t" using assms by (auto simp: onblock_def)
  consider (idle) "s' = s\<lparr>s_block_info := t\<rparr>"
    | (busy) s1 where "credit_producer H (slot_time C ts) p (s\<lparr>s_block_info := t\<rparr>) = Inr s1"
        "s' = s1 \<or> (\<exists>s2 es2. update_elected_producers H ts s1 = (s2, es2)
           \<and> (s' = s2 \<or> (\<exists>fs. close_auction C H x ts s2 = Inr (s', fs))))"
    using assms t unfolding onblock_def Let_def by (auto split: if_splits prod.splits)
  then show ?thesis
  proof cases
    case (busy s1)
    have "refunds_kept s s1" using busy(1) by (auto simp: credit_producer_def Let_def refunds_kept_def split: option.splits if_splits)
    moreover have "refunds_kept s1 s'" using busy(2) elect close by (auto simp: refunds_kept_def)
    ultimately show ?thesis by (simp add: refunds_kept_def)
  qed (simp add: refunds_kept_def)
qed

lemma sys_exec_refunds:
  assumes "\<not> moves_refunds a" "sys_exec C H x T R a s = Inr (s', es)"
  shows "refunds_kept s s'"
proof (cases a)
  case (Sys_newaccount c m)
  with assms show ?thesis using name_refunds(1) by simp
next
  case (Sys_setabi m abi)
  with assms show ?thesis using name_refunds(2) by simp
next
  case Sys_onerror
  with assms show ?thesis by (simp add: onerror_def)
next
  case (Sys_claimrewards m)
  with assms show ?thesis by (simp add: stored_def Producer_Pay.claimrewards_def)
qed (use assms in \<open>auto elim!: stored_refunds dest: vote_refunds finalizer_refunds actfinkey_refunds
      name_refunds admin_refunds onblock_refunds
      simp: Voting.regproducer_def regproducer2_def buygasself_def updateauth_def deleteauth_def linkauth_def unlinkauth_def\<close>)

interpretation refunds: system_frame C H refunds_kept moves_refunds for C H
  by unfold_locales (auto intro: refunds_kept_trans dest: sys_exec_refunds simp del: sys_exec.simps)

section \<open>A vote refund waits\<close>

definition waiting :: "name \<Rightarrow> vote_refund \<Rightarrow> sys_state \<Rightarrow> bool" where
  "waiting n r s \<longleftrightarrow> tfind (s_vote_refunds s) n = Some r"

lemma waiting_sg [simp]: "waiting n r (s\<lparr>sg := g\<rparr>) \<longleftrightarrow> waiting n r s"
  by (simp add: waiting_def)

lemma waiting_kept: "refunds_kept s s' \<Longrightarrow> waiting n r s' \<longleftrightarrow> waiting n r s"
  by (simp add: waiting_def refunds_kept_def)

lemma moved_waiting:
  assumes "waiting n r s"
  shows "Voting.subvote C H x m q s = Inr (s', es) \<Longrightarrow> waiting n r s'"
    "m \<noteq> n \<Longrightarrow> Voting.voterefund x m s = Inr (s', es) \<Longrightarrow> waiting n r s'"
    "bidname C H x m k q s = Inr (s', es) \<Longrightarrow> waiting n r s'" "bidrefund H x m k s = Inr (s', es) \<Longrightarrow> waiting n r s'"
  using assms
  by (auto simp: Voting.subvote_def Voting.voterefund_def bidname_def bidrefund_def Let_def waiting_def table_simps
      split: option.splits if_splits)

lemma chain_exec_waiting:
  assumes "waiting n r (c_system ch)" "a \<noteq> System_act (Sys_voterefund n)" "chain_exec C H x a ch = Inr ch'"
  shows "waiting n r (c_system ch')"
  using refunds.chain_exec_frame [OF assms(3)]
proof (elim disjE exE conjE)
  fix b s es
  assume a: "a = System_act b" "moves_refunds b" and k: "refunds_kept s (c_system ch')"
    and r: "sys_exec C H (on x system_account (auths x)) (c_token ch) (c_reward ch) b (c_system ch) = Inr (s, es)"
  from a(2) have "waiting n r s"
    by (cases b rule: moves_refunds.elims(2)) (use a(1) r assms(2) in \<open>auto dest!: storedD dest: moved_waiting [OF assms(1)]\<close>)
  then show ?thesis using waiting_kept [OF k] by simp
qed (use assms(1) waiting_kept in blast)

lemma chain_run_waiting:
  assumes "chain_run C H acts ch = Some ch'" "waiting n r (c_system ch)" "\<And>y. (y, System_act (Sys_voterefund n)) \<notin> set acts"
  shows "waiting n r (c_system ch')"
  using assms
proof (induction acts arbitrary: ch)
  case (Cons xa acts)
  obtain x a where xa: "xa = (x, a)" by (cases xa)
  from Cons.prems(1) obtain ch1 where 1: "chain_exec C H x a ch = Inr ch1" "chain_run C H acts ch1 = Some ch'"
    by (auto simp: xa split: if_splits sum.splits simp del: chain_exec.simps)
  have "a \<noteq> System_act (Sys_voterefund n)" using Cons.prems(3) [of x] xa by auto
  from chain_exec_waiting [OF Cons.prems(2) this 1(1)] show ?case by (rule Cons.IH [OF 1(2)]) (use Cons.prems(3) in auto)
qed simp

lemma subvote_waiting:
  assumes "chain_exec C H x (System_act (Sys_subvote n q)) ch = Inr ch'"
  shows "waiting n \<lparr>vr_owner = n, vr_request_time = to_sec (now x), vr_vote_staked = q\<rparr> (c_system ch')" "has_auth x n"
proof -
  let ?r = "\<lparr>vr_owner = n, vr_request_time = to_sec (now x), vr_vote_staked = q\<rparr>" and ?y = "on x system_account (auths x)"
  obtain s es where e: "sys_exec C H ?y (c_token ch) (c_reward ch) (Sys_subvote n q) (c_system ch) = Inr (s, es)"
    and f: "rfold (run_effect C H x) es (ch\<lparr>c_system := s\<rparr>) = Inr ch'" using assms by auto
  then obtain s1 where s1: "Voting.subvote C H ?y n q (c_system ch) = Inr (s1, es)" "s = s1\<lparr>sg := Some (gs H s1)\<rparr>"
    by (auto simp: stored_def)
  then have "waiting n ?r s" by (auto simp: Voting.subvote_def Let_def waiting_def tfind_tput split: option.splits if_splits)
  then show "waiting n ?r (c_system ch')" using waiting_kept [OF refunds.rfold_keeps [OF f refunds.effect_keeps]] by simp
  show "has_auth x n" using s1(1) by (auto simp: Voting.subvote_def split: if_splits)
qed

lemma to_sec_le: "0 \<le> t \<Longrightarrow> uint (to_sec t) * 1000000 \<le> t"
proof -
  assume t: "0 \<le> t"
  then have "(t div 1000000) mod 2 ^ 32 \<le> t div 1000000" by (intro zmod_le_nonneg_dividend) simp
  then have "uint (to_sec t) \<le> t div 1000000" by (simp add: to_sec_def uint_word_of_int)
  then show ?thesis by linarith
qed

section \<open>A bid refund grows\<close>

lemma refund_due_sg [simp]: "refund_due (s\<lparr>sg := g\<rparr>) m n = refund_due s m n"
  by (simp add: refund_due_def)

lemma due_kept: "refunds_kept s s' \<Longrightarrow> refund_due s' m n = refund_due s m n"
  by (simp add: refund_due_def refunds_kept_def)

lemma bid_due:
  assumes "cdt_laws C" "bids_ok C (a_symbol (stake H s)) s" "amount_ok (a_amount bid)"
    "bidname C H x bidder newname bid s = Inr (s', es)"
  shows "refund_due s m n \<le> refund_due s' m n"
    "tfind (s_name_bids s) newname = Some b \<Longrightarrow> nb_high_bid b \<le> refund_due s' newname (nb_high_bidder b)"
proof -
  note r = bidname_Inr [OF assms(1,2,3,4)]
  have nn: "0 \<le> refund_due s m n" for m n
    using assms(2) by (force simp: refund_due_def bids_ok_def split: option.splits)
  show "refund_due s m n \<le> refund_due s' m n"
  proof (cases "tfind (s_name_bids s) newname")
    case None
    then show ?thesis using r(5) by (simp add: bid_state_def refund_due_def)
  next
    case (Some b)
    then have "0 < nb_high_bid b" using r(7) by simp
    then show ?thesis using r(5) Some by (auto simp: bid_state_def Let_def refund_due_def table_simps split: option.split)
  qed
  show "nb_high_bid b \<le> refund_due s' newname (nb_high_bidder b)" if "tfind (s_name_bids s) newname = Some b"
    using r(5) that nn [of newname "nb_high_bidder b"]
    by (auto simp: bid_state_def Let_def refund_due_def table_simps split: option.splits)
qed

lemma moved_due:
  "Voting.subvote C H x k q s = Inr (s', es) \<Longrightarrow> refund_due s' m n = refund_due s m n"
  "Voting.voterefund x k s = Inr (s', es) \<Longrightarrow> refund_due s' m n = refund_due s m n"
  "bidrefund H x j k s = Inr (s', es) \<Longrightarrow> j \<noteq> n \<or> k \<noteq> m \<Longrightarrow> refund_due s' m n = refund_due s m n"
  by (auto simp: Voting.subvote_def Voting.voterefund_def bidrefund_def Let_def refund_due_def table_simps
      split: option.splits if_splits)

lemma chain_bid:
  assumes "cdt_laws C" "chain_reachable C H ch" "chain_exec C H x (System_act (Sys_bidname bidder newname bid)) ch = Inr ch'"
  obtains s es where "bidname C H (on x system_account (auths x)) bidder newname bid (c_system ch) = Inr (s, es)"
    "amount_ok (a_amount bid)" "refunds_kept s (c_system ch')"
proof -
  obtain s es where e: "sys_exec C H (on x system_account (auths x)) (c_token ch) (c_reward ch) (Sys_bidname bidder newname bid) (c_system ch) = Inr (s, es)"
    and f: "rfold (run_effect C H x) es (ch\<lparr>c_system := s\<rparr>) = Inr ch'" using assms(3) by auto
  then obtain s1 where s1: "bidname C H (on x system_account (auths x)) bidder newname bid (c_system ch) = Inr (s1, es)" "refunds_kept s1 s"
    by (auto simp: stored_def refunds_kept_def)
  moreover have "amount_ok (a_amount bid)" using orders_first(2) [OF s1(1)] order_amount_ok [OF assms(1)] f by auto
  moreover have "refunds_kept s (c_system ch')" using refunds.rfold_keeps [OF f refunds.effect_keeps] by simp
  ultimately show thesis using that refunds_kept_trans by blast
qed

lemma reachable_bids: "cdt_laws C \<Longrightarrow> chain_reachable C H ch \<Longrightarrow> bids_ok C (a_symbol (stake H (c_system ch))) (c_system ch)"
  using reachable_sys_inv by (auto simp: sys_inv_def)

lemma chain_exec_due:
  assumes "cdt_laws C" "chain_reachable C H ch" "a \<noteq> System_act (Sys_bidrefund n m)" "chain_exec C H x a ch = Inr ch'"
  shows "refund_due (c_system ch) m n \<le> refund_due (c_system ch') m n"
  using refunds.chain_exec_frame [OF assms(4)]
proof (elim disjE exE conjE)
  fix b s es
  assume a: "a = System_act b" "moves_refunds b" and k: "refunds_kept s (c_system ch')"
    and r: "sys_exec C H (on x system_account (auths x)) (c_token ch) (c_reward ch) b (c_system ch) = Inr (s, es)"
  from a(2) show ?thesis
  proof (cases b rule: moves_refunds.elims(2))
    case (3 j l q)
    obtain s1 es1 where "bidname C H (on x system_account (auths x)) j l q (c_system ch) = Inr (s1, es1)"
      "amount_ok (a_amount q)" "refunds_kept s1 (c_system ch')"
      by (rule chain_bid [OF assms(1,2)]) (use assms(4) a(1) 3 in auto)
    then show ?thesis using bid_due(1) [OF assms(1) reachable_bids [OF assms(1,2)]] due_kept by metis
  qed (use a(1) r assms(3) due_kept [OF k] in \<open>auto dest!: storedD dest: moved_due [where m = m and n = n]\<close>)
qed (simp add: due_kept)

lemma chain_run_due:
  assumes "cdt_laws C" "chain_reachable C H ch" "chain_run C H acts ch = Some ch'" "\<And>y. (y, System_act (Sys_bidrefund n m)) \<notin> set acts"
  shows "refund_due (c_system ch) m n \<le> refund_due (c_system ch') m n"
  using assms(2-)
proof (induction acts arbitrary: ch)
  case (Cons xa acts)
  obtain x a where xa: "xa = (x, a)" by (cases xa)
  from Cons.prems(2) obtain ch1 where u: "user_ctx x" "user_act x a ch" and 1: "chain_exec C H x a ch = Inr ch1" "chain_run C H acts ch1 = Some ch'"
    by (auto simp: xa split: if_splits sum.splits simp del: chain_exec.simps)
  have "a \<noteq> System_act (Sys_bidrefund n m)" using Cons.prems(3) [of x] xa by auto
  from chain_exec_due [OF assms(1) Cons.prems(1) this 1(1)]
  have "refund_due (c_system ch) m n \<le> refund_due (c_system ch1) m n" .
  also have "\<dots> \<le> refund_due (c_system ch') m n"
    by (rule Cons.IH [OF chain_reachable.transacted [OF Cons.prems(1) u 1(1)] 1(2)]) (use Cons.prems(3) in auto)
  finally show ?case .
qed simp

text \<open>A bid refund can be paid out.\<close>

lemma bid_refund_paid:
  assumes "cdt_laws C" "chain_reachable C H ch" "user_ctx x" "0 < refund_due (c_system ch) m n"
    "n \<noteq> names_account" "n \<noteq> reward_account" "is_account x n" "length (name_string H m) \<le> 13"
  shows "\<exists>ch'. chain_exec C H x (System_act (Sys_bidrefund n m)) ch = Inr ch'
     \<and> core_balance H ch' n = core_balance H ch n + refund_due (c_system ch) m n \<and> refund_due (c_system ch') m n = 0"
proof -
  let ?y = "on x system_account (auths x)" and ?S = "c_system ch" and ?k = "Scoped m n"
  let ?au = "[(names_account, active_permission), (n, active_permission)]"
  define memo where "memo = ''refund bid on name '' @ name_string H m"
  then have short: "length memo \<le> 256" using assms(8) by simp
  obtain r where r: "tfind (s_bid_refunds ?S) ?k = Some r" "refund_due ?S m n = a_amount (br_amount r)"
    using assms(4) by (cases "tfind (s_bid_refunds ?S) ?k") (auto simp: refund_due_def)
  define s where "s = ?S\<lparr>s_bid_refunds := terase ?k (s_bid_refunds ?S), sg := Some (gs H ?S)\<rparr>"
  have I: "chain_inv C H ch" by (rule chain_reachable_inv [OF assms(1,2)])
  then have P: "parties_ok C H ch" and B: "held_names ?S \<le> core_balance H ch names_account" by (simp_all add: chain_inv_def backed_def)
  have bo: "bids_ok C (core_of H ch) ?S" by (rule reachable_bids [OF assms(1,2)])
  have row: "a_symbol (br_amount r) = core_of H ch" using bo r(1) by (simp add: bids_ok_def)
  have le: "a_amount (br_amount r) \<le> held_names ?S" using bidrefund_books [OF bo r(1)] held_names_nonneg by fastforce
  have run: "sys_exec C H ?y (c_token ch) (c_reward ch) (Sys_bidrefund n m) ?S
      = Inr (s, [Send (Token_transfer ?au names_account n (br_amount r) memo)])"
    using r(1) by (simp add: stored_def bidrefund_def s_def memo_def)
  have st: "step_ok C H ?S s [Send (Token_transfer ?au names_account n (br_amount r) memo)]"
    using sys_exec_ok [OF assms(1) _ user_custody [OF assms(3)] _ run] P by (simp add: parties_ok_def)
  note ps = parties_step [OF P st]
  obtain T' where tr: "run_transfer C (on x token_account ?au) names_account n (br_amount r) memo (ch\<lparr>c_system := s\<rparr>)
        = Inr (ch\<lparr>c_system := s, c_token := T'\<rparr>)"
    and bal: "\<And>k c. balance_of T' k c = balance_of (c_token ch) k c + moved names_account n (br_amount r) k c"
    using affordable_transfer [OF assms(1) ps(1), of "on x token_account ?au" names_account n "br_amount r" memo]
      assms(4-7) short r(2) ps(2) row le B by auto
  have "chain_exec C H x (System_act (Sys_bidrefund n m)) ch = Inr (ch\<lparr>c_system := s, c_token := T'\<rparr>)"
    unfolding chain_exec.simps run by (simp add: tr)
  then show ?thesis using bal [of n] assms(5) row ps(2) r by (auto simp: moved_def s_def refund_due_def tfind_terase)
qed

section \<open>Properties\<close>

text \<open>C4: a stake comes back. When a voter has withdrawn votes and three days have passed, the stake can be paid out by anybody,
  whatever transactions of whomever came in between, as long as it was not paid out already: the transaction succeeds and the
  balance of the voter grows by exactly what was withdrawn.\<close>
theorem stake_comes_back:
  assumes "cdt_laws C" "chain_reachable C H ch" "user_ctx x" "0 \<le> now x"
    "chain_exec C H x (System_act (Sys_subvote n q)) ch = Inr ch1"
    "chain_run C H acts ch1 = Some ch2" "\<And>y. (y, System_act (Sys_voterefund n)) \<notin> set acts"
    "user_ctx y" "now x + 3 * 24 * 3600 * 1000000 \<le> now y" "is_account y n"
  shows "\<exists>ch3. chain_exec C H y (System_act (Sys_voterefund n)) ch2 = Inr ch3
     \<and> core_balance H ch3 n = core_balance H ch2 n + a_amount q
     \<and> tfind (s_vote_refunds (c_system ch3)) n = None"
proof -
  let ?r = "\<lparr>vr_owner = n, vr_request_time = to_sec (now x), vr_vote_staked = q\<rparr>"
  note w = subvote_waiting [OF assms(5)]
  have "chain_reachable C H ch1" by (rule chain_reachable.transacted [OF assms(2,3) _ assms(5)]) simp
  then have R: "chain_reachable C H ch2" by (rule chain_run_reachable [OF assms(6)])
  have r: "tfind (s_vote_refunds (c_system ch2)) n = Some ?r"
    using chain_run_waiting [OF assms(6) w(1) assms(7)] by (simp add: waiting_def)
  have t: "uint (vr_request_time ?r) * 1000000 + 3 * 24 * 3600 * 1000000 \<le> now y" using to_sec_le [OF assms(4)] assms(9) by simp
  have "n \<noteq> vote_account" "n \<noteq> reward_account" using w(2) assms(3) by (auto simp: user_ctx_def)
  from refund_paid [OF assms(1) R assms(8) r t this assms(10)] show ?thesis by simp
qed

theorem stake_comes_back_witness:
  "\<exists>ch1 ch2 ch3. chain_exec cdt_ref demo_host (demo_at 20 [carol]) (System_act (Sys_subvote carol (mk_asset 50 demo_symbol))) demo_chain = Inr ch1
     \<and> chain_run cdt_ref demo_host [(demo_at 100 [alice], System_act (Sys_addvote alice (mk_asset 10 demo_symbol)))] ch1 = Some ch2
     \<and> chain_exec cdt_ref demo_host (demo_at 300000 [bob]) (System_act (Sys_voterefund carol)) ch2 = Inr ch3
     \<and> core_balance demo_host ch3 carol = core_balance demo_host ch2 carol + 50"
proof -
  let ?x = "demo_at 20 [carol]" and ?y = "demo_at 300000 [bob]" and ?q = "mk_asset 50 demo_symbol"
  let ?acts = "[(demo_at 100 [alice], System_act (Sys_addvote alice (mk_asset 10 demo_symbol)))]"
  let ?e = "chain_exec cdt_ref demo_host ?x (System_act (Sys_subvote carol ?q)) demo_chain"
  have "(case ?e of Inl _ \<Rightarrow> False | Inr ch1 \<Rightarrow> chain_run cdt_ref demo_host ?acts ch1 \<noteq> None)" by code_simp
  then obtain ch1 ch2 where e: "?e = Inr ch1" "chain_run cdt_ref demo_host ?acts ch1 = Some ch2" by (cases ?e) auto
  have x: "user_ctx ?x" "0 \<le> now ?x" "user_ctx ?y" "now ?x + 3 * 24 * 3600 * 1000000 \<le> now ?y" "is_account ?y carol" by code_simp+
  have "(y, System_act (Sys_voterefund carol)) \<notin> set ?acts" for y by simp
  from stake_comes_back [OF ref.laws demo_chain_reachable x(1,2) e this x(3-5)] show ?thesis
    unfolding asset.select_convs using e by blast
qed

text \<open>C5: an outbid bidder is paid back. When a bid on an open auction is accepted, then whatever transactions come afterwards, as
  long as the refund was not paid out already, anybody can have it paid out: the transaction succeeds and the balance of the outbid
  bidder grows by everything due for that name, which is at least the bid that was outbid.\<close>
theorem outbid_comes_back:
  assumes "cdt_laws C" "chain_reachable C H ch" "user_ctx x" "tfind (s_name_bids (c_system ch)) m = Some b" "nb_high_bidder b = n"
    "chain_exec C H x (System_act (Sys_bidname k m bid)) ch = Inr ch1"
    "chain_run C H acts ch1 = Some ch2" "\<And>y. (y, System_act (Sys_bidrefund n m)) \<notin> set acts"
    "user_ctx y" "is_account y n" "n \<noteq> names_account" "n \<noteq> reward_account" "length (name_string H m) \<le> 13"
  shows "\<exists>ch3. chain_exec C H y (System_act (Sys_bidrefund n m)) ch2 = Inr ch3
     \<and> core_balance H ch3 n = core_balance H ch2 n + refund_due (c_system ch2) m n
     \<and> nb_high_bid b \<le> refund_due (c_system ch2) m n \<and> 0 < nb_high_bid b \<and> refund_due (c_system ch3) m n = 0"
proof -
  let ?x = "on x system_account (auths x)"
  obtain s es where s: "bidname C H ?x k m bid (c_system ch) = Inr (s, es)" "amount_ok (a_amount bid)" "refunds_kept s (c_system ch1)"
    by (rule chain_bid [OF assms(1,2,6)])
  note B = reachable_bids [OF assms(1,2)]
  have pos: "0 < nb_high_bid b" using bidname_Inr(7) [OF assms(1) B s(2,1) assms(4)] by simp
  have R1: "chain_reachable C H ch1" by (rule chain_reachable.transacted [OF assms(2,3) _ assms(6)]) simp
  have "nb_high_bid b \<le> refund_due (c_system ch1) m n"
    using bid_due(2) [OF assms(1) B s(2,1) assms(4)] assms(5) due_kept [OF s(3)] by simp
  also have "\<dots> \<le> refund_due (c_system ch2) m n" by (rule chain_run_due [OF assms(1) R1 assms(7,8)])
  finally have due: "nb_high_bid b \<le> refund_due (c_system ch2) m n" .
  then have "0 < refund_due (c_system ch2) m n" using pos by simp
  from bid_refund_paid [OF assms(1) chain_run_reachable [OF assms(7) R1] assms(9) this assms(11,12,10,13)]
  show ?thesis using due pos by blast
qed

theorem outbid_comes_back_witness:
  "\<exists>ch1 ch2 ch3. chain_exec cdt_ref demo_host (demo_at 20 [alice]) (System_act (Sys_bidname alice premium (mk_asset 20 demo_symbol))) demo_chain = Inr ch1
     \<and> chain_run cdt_ref demo_host [(demo_at 30 [bob], System_act (Sys_bidname bob premium (mk_asset 40 demo_symbol)))] ch1 = Some ch2
     \<and> chain_exec cdt_ref demo_host (demo_at 40 [alice]) (System_act (Sys_bidrefund carol premium)) ch2 = Inr ch3
     \<and> core_balance demo_host ch3 carol = core_balance demo_host ch2 carol + refund_due (c_system ch2) premium carol
     \<and> 8 \<le> refund_due (c_system ch2) premium carol"
proof -
  let ?x = "demo_at 20 [alice]" and ?y = "demo_at 40 [alice]" and ?q = "mk_asset 20 demo_symbol"
  let ?b = "\<lparr>nb_newname = premium, nb_high_bidder = carol, nb_high_bid = 8, nb_last_bid_time = 1700000012000000\<rparr>"
  let ?acts = "[(demo_at 30 [bob], System_act (Sys_bidname bob premium (mk_asset 40 demo_symbol)))]"
  let ?e = "chain_exec cdt_ref demo_host ?x (System_act (Sys_bidname alice premium ?q)) demo_chain"
  have "(case ?e of Inl _ \<Rightarrow> False | Inr ch1 \<Rightarrow> chain_run cdt_ref demo_host ?acts ch1 \<noteq> None)" by code_simp
  then obtain ch1 ch2 where e: "?e = Inr ch1" "chain_run cdt_ref demo_host ?acts ch1 = Some ch2" by (cases ?e) auto
  have b: "tfind (s_name_bids (c_system demo_chain)) premium = Some ?b" by code_simp
  have x: "user_ctx ?x" "user_ctx ?y" "is_account ?y carol" "carol \<noteq> names_account" "carol \<noteq> reward_account" by code_simp+
  have l: "length (name_string demo_host premium) \<le> 13" by (simp add: demo_host_def)
  have c: "nb_high_bidder ?b = carol" by simp
  have "(y, System_act (Sys_bidrefund carol premium)) \<notin> set ?acts" for y by simp
  from outbid_comes_back [OF ref.laws demo_chain_reachable x(1) b c e this x(2-5) l] show ?thesis
    unfolding name_bid.select_convs using e by blast
qed

end
