(* ===== verification/World.thy ===== *)
theory World
  imports Chain Multisig
begin

text \<open>
  The economy of \<open>Chain\<close> together with \<open>flon.msig\<close> and \<open>flon.wrap\<close>. What \<open>exec\<close> of either contract sends are
  raw actions; the chain hands each to the contract it names, with the authorization written in
  the action (both accounts are privileged, so the chain does not ask for it again). How the data of an action is
  read belongs to the development kit: \<open>D\<close> says which action of the three contracts a raw action is, and
  \<open>None\<close> means it goes elsewhere. An action sent to \<open>flon.msig\<close> or \<open>flon.wrap\<close> counts as a transaction of its own.
\<close>

section \<open>Execution\<close>

definition msig_account :: name where "msig_account = 0x5c69304b0e600000" \<comment> \<open>flon.msig\<close>
definition wrap_account :: name where "wrap_account = 0x5c693072e6a80000" \<comment> \<open>flon.wrap\<close>

record world =
  w_chain :: chain
  w_msig :: msig_state

type_synonym decoder = "raw_action \<Rightarrow> chain_action option"

definition as_declared :: "ctx \<Rightarrow> raw_action \<Rightarrow> ctx" where
  "as_declared x act = x\<lparr>auths := ra_authorization act\<rparr>"

definition run_action :: "cdt \<Rightarrow> host \<Rightarrow> decoder \<Rightarrow> ctx \<Rightarrow> raw_action \<Rightarrow> chain \<Rightarrow> chain res" where
  "run_action C H D x act ch =
     (case D act of None \<Rightarrow> Inr ch | Some a \<Rightarrow> chain_exec C H (as_declared x act) a ch)"

datatype world_action = Chain_act chain_action | Msig_act msig_action | Wrap_act bytes

fun world_exec :: "cdt \<Rightarrow> host \<Rightarrow> trx_api \<Rightarrow> decoder \<Rightarrow> authority_check \<Rightarrow> ctx \<Rightarrow> world_action \<Rightarrow> world \<Rightarrow> world res" where
  "world_exec C H M D auth x (Chain_act a) w = rbind (chain_exec C H x a (w_chain w)) (\<lambda>ch. Inr (w\<lparr>w_chain := ch\<rparr>))"
| "world_exec C H M D auth x (Msig_act a) w =
     rbind (msig_exec M auth (on x msig_account (auths x)) a (w_msig w)) (\<lambda>(s, acts).
     rbind (rfold (run_action C H D x) acts (w_chain w)) (\<lambda>ch. Inr (w\<lparr>w_msig := s, w_chain := ch\<rparr>)))"
| "world_exec C H M D auth x (Wrap_act ds) w =
     rbind (wrap_exec M (on x wrap_account (auths x)) ds) (\<lambda>acts.
     rbind (rfold (run_action C H D x) acts (w_chain w)) (\<lambda>ch. Inr (w\<lparr>w_chain := ch\<rparr>)))"

section \<open>Reachable worlds\<close>

text \<open>What \<open>Chain\<close> assumes of a transaction is assumed of every action that is sent.\<close>

fun sends_proper :: "cdt \<Rightarrow> host \<Rightarrow> decoder \<Rightarrow> ctx \<Rightarrow> raw_action list \<Rightarrow> chain \<Rightarrow> bool" where
  "sends_proper C H D x [] ch \<longleftrightarrow> True"
| "sends_proper C H D x (act # acts) ch \<longleftrightarrow>
     (case D act of None \<Rightarrow> True | Some a \<Rightarrow> user_ctx (as_declared x act) \<and> user_act (as_declared x act) a ch)
     \<and> (case run_action C H D x act ch of Inl _ \<Rightarrow> True | Inr ch' \<Rightarrow> sends_proper C H D x acts ch')"

fun proper :: "cdt \<Rightarrow> host \<Rightarrow> trx_api \<Rightarrow> decoder \<Rightarrow> authority_check \<Rightarrow> ctx \<Rightarrow> world_action \<Rightarrow> world \<Rightarrow> bool" where
  "proper C H M D auth x (Chain_act a) w \<longleftrightarrow> user_ctx x \<and> user_act x a (w_chain w)"
| "proper C H M D auth x (Msig_act a) w \<longleftrightarrow> 0 \<le> now x \<and> now x < 2 ^ 62 \<and>
     (case msig_exec M auth (on x msig_account (auths x)) a (w_msig w) of
        Inl _ \<Rightarrow> True | Inr (_, acts) \<Rightarrow> sends_proper C H D x acts (w_chain w))"
| "proper C H M D auth x (Wrap_act ds) w \<longleftrightarrow>
     (case wrap_exec M (on x wrap_account (auths x)) ds of
        Inl _ \<Rightarrow> True | Inr acts \<Rightarrow> sends_proper C H D x acts (w_chain w))"

fun noted :: "ctx \<Rightarrow> world_action \<Rightarrow> history \<Rightarrow> history" where
  "noted x (Msig_act a) L = (on x msig_account (auths x), a) # L"
| "noted x _ L = L"

inductive world_reachable :: "cdt \<Rightarrow> host \<Rightarrow> trx_api \<Rightarrow> decoder \<Rightarrow> history \<Rightarrow> world \<Rightarrow> bool" for C H M D where
  settled: "chain_reachable C H ch \<Longrightarrow> world_reachable C H M D [] \<lparr>w_chain = ch, w_msig = msig_empty\<rparr>"
| moved: "world_reachable C H M D L w \<Longrightarrow> proper C H M D auth x a w \<Longrightarrow> world_exec C H M D auth x a w = Inr w' \<Longrightarrow>
     world_reachable C H M D (noted x a L) w'"

end
