(* ===== verification/World_Props.thy ===== *)
theory World_Props
  imports World Custody_Props Multisig_Props
begin

text \<open>
  Who pays in the whole system. Every action that a proposal or \<open>flon.wrap\<close> sends is a transaction of the economy
  with the authorization it declares, so what \<open>Chain\<close> and \<open>Custody_Props\<close> show carries over; the approvals behind it are those of
  the history (\<open>Multisig_Props\<close>).
\<close>

section \<open>The parts stay reachable\<close>

lemma sends_reachable:
  assumes "chain_reachable C H ch" "sends_proper C H D x acts ch" "rfold (run_action C H D x) acts ch = Inr ch'"
  shows "chain_reachable C H ch'"
  using assms
proof (induction acts arbitrary: ch)
  case (Cons act acts)
  then obtain ch1 where 1: "run_action C H D x act ch = Inr ch1" "rfold (run_action C H D x) acts ch1 = Inr ch'" by auto
  have "chain_reachable C H ch1"
  proof (cases "D act")
    case (Some a)
    then show ?thesis using 1(1) Cons.prems(2) chain_reachable.transacted [OF Cons.prems(1)] by (auto simp: run_action_def)
  qed (use 1(1) Cons.prems(1) in \<open>simp add: run_action_def\<close>)
  then show ?case using Cons.IH 1 Cons.prems(2) by simp
qed simp

lemma world_parts:
  assumes "world_reachable C H M D L w"
  shows "chain_reachable C H (w_chain w) \<and> msig_run M L (w_msig w)"
  using assms
proof induction
  case (moved L w auth x a w')
  show ?case
  proof (cases a)
    case (Chain_act b)
    then show ?thesis using moved chain_reachable.transacted [of C H "w_chain w" x b] by (auto simp del: chain_exec.simps)
  next
    case (Msig_act b)
    then obtain s acts ch where e: "msig_exec M auth (on x msig_account (auths x)) b (w_msig w) = Inr (s, acts)"
      and f: "rfold (run_action C H D x) acts (w_chain w) = Inr ch" and w': "w' = w\<lparr>w_msig := s, w_chain := ch\<rparr>"
      using moved.hyps(3) by (auto simp del: msig_exec.simps)
    have p: "0 \<le> now x" "now x < 2 ^ 62" "sends_proper C H D x acts (w_chain w)" using moved.hyps(2) Msig_act e by simp_all
    have "msig_run M ((on x msig_account (auths x), b) # L) s" by (rule msig_step [OF _ _ _ e]) (use p moved.IH in simp_all)
    then show ?thesis using sends_reachable [OF _ p(3) f] moved.IH Msig_act w' by simp
  next
    case (Wrap_act ds)
    then obtain acts ch where e: "wrap_exec M (on x wrap_account (auths x)) ds = Inr acts"
      and f: "rfold (run_action C H D x) acts (w_chain w) = Inr ch" and w': "w' = w\<lparr>w_chain := ch\<rparr>"
      using moved.hyps(3) by auto
    then show ?thesis using sends_reachable [OF _ _ f] moved.IH moved.hyps(2) Wrap_act by simp
  qed
qed (simp add: msig_start)

section \<open>Who pays for what is sent\<close>

lemma sends_debit:
  assumes "cdt_laws C" "chain_reachable C H ch" "sends_proper C H D x acts ch" "rfold (run_action C H D x) acts ch = Inr ch'"
    "balance_of (c_token ch') n c < balance_of (c_token ch) n c" "n \<notin> {vote_account, names_account, reward_account}"
  shows "\<exists>act \<in> set acts. n \<in> fst ` set (ra_authorization act)"
  using assms(2-5)
proof (induction acts arbitrary: ch)
  case (Cons act acts)
  then obtain ch1 where 1: "run_action C H D x act ch = Inr ch1" "rfold (run_action C H D x) acts ch1 = Inr ch'" by auto
  have reach: "chain_reachable C H ch1"
    by (rule sends_reachable [of C H ch D x "[act]"]) (use Cons.prems 1(1) in \<open>simp_all split: sum.splits\<close>)
  have wf: "token_wf C (c_token ch)" using chain_reachable_inv [OF assms(1) Cons.prems(1)] by (simp add: chain_inv_def parties_ok_def)
  show ?case
  proof (cases "balance_of (c_token ch1) n c < balance_of (c_token ch) n c")
    case True
    then obtain a where "chain_exec C H (as_declared x act) a ch = Inr ch1"
      using 1(1) by (auto simp: run_action_def split: option.splits)
    from only_signers_debited [OF assms(1) wf this True] assms(6) show ?thesis
      by (simp add: as_declared_def has_auth_def)
  next
    case False
    have "\<exists>act \<in> set acts. n \<in> fst ` set (ra_authorization act)"
      by (rule Cons.IH [OF reach _ 1(2)]) (use Cons.prems(2,4) 1(1) False in simp_all)
    then show ?thesis by simp
  qed
qed simp

text \<open>
  What the chain promises about the answer of \<open>check_transaction_authorization\<close>: when it accepts the levels \<open>ls\<close> for a packed
  transaction, every level that an action of the transaction declares is satisfied by \<open>ls\<close> (\<open>sat\<close> is the permission tree of the chain).
\<close>

definition auth_sound :: "trx_api \<Rightarrow> authority_check \<Rightarrow> (permission_level list \<Rightarrow> permission_level \<Rightarrow> bool) \<Rightarrow> bool" where
  "auth_sound M auth sat \<longleftrightarrow> (\<forall>trx ls h r r' acts r''.
     auth trx (pack_levels M ls) \<noteq> 0 \<and> read_header M trx = Inr (h, r) \<and> read_actions M r = Inr ([], r') \<and> read_actions M r' = Inr (acts, r'')
     \<longrightarrow> (\<forall>act \<in> set acts. \<forall>l \<in> set (ra_authorization act). sat ls l))"

lemma msig_sends:
  assumes "msig_exec M auth x a s = Inr (s', acts)" "acts \<noteq> []"
  obtains p q e where "a = Exec p q e" "exec M auth x p q e s = Inr (s', acts)"
  using assms by (cases a) auto

lemma exec_satisfied:
  assumes "msig_run M L s" "exec M auth x p q e s = Inr (s', acts)" "auth_sound M auth sat"
    "act \<in> set acts" "l \<in> set (ra_authorization act)"
  shows "sat (standing L (Scoped p q)) l"
proof -
  have T: "tracks M L s" by (rule msig_run_tracks [OF assms(1)])
  from assms(2) obtain pr :: proposal and h r r' r'' where "read_header M (pr_packed_transaction pr) = Inr (h, r)"
    "read_actions M r = Inr ([], r')" "read_actions M r' = Inr (acts, r'')"
    "auth (pr_packed_transaction pr) (pack_levels M (standing L (Scoped p q))) \<noteq> 0"
    unfolding exec_Inr tracks_standing [OF T] trx_is_authorized_def by blast
  then show ?thesis using assms(3-5) unfolding auth_sound_def by blast
qed

lemma standing_signed:
  assumes "msig_run M L s" "l \<in> set (standing L (Scoped p q))"
  shows "\<exists>y hash. (y, Approve p q l hash) \<in> set L \<and> has_perm y (fst l) (snd l)"
  using assms(2) grants_signed [OF assms(1)] by (fastforce simp: standing_def)

lemma wrap_exec_signed: "wrap_exec M x ds = Inr acts \<Longrightarrow> has_auth x (self x)"
  by (simp add: wrap_exec_def split: if_splits)

lemma exec_proposed:
  assumes "msig_run M L s" "exec M auth x p q e s = Inr (s', acts)"
  shows "\<exists>rs trx. proposed L (Scoped p q) = Some (rs, trx) \<and> set (standing L (Scoped p q)) \<subseteq> set rs"
proof -
  have T: "tracks M L s" by (rule msig_run_tracks [OF assms(1)])
  then have "row_tracks M L s (Scoped p q)" by (simp add: tracks_def)
  from row_tracks_None(1) [OF this] have "proposed L (Scoped p q) \<noteq> None" using assms(2) by (auto simp: exec_Inr)
  then show ?thesis using standing_requested [OF T] by fastforce
qed

text \<open>Without a delay a proposal is ripe as soon as its approvals lie in the past.\<close>

lemma undelayed_ripe:
  assumes "msig_run M L s" "tfind (ms_proposals s) k = Some pr" "get_trx_header M (pr_packed_transaction pr) = Inr h"
    "th_delay_sec h = 0" "\<And>t. t \<in> set (approval_times L k) \<Longrightarrow> t \<le> now x"
  shows "ripe x pr h"
proof -
  have "row_tracks M L s k" using msig_run_tracks [OF assms(1)] by (simp add: tracks_def)
  then obtain e where e: "pr_earliest_exec_time pr = Some e"
    "\<And>\<tau> h. e = Some \<tau> \<Longrightarrow> get_trx_header M (pr_packed_transaction pr) = Inr h \<Longrightarrow>
       \<tau> \<in> (\<lambda>y. y + uint (th_delay_sec h) * 1000000) ` set (approval_times L k)"
    by (rule row_tracksE [OF _ assms(2)]) (rule that)
  show ?thesis using e(1) e(2) [OF _ assms(3)] assms(4,5) by (auto simp: ripe_def split: option.split)
qed

lemma exec_history:
  assumes "msig_run M L s" "proposed L (Scoped p q) = Some (rs, trx)" "read_header M trx = Inr (h, r)" "th_delay_sec h = 0"
    "\<And>t. t \<in> set (approval_times L (Scoped p q)) \<Longrightarrow> t \<le> now x"
  shows "exec M auth x p q e s = Inr (s', acts) \<longleftrightarrow> has_auth x e \<and> to_sec (now x) \<le> th_expiration h
     \<and> (\<exists>r' r''. read_actions M r = Inr ([], r') \<and> read_actions M r' = Inr (acts, r''))
     \<and> auth trx (pack_levels M (standing L (Scoped p q))) \<noteq> 0
     \<and> s' = s\<lparr>ms_approvals := terase (Scoped p q) (ms_approvals s), ms_proposals := terase (Scoped p q) (ms_proposals s)\<rparr>"
proof -
  have T: "tracks M L s" by (rule msig_run_tracks [OF assms(1)])
  then have "row_tracks M L s (Scoped p q)" by (simp add: tracks_def)
  then obtain pr where pr: "tfind (ms_proposals s) (Scoped p q) = Some pr" "pr_packed_transaction pr = trx"
    using assms(2) by (auto simp: row_agrees_def)
  have "get_trx_header M (pr_packed_transaction pr) = Inr h" using assms(3) pr(2) by (simp add: get_trx_header_def)
  from undelayed_ripe [OF assms(1) pr(1) this assms(4,5)] have "ripe x pr h" by blast
  then show ?thesis
    using pr assms(3) unfolding exec_Inr tracks_standing [OF T] trx_is_authorized_def by auto
qed

section \<open>A sample world\<close>

text \<open>Every action of a transaction is a transfer of alice to carol; the chain asks for alice and bob.\<close>

definition demo_spend_api :: trx_api where
  "demo_spend_api = demo_api\<lparr>read_actions := (\<lambda>b. rbind (read_actions demo_api b) (\<lambda>(acts, r).
     Inr (map (\<lambda>act. act\<lparr>ra_authorization := [(alice, active_permission)]\<rparr>) acts, r)))\<rparr>"

definition demo_decoder :: decoder where
  "demo_decoder act = (if ra_account act = token_account
     then Some (Token_act (Transfer alice carol (mk_asset (uint (hd (ra_data act))) demo_symbol) [])) else None)"

definition demo_tree :: "permission_level list \<Rightarrow> permission_level \<Rightarrow> bool" where
  "demo_tree ls l \<longleftrightarrow> ucast (drop_bit 56 (fst l)) \<in> set (pack_levels demo_spend_api ls)"

definition demo_world :: world where
  "demo_world = \<lparr>w_chain = demo_chain, w_msig = msig_empty\<rparr>"

fun world_run :: "cdt \<Rightarrow> host \<Rightarrow> trx_api \<Rightarrow> decoder \<Rightarrow> authority_check \<Rightarrow> (ctx \<times> world_action) list \<Rightarrow> history \<times> world \<Rightarrow> (history \<times> world) option" where
  "world_run C H M D auth [] Lw = Some Lw"
| "world_run C H M D auth ((x, a) # as) (L, w) =
     (if proper C H M D auth x a w then case world_exec C H M D auth x a w of
        Inl _ \<Rightarrow> None | Inr w' \<Rightarrow> world_run C H M D auth as (noted x a L, w') else None)"

lemma world_run_reachable:
  "world_run C H M D auth as (L, w) = Some (L', w') \<Longrightarrow> world_reachable C H M D L w \<Longrightarrow> world_reachable C H M D L' w'"
proof (induction as arbitrary: L w)
  case (Cons xa as)
  obtain x a where xa: "xa = (x, a)" by (cases xa)
  from Cons.prems(1) obtain w1 where "proper C H M D auth x a w" "world_exec C H M D auth x a w = Inr w1"
    "world_run C H M D auth as (noted x a L, w1) = Some (L', w')"
    by (auto simp: xa split: if_splits sum.splits simp del: world_exec.simps proper.simps)
  then show ?case using Cons.IH world_reachable.moved [OF Cons.prems(2)] by blast
qed simp

definition demo_approvals :: "(ctx \<times> world_action) list" where
  "demo_approvals =
    [(demo_at 0 [carol], Msig_act (Propose carol 5 [(alice, active_permission), (bob, active_permission)] [100, 10, 0, 1, 7])),
     (demo_at 1 [alice], Msig_act (Approve carol 5 (alice, active_permission) None)),
     (demo_at 2 [bob], Msig_act (Approve carol 5 (bob, active_permission) (Some [7, 1, 0, 10, 100])))]"

lemma demo_auth_sound: "auth_sound demo_spend_api demo_auth demo_tree"
proof -
  have a: "ucast (drop_bit 56 alice) = (0x34 :: 8 word)" by code_simp
  show ?thesis
    unfolding auth_sound_def demo_auth_def demo_tree_def
    by (auto simp: demo_spend_api_def a split: if_splits)
qed

section \<open>Properties\<close>

text \<open>C3: nobody else's tokens move. Whatever transaction succeeds, whatever inline actions and notifications it triggers and whatever
  proposal it executes, a balance that sinks, in any token, belongs to one of the custody accounts of votes, names and rewards, or to
  an account that signed the transaction, or to an account for which the executed transaction
  is authorized by the approvals that stand, all of them asked for and signed by their holders, or \<open>flon.wrap\<close> itself signed.\<close>
theorem nobody_else_pays:
  assumes "cdt_laws C" "world_reachable C H M D L w" "proper C H M D auth x a w" "world_exec C H M D auth x a w = Inr w'"
    "auth_sound M auth sat" "balance_of (c_token (w_chain w')) n c < balance_of (c_token (w_chain w)) n c"
    "n \<notin> {vote_account, names_account, reward_account}"
  shows "case a of
       Chain_act _ \<Rightarrow> has_auth x n
     | Msig_act b \<Rightarrow> \<exists>p q e rs trx perm. b = Exec p q e \<and> has_auth x e \<and> proposed L (Scoped p q) = Some (rs, trx)
         \<and> sat (standing L (Scoped p q)) (n, perm)
         \<and> (\<forall>l \<in> set (standing L (Scoped p q)). l \<in> set rs \<and> (\<exists>y hash. (y, Approve p q l hash) \<in> set L \<and> has_perm y (fst l) (snd l)))
     | Wrap_act ds \<Rightarrow> has_auth x wrap_account"
proof -
  have R: "chain_reachable C H (w_chain w)" and L: "msig_run M L (w_msig w)" using world_parts [OF assms(2)] by simp_all
  show ?thesis
  proof (cases a)
    case (Chain_act b)
    have "token_wf C (c_token (w_chain w))" using chain_reachable_inv [OF assms(1) R] by (simp add: chain_inv_def parties_ok_def)
    then show ?thesis using only_signers_debited [OF assms(1), of "w_chain w" H x b "w_chain w'" n c] assms(4,6,7) Chain_act
      by (auto simp del: chain_exec.simps)
  next
    case (Msig_act b)
    let ?x = "on x msig_account (auths x)"
    from Msig_act obtain s acts ch where e: "msig_exec M auth ?x b (w_msig w) = Inr (s, acts)"
      and f: "rfold (run_action C H D x) acts (w_chain w) = Inr ch" and w': "w' = w\<lparr>w_msig := s, w_chain := ch\<rparr>"
      using assms(4) by (auto simp del: msig_exec.simps)
    have "sends_proper C H D x acts (w_chain w)" using assms(3) Msig_act e by simp
    from sends_debit [OF assms(1) R this f _ assms(7)] assms(6) w' obtain act perm
      where act: "act \<in> set acts" "(n, perm) \<in> set (ra_authorization act)" by fastforce
    then have "acts \<noteq> []" by auto
    with e obtain p q ee where b: "b = Exec p q ee" and ex: "exec M auth ?x p q ee (w_msig w) = Inr (s, acts)" by (rule msig_sends)
    have "has_auth x ee" using ex by (simp only: exec_Inr has_auth_on)
    moreover obtain rs trx where "proposed L (Scoped p q) = Some (rs, trx)" and sub: "set (standing L (Scoped p q)) \<subseteq> set rs"
      using exec_proposed [OF L ex] by blast
    moreover have "sat (standing L (Scoped p q)) (n, perm)" by (rule exec_satisfied [OF L ex assms(5) act])
    moreover have "\<forall>l \<in> set (standing L (Scoped p q)). l \<in> set rs
        \<and> (\<exists>y hash. (y, Approve p q l hash) \<in> set L \<and> has_perm y (fst l) (snd l))"
      using sub standing_signed [OF L] by blast
    ultimately show ?thesis unfolding Msig_act world_action.case b by blast
  next
    case (Wrap_act ds)
    then show ?thesis using assms(4) by (auto simp: has_auth_on simp del: on_simps(7) dest: wrap_exec_signed)
  qed
qed

theorem nobody_else_pays_witness:
  "\<exists>L w w'. world_run cdt_ref demo_host demo_spend_api demo_decoder demo_auth demo_approvals ([], demo_world) = Some (L, w)
     \<and> world_exec cdt_ref demo_host demo_spend_api demo_decoder demo_auth (demo_at 30 [carol]) (Msig_act (Exec carol 5 carol)) w = Inr w'
     \<and> balance_of (c_token (w_chain w)) alice (sym_code demo_symbol) = 240
     \<and> balance_of (c_token (w_chain w')) alice (sym_code demo_symbol) = 233
     \<and> (\<exists>perm. demo_tree (standing L (Scoped carol 5)) (alice, perm))"
proof -
  let ?x = "demo_at 30 [carol]" and ?a = "Msig_act (Exec carol 5 carol)"
  let ?r = "world_run cdt_ref demo_host demo_spend_api demo_decoder demo_auth demo_approvals ([], demo_world)"
  let ?e = "world_exec cdt_ref demo_host demo_spend_api demo_decoder demo_auth ?x ?a"
  let ?b = "\<lambda>w. balance_of (c_token (w_chain w)) alice (sym_code demo_symbol)"
  have "(case ?r of None \<Rightarrow> False | Some (L, w) \<Rightarrow> proper cdt_ref demo_host demo_spend_api demo_decoder demo_auth ?x ?a w
      \<and> ?b w = 240 \<and> (case ?e w of Inl _ \<Rightarrow> False | Inr w' \<Rightarrow> ?b w' = 233))" by code_simp
  then obtain L w where r: "?r = Some (L, w)" and p: "proper cdt_ref demo_host demo_spend_api demo_decoder demo_auth ?x ?a w"
    and b: "?b w = 240" and c: "case ?e w of Inl _ \<Rightarrow> False | Inr w' \<Rightarrow> ?b w' = 233"
    by (auto split: option.splits simp del: world_exec.simps proper.simps)
  from c obtain w' where e: "?e w = Inr w'" "?b w' = 233" by (cases "?e w") auto
  have "world_reachable cdt_ref demo_host demo_spend_api demo_decoder L w"
    using world_run_reachable [OF r] world_reachable.settled [OF demo_chain_reachable] by (simp add: demo_world_def)
  moreover have "alice \<notin> {vote_account, names_account, reward_account}" by code_simp
  ultimately show ?thesis using nobody_else_pays [OF ref.laws _ p e(1) demo_auth_sound, of L alice "sym_code demo_symbol"] r e b by auto
qed

text \<open>C6: an approved proposal runs. In a reachable world the execution of a proposal without a delay, whose approvals lie in the past, succeeds exactly
  when the executer signed, the transaction has not expired and has no context-free actions, the chain accepts it with the
  standing approvals, and its actions run on the contracts one after the other; then the contracts are in the state
  the actions lead to, the proposal is gone, and executing it again is refused.\<close>
theorem approved_proposal_runs:
  assumes "world_reachable C H M D L w" "proposed L (Scoped p q) = Some (rs, trx)" "read_header M trx = Inr (h, r)" "th_delay_sec h = 0"
    "\<And>t. t \<in> set (approval_times L (Scoped p q)) \<Longrightarrow> t \<le> now x"
  shows "(world_exec C H M D auth x (Msig_act (Exec p q e)) w = Inr w' \<longleftrightarrow>
       has_auth x e \<and> to_sec (now x) \<le> th_expiration h \<and> auth trx (pack_levels M (standing L (Scoped p q))) \<noteq> 0
       \<and> (\<exists>r' acts r''. read_actions M r = Inr ([], r') \<and> read_actions M r' = Inr (acts, r'')
            \<and> rfold (run_action C H D x) acts (w_chain w) = Inr (w_chain w'))
       \<and> w_msig w' = (w_msig w)\<lparr>ms_approvals := terase (Scoped p q) (ms_approvals (w_msig w)),
                                ms_proposals := terase (Scoped p q) (ms_proposals (w_msig w))\<rparr>)
     \<and> (world_exec C H M D auth x (Msig_act (Exec p q e)) w = Inr w' \<and> has_auth y e' \<longrightarrow>
          world_exec C H M D auth' y (Msig_act (Exec p q e')) w' = Inl (Check ''proposal not found''))"
proof -
  let ?x = "on x msig_account (auths x)"
  have L: "msig_run M L (w_msig w)" using world_parts [OF assms(1)] by simp
  have t: "t \<le> now ?x" if "t \<in> set (approval_times L (Scoped p q))" for t using assms(5) [OF that] by simp
  have iff: "world_exec C H M D auth x (Msig_act (Exec p q e)) w = Inr w' \<longleftrightarrow>
     has_auth x e \<and> to_sec (now x) \<le> th_expiration h \<and> auth trx (pack_levels M (standing L (Scoped p q))) \<noteq> 0
     \<and> (\<exists>r' acts r''. read_actions M r = Inr ([], r') \<and> read_actions M r' = Inr (acts, r'')
          \<and> rfold (run_action C H D x) acts (w_chain w) = Inr (w_chain w'))
     \<and> w_msig w' = (w_msig w)\<lparr>ms_approvals := terase (Scoped p q) (ms_approvals (w_msig w)),
                              ms_proposals := terase (Scoped p q) (ms_proposals (w_msig w))\<rparr>"
    by (auto simp: exec_history [OF L assms(2-4) t] has_auth_on simp del: on_simps(7) intro: world.equality)
  have "world_exec C H M D auth' y (Msig_act (Exec p q e')) w' = Inl (Check ''proposal not found'')"
    if "world_exec C H M D auth x (Msig_act (Exec p q e)) w = Inr w'" "has_auth y e'"
  proof -
    have "tfind (ms_proposals (w_msig w')) (Scoped p q) = None" using that(1) unfolding iff by (simp add: tfind_terase)
    then show ?thesis using that(2) by (simp add: exec_def Let_def)
  qed
  then show ?thesis unfolding iff by blast
qed

definition demo_prompt :: "(ctx \<times> world_action) list" where
  "demo_prompt =
    [(demo_at 0 [carol], Msig_act (Propose carol 5 [(alice, active_permission), (bob, active_permission)] [100, 0, 0, 1, 7])),
     (demo_at 1 [alice], Msig_act (Approve carol 5 (alice, active_permission) None)),
     (demo_at 2 [bob], Msig_act (Approve carol 5 (bob, active_permission) None))]"

theorem approved_proposal_runs_witness:
  "\<exists>L w w'. world_run cdt_ref demo_host demo_spend_api demo_decoder demo_auth demo_prompt ([], demo_world) = Some (L, w)
     \<and> world_exec cdt_ref demo_host demo_spend_api demo_decoder demo_auth (demo_at 3 [bob]) (Msig_act (Exec carol 5 bob)) w = Inr w'
     \<and> (\<exists>acts. rfold (run_action cdt_ref demo_host demo_decoder (demo_at 3 [bob])) acts demo_chain = Inr (w_chain w') \<and> acts \<noteq> [])"
proof -
  let ?x = "demo_at 3 [bob]" and ?k = "Scoped carol 5" and ?M = demo_spend_api
  let ?r = "world_run cdt_ref demo_host ?M demo_decoder demo_auth demo_prompt ([], demo_world)"
  let ?e = "world_exec cdt_ref demo_host ?M demo_decoder demo_auth ?x (Msig_act (Exec carol 5 bob))"
  let ?h = "\<lparr>th_expiration = 1700000100, th_ref_block_num = 0, th_ref_block_prefix = 0,
      th_max_net_usage_words = 0, th_max_cpu_usage_ms = 0, th_delay_sec = 0\<rparr>"
  have "(case ?r of None \<Rightarrow> False | Some (L, w) \<Rightarrow>
      proposed L ?k = Some ([(alice, active_permission), (bob, active_permission)], [100, 0, 0, 1, 7])
      \<and> list_all (\<lambda>t. t \<le> now ?x) (approval_times L ?k)
      \<and> w_chain w = demo_chain \<and> (case ?e w of Inl _ \<Rightarrow> False | Inr w' \<Rightarrow> True))" by code_simp
  then obtain L w where r: "?r = Some (L, w)"
    and p: "proposed L ?k = Some ([(alice, active_permission), (bob, active_permission)], [100, 0, 0, 1, 7])"
    and t: "\<And>t. t \<in> set (approval_times L ?k) \<Longrightarrow> t \<le> now ?x"
    and w: "w_chain w = demo_chain" and c: "case ?e w of Inl _ \<Rightarrow> False | Inr w' \<Rightarrow> True"
    by (auto simp: list_all_iff split: option.splits simp del: world_exec.simps)
  from c obtain w' where e: "?e w = Inr w'" by (cases "?e w") auto
  have R: "world_reachable cdt_ref demo_host ?M demo_decoder L w"
    using world_run_reachable [OF r] world_reachable.settled [OF demo_chain_reachable] by (simp add: demo_world_def)
  have h: "read_header ?M [100, 0, 0, 1, 7] = Inr (?h, [0, 1, 7])" "th_delay_sec ?h = 0" by code_simp+
  have a: "read_actions ?M [0, 1, 7] = Inr ([], [1, 7])" by code_simp
  have b: "(case read_actions ?M [1, 7] of Inl _ \<Rightarrow> False | Inr (acts, _) \<Rightarrow> acts \<noteq> [])" by code_simp
  from approved_proposal_runs [OF R p h t] e obtain r' acts r'' where x: "read_actions ?M [0, 1, 7] = Inr ([], r')"
    "read_actions ?M r' = Inr (acts, r'')" "rfold (run_action cdt_ref demo_host demo_decoder ?x) acts demo_chain = Inr (w_chain w')"
    using w by metis
  then have "acts \<noteq> []" using a b by auto
  then show ?thesis using r e x(3) by blast
qed

end
