(* ===== verification/System_Extras.thy ===== *)
theory System_Extras
  imports Voting
begin

text \<open>
  The helpers of \<open>flon.system.hpp\<close> that no action of the configuration with voting calls: the flags of an unsigned
  word, the queries for the core symbol, the chain of member functions \<open>registration\<close>, and \<open>setprods\<close>, which replaces
  the election when the contract is compiled without voting.
\<close>

unbundle bit_operations_syntax

section \<open>Flags\<close>

definition has_field :: "'w::len word \<Rightarrow> 'w word \<Rightarrow> bool" where
  "has_field flags field \<longleftrightarrow> flags AND field \<noteq> 0"

definition set_field :: "'w::len word \<Rightarrow> 'w word \<Rightarrow> bool \<Rightarrow> 'w word" where
  "set_field flags field v = (if v then flags OR field else flags AND NOT field)"

text \<open>Setting a flag shows on that flag and on no flag it shares no bit with; the last setting counts.\<close>

lemma has_field_set:
  assumes "field \<noteq> 0"
  shows "has_field (set_field flags field v) field \<longleftrightarrow> v"
  using assms by (auto simp: has_field_def set_field_def bit_eq_iff bit_simps)

lemma has_field_other:
  assumes "field AND other = 0"
  shows "has_field (set_field flags field v) other \<longleftrightarrow> has_field flags other"
proof -
  have "\<not> (bit field n \<and> bit other n)" for n using assms by (metis bit_and_iff bit_0_eq bot_apply bot_bool_def)
  then have "set_field flags field v AND other = flags AND other"
    by (auto simp: set_field_def bit_eq_iff bit_simps)
  then show ?thesis by (simp add: has_field_def)
qed

lemma set_field_twice: "set_field (set_field flags field u) field v = set_field flags field v"
  by (auto simp: set_field_def bit_eq_iff bit_simps)

section \<open>The core symbol\<close>

definition get_core_symbol :: "sys_state \<Rightarrow> symbol res" where
  "get_core_symbol s =
     (case sg s of
        None \<Rightarrow> Inl (Check ''global does not exist'')
      | Some g \<Rightarrow> let y = a_symbol (g_total_vote_stake g) in
          if \<not> y \<noteq> null_symbol then Inl (Check ''system contract must first be initialized'') else Inr y)"

definition is_init :: "cdt \<Rightarrow> host \<Rightarrow> sys_state \<Rightarrow> bool" where
  "is_init C H s = symbol_is_valid C (a_symbol (g_total_vote_stake (gs H s)))"

definition check_init :: "cdt \<Rightarrow> host \<Rightarrow> sys_state \<Rightarrow> unit res" where
  "check_init C H s = (if \<not> is_init C H s then Inl (Check ''system contract must first be initialized'') else Inr ())"

text \<open>Where the contract is initialised, the query from outside and the member function agree.\<close>

lemma core_symbol_agrees:
  assumes "cdt_laws C" "is_init C H s" "sg s \<noteq> None"
  shows "core_symbol C H s = get_core_symbol s" "check_init C H s = Inr ()"
  using assms null_symbol_invalid [OF assms(1)]
  by (auto simp: core_symbol_def get_core_symbol_def is_init_def check_init_def gs_def Let_def)

section \<open>Without voting\<close>

definition setprods :: "ctx \<Rightarrow> (name \<times> block_signing_authority) list \<Rightarrow> sys_state \<Rightarrow> sys_state outcome" where
  "setprods x schedule s =
     (if \<not> has_auth x (self x) then Inl (MissingAuth (self x)) else Inr (s, [Propose_producers schedule]))"

text \<open>\<open>registration\<close> invokes the listed member functions in order with the same arguments; an empty list does not compile.\<close>

fun registration :: "('a \<Rightarrow> sys_state \<Rightarrow> sys_state res) list \<Rightarrow> 'a \<Rightarrow> sys_state \<Rightarrow> sys_state res" where
  "registration [] args s = Inr s"
| "registration [f] args s = f args s"
| "registration (f # fs) args s = rbind (f args s) (registration fs args)"

lemma registration_loop: "registration fs args = rfold (\<lambda>f. f args) fs"
proof
  show "registration fs args s = rfold (\<lambda>f. f args) fs s" for s
    by (induction fs args s rule: registration.induct) (auto simp: fun_eq_iff rbind_def split: sum.split)
qed

end
