(* ===== verification/Test_Contracts.thy ===== *)
theory Test_Contracts
  imports Block_Info Multisig
begin

text \<open>
  The contracts under \<open>test_contracts\<close> that the tests of the repository deploy: \<open>reject_all\<close> refuses everything but the two actions that
  set it up and remove it, \<open>sendinline\<close> sends whatever it is told to, and \<open>blockinfo_tester\<close> answers queries for the latest
  batch of blocks. How data is packed belongs to the development kit and is a parameter.
\<close>

section \<open>reject_all\<close>

definition setcode_action :: name where "setcode_action = 0xc2b28a2540000000" \<comment> \<open>setcode\<close>
definition newaccount_action :: name where "newaccount_action = 0x9ab864229a9e4000" \<comment> \<open>newaccount\<close>
definition rejectall_account :: name where "rejectall_account = 0xba9ea464d1880000" \<comment> \<open>rejectall\<close>

text \<open>\<open>unpack1\<close> and \<open>unpack2\<close> stand for \<open>unpack_action_data\<close> of a name and of a pair of names.\<close>

definition reject_all_apply ::
  "(bytes \<Rightarrow> name res) \<Rightarrow> (bytes \<Rightarrow> (name \<times> name) res) \<Rightarrow> (name \<Rightarrow> bool) \<Rightarrow> bytes \<Rightarrow> name \<Rightarrow> name \<Rightarrow> name \<Rightarrow> unit res" where
  "reject_all_apply unpack1 unpack2 is_acc data receiver first_rec action =
     (if \<not> receiver = first_rec then Inl (Check ''rejecting all notifications'')
      else if first_rec = system_account \<and> action = setcode_action
        then rbind (unpack1 data) (\<lambda>accnt.
          if accnt = system_account \<and> \<not> is_acc rejectall_account then Inr ()
          else Inl (Check ''rejecting all actions''))
      else if first_rec = system_account \<and> action = newaccount_action
        then rbind (unpack2 data) (\<lambda>accnts.
          if snd accnts = rejectall_account then Inr ()
          else Inl (Check ''rejecting all actions''))
      else Inl (Check ''rejecting all actions''))"

text \<open>Exactly the two documented exceptions pass.\<close>

lemma reject_all_iff:
  "reject_all_apply u1 u2 is_acc data receiver first_rec action = Inr () \<longleftrightarrow>
     receiver = system_account \<and> first_rec = system_account
   \<and> (action = setcode_action \<and> u1 data = Inr system_account \<and> \<not> is_acc rejectall_account
      \<or> action = newaccount_action \<and> (\<exists>c. u2 data = Inr (c, rejectall_account)))"
  by (auto simp: reject_all_apply_def setcode_action_def newaccount_action_def)

section \<open>sendinline\<close>

definition send :: "name \<Rightarrow> name \<Rightarrow> permission_level list \<Rightarrow> bytes \<Rightarrow> raw_action" where
  "send contract action_name au payload =
     \<lparr>ra_account = contract, ra_name = action_name, ra_authorization = au, ra_data = payload\<rparr>"

section \<open>blockinfo_tester\<close>

record batch_request =
  rq_batch_start_height_offset :: "32 word"
  rq_batch_size :: "32 word"

record batch_response =
  rp_result :: "block_batch_info option"
  rp_error_code :: "32 word"

definition no_error :: "32 word" where "no_error = 0"
definition invalid_input :: "32 word" where "invalid_input = 1"
definition unsupported_version :: "32 word" where "unsupported_version = 2"
definition insufficient_data :: "32 word" where "insufficient_data = 3"

fun code_of :: "batch_error \<Rightarrow> 32 word" where
  "code_of No_error = no_error"
| "code_of Invalid_input = invalid_input"
| "code_of Unsupported_version = unsupported_version"
| "code_of Insufficient_data = insufficient_data"

definition has_error :: "batch_response \<Rightarrow> bool" where
  "has_error r \<longleftrightarrow> \<not> (rp_error_code r = no_error \<and> rp_result r \<noteq> None)"

text \<open>The prints of \<open>process\<close> go to the console of the node and are left out.\<close>

definition process :: "(64 word, block_info_record) table \<Rightarrow> batch_request \<Rightarrow> batch_response" where
  "process t request =
     (case get_latest_block_batch_info (rq_batch_start_height_offset request) (rq_batch_size request) t of
        (res, err) \<Rightarrow> \<lparr>rp_result = res, rp_error_code = code_of err\<rparr>)"

datatype tester_input = Input_get_latest_block_batch_info batch_request
datatype tester_output = Output_latest_block_batch_info batch_response

fun process_call :: "(64 word, block_info_record) table \<Rightarrow> tester_input \<Rightarrow> tester_output" where
  "process_call t (Input_get_latest_block_batch_info r) = Output_latest_block_batch_info (process t r)"

definition call_action :: name where "call_action = 0x41a3100000000000" \<comment> \<open>call\<close>
definition abort_action :: name where "abort_action = 0x31e97c8000000000" \<comment> \<open>abort\<close>
definition return_action :: name where "return_action = 0xbab3abcc00000000" \<comment> \<open>return\<close>

definition tester_apply ::
  "(bytes \<Rightarrow> tester_input res) \<Rightarrow> (tester_output \<Rightarrow> bytes) \<Rightarrow> (64 word, block_info_record) table \<Rightarrow> bytes \<Rightarrow> name \<Rightarrow> name \<Rightarrow> name
     \<Rightarrow> raw_action list res" where
  "tester_apply unpack pack t data receiver code action =
     (if receiver = code then
        if action = call_action then
          rbind (unpack data) (\<lambda>input.
            Inr [\<lparr>ra_account = receiver, ra_name = return_action, ra_authorization = [],
                  ra_data = pack (process_call t input)\<rparr>])
        else if action = abort_action then Inl (Library ''error code 0'')
        else Inr []
      else Inr [])"

text \<open>The answer reports an error exactly when there is no batch, and the codes tell the errors apart.\<close>

lemma batch_error_iff: "snd (get_latest_block_batch_info off n t) = No_error \<longleftrightarrow> fst (get_latest_block_batch_info off n t) \<noteq> None"
  by (auto simp: get_latest_block_batch_info_def Let_def split: option.split)

lemmas code_defs = no_error_def invalid_input_def unsupported_version_def insufficient_data_def

lemma code_of_inject: "code_of e = code_of e' \<longleftrightarrow> e = e'"
  by (cases e; cases e') (simp_all add: code_defs)

lemma process_error: "has_error (process t r) \<longleftrightarrow> rp_result (process t r) = None"
proof -
  let ?g = "get_latest_block_batch_info (rq_batch_start_height_offset r) (rq_batch_size r) t"
  have p: "process t r = \<lparr>rp_result = fst ?g, rp_error_code = code_of (snd ?g)\<rparr>" by (simp add: process_def split_beta)
  have "rp_error_code (process t r) = no_error \<longleftrightarrow> snd ?g = No_error"
    using code_of_inject [of "snd ?g" No_error] by (simp add: p)
  then show ?thesis using batch_error_iff [of "rq_batch_start_height_offset r" "rq_batch_size r" t] by (auto simp: has_error_def p)
qed

end
