(* ===== verification/Spec2Isabelle.thy ===== *)
theory Spec2Isabelle
  imports Token Token_Spec Reward_Props Voting_Props Election_Props Finalizer_Props Block_Info Name_Props Producer_Pay System_Admin
    System_Steps Chain_Props Economy_Props Multisig_Props Base58_Props Utils_Props Pubkey_Props Bios_Props
    Custody_Props Block_Props Pay_Props Refund_Props World_Props System_Extras Test_Contracts
begin

text \<open>
  Verification of the contracts under \<open>src/contracts\<close> of flon.contracts.

  \<^bold>\<open>The program.\<close> Three contracts carry the economy of the chain. \<open>flon.system\<close> registers producers, keeps
  the votes and their stakes, elects producers and finalizers on every block, pays producers, sells names and gas
  and administers the chain. It keeps the stakes on the account \<open>flon.vote\<close> and the bids on \<open>flon.names\<close>, moves
  tokens by inline actions to \<open>flon.token\<close>, and reports every change of the votes by inline actions to
  \<open>flon.reward\<close>, which shares what producers pay in among their voters and pays claims out. Beside them stand
  \<open>flon.msig\<close> and \<open>flon.wrap\<close> (transactions on behalf of several accounts), \<open>pubkey.token\<close> (tokens for public keys without
  an account), and \<open>flon.bios\<close> and \<open>flon.boot\<close> (the first contracts of a new chain).

  \<^bold>\<open>How code is modelled.\<close> An action is a function from its arguments and the tables of its contract to an abort
  or the new tables (\<open>Inl e\<close>, \<open>Inr s\<close>), with every \<open>check\<close> and every abort of a library call as a branch. A table is an
  association list in key order (\<open>Prelude\<close>, locale \<open>row_store\<close>), a secondary index a search in index order. Signed
  64 and 128 bit arithmetic is arithmetic on \<open>int\<close> followed by the wrap-around \<open>i64\<close> or \<open>i128\<close>; unsigned numbers, names
  and symbol codes are words of their width. What the contracts use of the development kit is the record \<open>cdt\<close> with the documented laws
  \<open>cdt_laws\<close> (\<open>Platform\<close>, locale \<open>cdt_platform\<close>, with the instance \<open>cdt_ref\<close>); what they ask of the chain is in \<open>ctx\<close> (authorizations,
  accounts, time), \<open>host\<close> (\<open>System_State\<close>), \<open>trx_api\<close> (\<open>Multisig\<close>) and \<open>pk_api\<close> (\<open>Pubkey_Token\<close>). Calls that change the chain
  are recorded as effects in their order. Undefined behaviour that the code runs into is a parameter of the model: the value of an uninitialised member
  (\<open>indeterminate\<close>), of an empty \<open>optional\<close> (\<open>disengaged_finalizers\<close>), the addresses of two vectors whose iterators are compared
  (\<open>Voting.voteproducer\<close>) and of the keys a set hashes (\<open>Bios.check_finalizer\<close>), and the bytes beside a key in an object that is hashed as raw
  memory (\<open>Pubkey_Token.key_memory\<close>).

  \<^bold>\<open>Which theory models what.\<close>
  \<^item> \<open>Token\<close>: \<open>flon.token\<close>, all actions and queries, with its properties. \<open>Token_Spec\<close>: the abstract ledger it implements.
  \<^item> \<open>Reward\<close>: \<open>flon.reward\<close>. \<open>Reward_Ledger\<close>, \<open>Reward_Actions\<close> and \<open>Reward_Voting\<close> prove what each action does to its books,
    \<open>Reward_Props\<close> holds the reachable states and the properties.
  \<^item> \<open>System_State\<close>: the tables and the global state of \<open>flon.system\<close> (\<open>flon.system.hpp\<close>). \<open>Voting\<close>: \<open>voting.cpp\<close>. \<open>Finalizers\<close>: the election
    (\<open>voting.cpp\<close>) and \<open>finalizer_key.cpp\<close>. \<open>Block_Info\<close>: \<open>block_info.cpp\<close>, \<open>block_info.hpp\<close>. \<open>Name_Bidding\<close>: \<open>name_bidding.cpp\<close>, account creation
    (\<open>flon.system.cpp\<close>, \<open>native.cpp\<close>), \<open>limit_auth_changes.cpp\<close>. \<open>Producer_Pay\<close>: \<open>producer_pay.cpp\<close>. \<open>System_Admin\<close>: \<open>delegate_bandwidth.cpp\<close> and the rest of
    \<open>flon.system.cpp\<close>. \<open>System_Steps\<close>: all its actions as one state machine. \<open>System_Extras\<close>: helpers of the header and \<open>setprods\<close>, outside that machine.
  \<^item> \<open>Chain\<close>: token, reward and system contract together, with inline actions and notifications. \<open>Interfaces\<close>: what each relies on of
    another, as the locales \<open>vote_ledger\<close> and \<open>token_ledger\<close>, interpreted on \<open>flon.reward\<close> and \<open>flon.token\<close>.
  \<^item> \<open>Multisig\<close>: \<open>flon.msig\<close>, \<open>flon.wrap\<close>, and the history of a run as the specification of the tables. \<open>World\<close>: both together with
    the economy, where the actions of an executed proposal run on the three contracts with the authorization they declare.
  \<^item> \<open>Base58\<close>, \<open>Utils\<close>, \<open>Pubkey_Token\<close>: the headers and the contract \<open>pubkey.token\<close>; the locale \<open>radix\<close> is the arithmetic
    of digits for the bases 58, 256 and 10.
  \<^item> \<open>Bios\<close>: \<open>flon.bios\<close> and \<open>flon.boot\<close>. \<open>Test_Contracts\<close>: the contracts the tests deploy.

  \<^bold>\<open>What is shown.\<close>
  \<^item> \<open>Chain_Props\<close> (by \<open>Chain_Steps\<close>, \<open>Chain_Inv\<close>): in every reachable state of the three contracts the custody accounts hold what is owed and the two
    copies of the votes agree; claims are paid; votes and withdrawals that \<open>flon.system\<close> accepts are not vetoed by
    the others. \<open>Refund_Props\<close>: withdrawn stakes and outbid bids come back, whatever happens in between. \<open>Block_Props\<close>: blocks are processed until the division of the block reward traps. \<open>Pay_Props\<close>: the totals of producer pay add up.
    \<open>World_Props\<close> (by \<open>Custody_Props\<close>): tokens leave an account only with its signature, with the approvals of a proposal, or from custody; an approved proposal runs, once.
    \<open>Frames\<close>: the locale \<open>system_frame\<close>, by which a table that only one kind of action changes is kept by every other transaction; it is
    interpreted for the rules of the election and the authority limits, for producer pay and for the refunds.
  \<^item> \<open>Token\<close>, \<open>Token_Spec\<close>: supply is the sum of balances, every run of actions implements the ledger (locale \<open>implements\<close>), who can be debited. \<open>Reward_Props\<close>: solvency,
    completeness of vote changes, claims are paid once, payments are shared up to rounding, the merge of producer lists.
  \<^item> \<open>Voting_Props\<close>, \<open>Name_Props\<close>, \<open>Economy_Props\<close>: the books of votes and auctions, bids, account creation, halving, gas, well-typed rows, and
    the refusal of kept inactive producers. \<open>System_Props\<close>: authority limits and the start of the election.
    \<open>Election_Props\<close>, \<open>Finalizer_Props\<close>, \<open>Block_Info\<close>: the elected producers, the finalizer quorum and registry, the window of blocks.
  \<^item> \<open>Multisig_Props\<close>: the tables implement the history; what is executed was proposed, is authorized by standing approvals, and is executed once.
  \<^item> \<open>Base58_Props\<close>, \<open>Utils_Props\<close>: the decoder is a change of base with a large enough buffer, checked arithmetic is exact, printed
    assets that are not negative are read back, splitting ends. \<open>Pubkey_Props\<close>: deposits add up and never leave, whatever is in memory. \<open>Bios_Props\<close>: which finalizer policies are proposed.

  \<^bold>\<open>Bounds and loops.\<close> No definition uses fuel. Loops over vectors and tables are structural recursions or \<open>rfold\<close>; \<open>split_from\<close> has a measure; \<open>power_loop\<close> and
  \<open>p10_loop\<close> count their rounds down. Constants are those of the source. The theorems on reachable states
  assume of a transaction only what \<open>user_ctx\<close> and \<open>user_act\<close> say: the custody accounts sign nothing themselves, the system account uses
  the reward contract through its own contract, vectors do not overlap in memory, and a fresh voter row of \<open>flon.reward\<close> starts at zero.

  \<^bold>\<open>Not modelled.\<close> The state machines of the configurations without voting and without name bids: the development models the one with
  both. RAM payers, serialisation and printing. Contracts of users that are notified of transfers. Cryptography, the authorization
  check and the scheduler of the chain, which are parameters; deferred transactions are recorded and their actions are
  transactions of their own. An action that a proposal sends to \<open>flon.msig\<close>, \<open>flon.wrap\<close> or a contract of a user likewise counts as a transaction of its own. The unit tests, scripts and documents. What then
  remains of the sources is declarations: prototypes of actions, types of tables and of serialised data that the contracts ignore, unused constants, and the copies of
  \<open>flon.token.hpp\<close> and \<open>flon.system.hpp\<close> under \<open>pubkey.token\<close>, of which only the name of the transfer action is used.
\<close>

end
